(* ===== verification/Go_Prelude.thy ===== *)
theory Go_Prelude
  imports Main "HOL-Library.Word" "HOL-Library.Multiset" "HOL-Library.Monad_Syntax"
begin

text \<open>
  Shared vocabulary of the development: the machine types of the Go code (256-bit unsigned
  integers, addresses, storage words, bytes), Go's integer conversions and truncated division,
  the contract of the one 512-bit routine of the uint256 library that the formulas rely on, and
  the arithmetic lemmas every component uses.
\<close>

unbundle bit_operations_syntax

type_synonym u256 = "256 word"
type_synonym address = "160 word"
type_synonym hash = "256 word"
type_synonym byte = "8 word"

type_synonym storage_reader = "address \<Rightarrow> hash \<Rightarrow> hash"
type_synonym evm_caller = "address \<Rightarrow> byte list \<Rightarrow> byte list option"

text \<open>A failing Go call: an error value, or a panic.\<close>

datatype fault = Err string | Panic

text \<open>Reading a missing key of a Go map gives the zero value.\<close>

definition get0 :: "('k \<rightharpoonup> u256) \<Rightarrow> 'k \<Rightarrow> u256" where
  "get0 m k = (case m k of Some v \<Rightarrow> v | None \<Rightarrow> 0)"

subsection \<open>Go integer conversions\<close>

text \<open>
  Go's conversions to narrower signed types keep the low bits and read them as two's
  complement; \<open>/\<close> on Go integers truncates towards zero.
\<close>

definition to_int16 :: "int \<Rightarrow> int" where
  "to_int16 x = (x + 2 ^ 15) mod 2 ^ 16 - 2 ^ 15"

definition to_int32 :: "int \<Rightarrow> int" where
  "to_int32 x = (x + 2 ^ 31) mod 2 ^ 32 - 2 ^ 31"

definition go_quot :: "int \<Rightarrow> int \<Rightarrow> int" where
  "go_quot a b = (if b = 0 then 0 else sgn a * sgn b * (\<bar>a\<bar> div \<bar>b\<bar>))"

definition go_rem :: "int \<Rightarrow> int \<Rightarrow> int" where
  "go_rem a b = a - b * go_quot a b"

lemma to_int16_id: "- (2 ^ 15) \<le> x \<Longrightarrow> x < 2 ^ 15 \<Longrightarrow> to_int16 x = x"
  by (simp add: to_int16_def)

lemma to_int32_id: "- (2 ^ 31) \<le> x \<Longrightarrow> x < 2 ^ 31 \<Longrightarrow> to_int32 x = x"
  by (simp add: to_int32_def)

lemma go_quot_nonneg: "0 \<le> a \<Longrightarrow> 0 < b \<Longrightarrow> go_quot a b = a div b"
  by (cases "a = 0") (auto simp: go_quot_def)

lemma go_quot_neg:
  assumes "a < 0" and "0 < b"
  shows "go_quot a b = - ((- a) div b)"
  using assms by (simp add: go_quot_def)

lemma neg_div_ceil:
  fixes a b :: int
  assumes "0 < b"
  shows "- ((- a) div b) = (if b dvd a then a div b else a div b + 1)"
  using assms by (simp add: zdiv_zminus1_eq_if mod_eq_0_iff_dvd)

text \<open>The compress step of concentrated-liquidity pools: truncated division, then a step down.\<close>

lemma go_quot_floor:
  assumes "0 < b"
  shows "(if a < 0 \<and> go_rem a b \<noteq> 0 then go_quot a b - 1 else go_quot a b) = a div b"
proof (cases "a < 0")
  case False
  with assms show ?thesis by (simp add: go_quot_nonneg)
next
  case True
  then have q: "go_quot a b = (if b dvd a then a div b else a div b + 1)"
    using assms by (simp only: go_quot_neg neg_div_ceil)
  show ?thesis
  proof (cases "b dvd a")
    case dvd: True
    with q show ?thesis by (simp add: go_rem_def)
  next
    case False
    then have "b * go_quot a b \<noteq> a" by (metis dvd_triv_left)
    with False True q show ?thesis by (simp add: go_rem_def)
  qed
qed

subsection \<open>Ceiling division\<close>

lemma ceil_div_alt:
  fixes p d :: int
  assumes "0 < d"
  shows "(if p mod d = 0 then p div d else p div d + 1) = - ((- p) div d)"
  using assms by (simp add: neg_div_ceil mod_eq_0_iff_dvd)

lemma div_lt_when:
  fixes x a b :: int
  assumes "x < a * b" and "0 < b"
  shows "x div b < a"
proof (rule ccontr)
  assume "\<not> x div b < a"
  then have "a * b \<le> x div b * b" using assms(2) by (intro mult_right_mono) simp_all
  moreover have "x div b * b + x mod b = x" by simp
  moreover have "0 \<le> x mod b" using assms(2) by simp
  ultimately show False using assms(1) by linarith
qed

lemma ceil_div_le_iff:
  fixes p d q :: int
  assumes "0 < d"
  shows "- ((- p) div d) \<le> q \<longleftrightarrow> p \<le> q * d"
proof -
  have m: "(- p) div d * d + (- p) mod d = - p" by simp
  have b: "0 \<le> (- p) mod d" "(- p) mod d < d" using assms by simp_all
  show ?thesis
  proof
    assume "- ((- p) div d) \<le> q"
    then have "- q * d \<le> (- p) div d * d" using assms by (intro mult_right_mono) simp_all
    with m b show "p \<le> q * d" by linarith
  next
    assume "p \<le> q * d"
    then have "- q * d \<le> - p" by simp
    then have "(- q * d) div d \<le> (- p) div d" using assms by (intro zdiv_mono1) simp_all
    moreover have "(- q * d) div d = - q" using assms by (intro nonzero_mult_div_cancel_right) simp
    ultimately show "- ((- p) div d) \<le> q" by linarith
  qed
qed


subsection \<open>Arbitrary-precision integers of the standard library\<close>

text \<open>
  \<open>big.Int\<close> division is Euclidean and panics on a zero divisor, which is the value
  \<open>None\<close> here.
\<close>

definition big_div :: "int \<Rightarrow> int \<Rightarrow> int option" where
  "big_div a d = (if d = 0 then None else Some (if 0 < d then a div d else - (a div (- d))))"

definition big_mod :: "int \<Rightarrow> int \<Rightarrow> int option" where
  "big_mod a d = (if d = 0 then None else Some (a mod \<bar>d\<bar>))"

lemma big_div_pos [simp]: "0 < d \<Longrightarrow> big_div a d = Some (a div d)"
  by (simp add: big_div_def)

lemma big_mod_pos [simp]: "0 < d \<Longrightarrow> big_mod a d = Some (a mod d)"
  by (simp add: big_mod_def)

lemma big_div_zero [simp]: "big_div a 0 = None"
  by (simp add: big_div_def)

lemma big_mod_zero [simp]: "big_mod a 0 = None"
  by (simp add: big_mod_def)

subsection \<open>256-bit words read as integers\<close>

text \<open>
  The remainder of the uint256 library is 0 for a zero divisor, where \<open>mod\<close> on words returns
  the dividend; its quotient by zero is 0, as \<open>div\<close> is.
\<close>

definition u256_mod :: "u256 \<Rightarrow> u256 \<Rightarrow> u256" where
  "u256_mod a b = (if b = 0 then 0 else a mod b)"

definition mul_overflows :: "u256 \<Rightarrow> u256 \<Rightarrow> bool" where
  "mul_overflows a b = (2 ^ 256 \<le> uint a * uint b)"

lemma uint_lt_256: "uint (a :: u256) < 2 ^ 256"
  using uint_bounded [of a] by simp

lemma uint_plus_256:
  "uint a + uint b < 2 ^ 256 \<Longrightarrow> uint (a + b :: u256) = uint a + uint b"
  by (simp add: uint_word_ariths)

lemma uint_minus_256:
  "uint b \<le> uint a \<Longrightarrow> uint (a - b :: u256) = uint a - uint b"
  using uint_sub_lem [of b a] by simp

lemma uint_times_256:
  "uint a * uint b < 2 ^ 256 \<Longrightarrow> uint (a * b :: u256) = uint a * uint b"
  by (simp add: uint_word_ariths)

lemma uint_times_256_mod: "uint (a * b :: u256) = uint a * uint b mod 2 ^ 256"
  by (simp add: uint_word_ariths)

lemma uint_drop_bit_256: "uint (drop_bit n (a :: u256)) = uint a div 2 ^ n"
proof -
  have "take_bit 256 (uint a) = uint a"
    using uint_lt_256 [of a] by (simp add: take_bit_int_eq_self)
  then show ?thesis
    by (simp only: unsigned_drop_bit_eq drop_bit_eq_div [of n "uint a"] len_num1 len_num0 len_bit0
      Suc_1 numeral_class.numeral.simps) (simp add: drop_bit_eq_div)
qed

lemma uint_push_bit_256:
  "uint a * 2 ^ n < 2 ^ 256 \<Longrightarrow> uint (push_bit n (a :: u256)) = uint a * 2 ^ n"
  using unsigned_push_bit_eq [of n a, where ?'a = int]
  by (simp add: push_bit_eq_mult take_bit_int_eq_self)

lemma uint_mod_256: "b \<noteq> 0 \<Longrightarrow> uint (u256_mod a b) = uint a mod uint b"
  by (simp add: u256_mod_def uint_mod_distrib)

lemma uint_pos_iff: "0 < uint (a :: 'a::len word) \<longleftrightarrow> a \<noteq> 0"
  using uint_ge_0 [of a] by (auto simp: less_le uint_0_iff)

lemma word_eq_iff_uint: "a = b \<longleftrightarrow> uint a = uint (b :: 'a::len word)"
  by (simp add: word_uint_eq_iff)

lemmas u256_read = uint_plus_256 uint_minus_256 uint_times_256 uint_drop_bit_256
  uint_push_bit_256 uint_mod_256 uint_div_distrib

subsection \<open>Bytes\<close>

text \<open>
  A storage word is 32 bytes, most significant first.  \<open>hash_slice w i j\<close> is the number in the
  bytes \<open>i .. j - 1\<close> of the word \<open>w\<close>, which Go reads with \<open>SetBytes(data[i:j])\<close>; \<open>be_word\<close> is
  the number in a byte list and \<open>be_bytes n\<close> the \<open>n\<close>-byte encoding of a number.
\<close>

definition hash_slice :: "hash \<Rightarrow> nat \<Rightarrow> nat \<Rightarrow> u256" where
  "hash_slice w i j = drop_bit (8 * (32 - j)) (take_bit (8 * (32 - i)) w)"

definition be_int :: "byte list \<Rightarrow> int" where
  "be_int bs = foldl (\<lambda>n b. n * 256 + uint b) 0 bs"

definition be_word :: "byte list \<Rightarrow> u256" where
  "be_word bs = word_of_int (be_int bs)"

fun be_bytes :: "nat \<Rightarrow> int \<Rightarrow> byte list" where
  "be_bytes 0 n = []"
| "be_bytes (Suc k) n = be_bytes k (n div 256) @ [word_of_int n]"

lemma length_be_bytes [simp]: "length (be_bytes k n) = k"
  by (induction k arbitrary: n) simp_all

lemma be_int_append [simp]: "be_int (bs @ [b]) = be_int bs * 256 + uint b"
  by (simp add: be_int_def)

lemma be_int_Cons: "be_int (b # bs) = uint b * 256 ^ length bs + be_int bs"
proof (induction bs rule: rev_induct)
  case (snoc c bs)
  then show ?case by (simp add: algebra_simps flip: append_Cons)
qed (simp add: be_int_def)

lemma be_int_bytes: "0 \<le> n \<Longrightarrow> be_int (be_bytes k n) = n mod 256 ^ k"
proof (induction k arbitrary: n)
  case 0
  then show ?case by (simp add: be_int_def)
next
  case (Suc k)
  have "uint (word_of_int n :: byte) = n mod 256"
    by (simp add: unsigned_of_int take_bit_eq_mod)
  with Suc show ?case
    by (simp add: pos_imp_zdiv_nonneg_iff mult.commute zmod_zmult2_eq)
qed

lemma be_bytes_inj:
  assumes "0 \<le> m" "m < 256 ^ k" "0 \<le> n" "n < 256 ^ k"
  shows "be_bytes k m = be_bytes k n \<longleftrightarrow> m = n"
  using assms by (metis be_int_bytes mod_pos_pos_trivial)

lemma be_bytes_append: "be_bytes (j + k) n = be_bytes j (n div 256 ^ k) @ be_bytes k n"
proof (induction k arbitrary: n)
  case 0
  then show ?case by simp
next
  case (Suc k)
  have "n div 256 div 256 ^ k = n div 256 ^ Suc k"
    using zdiv_zmult2_eq [of "256 ^ k" n 256] by (simp add: mult.commute)
  with Suc [of "n div 256"] show ?case by simp
qed

lemma be_bytes_cong: "n mod 256 ^ k = m mod 256 ^ k \<Longrightarrow> be_bytes k n = be_bytes k m"
proof (induction k arbitrary: n m)
  case 0
  then show ?case by simp
next
  case (Suc k)
  have split: "x mod 256 ^ Suc k = 256 * (x div 256 mod 256 ^ k) + x mod 256" for x :: int
    using zmod_zmult2_eq [of "256 ^ k" x 256] by (simp add: mult.commute)
  have "n mod 256 = m mod 256"
    using arg_cong [OF Suc.prems, of "\<lambda>x. x mod 256"] unfolding split by simp
  moreover from this have "n div 256 mod 256 ^ k = m div 256 mod 256 ^ k"
    using Suc.prems unfolding split by simp
  moreover have "(word_of_int n :: byte) = word_of_int m" if "n mod 256 = m mod 256"
    using that by (simp add: word_of_int_eq_iff take_bit_eq_mod)
  ultimately show ?case using Suc.IH [of "n div 256" "m div 256"] by simp
qed

lemma be_bytes_Cons: "be_bytes (Suc k) n = word_of_int (n div 256 ^ k) # be_bytes k n"
  using be_bytes_append [of 1 k n] by simp

lemma be_bytes_map: "be_bytes k n = map (\<lambda>i. word_of_int (n div 256 ^ i)) (rev [0..<k])"
  by (induction k) (simp_all add: be_bytes_Cons del: be_bytes.simps(2))

lemma be_bytes_const: "be_bytes k 0 = replicate k 0" "be_bytes k (- 1) = replicate k (- 1)"
  by (induction k) (simp_all add: replicate_append_same)

lemma hash_slice_bound:
  assumes "i \<le> j" and "j \<le> 32"
  shows "uint (hash_slice w i j) < 2 ^ (8 * (j - i))"
proof -
  have "uint (take_bit (8 * (32 - i)) w) = uint w mod 2 ^ (8 * (32 - i))"
    by (simp add: unsigned_take_bit_eq take_bit_eq_mod [where ?'a = int])
  then have "uint (hash_slice w i j) = uint w mod 2 ^ (8 * (32 - i)) div 2 ^ (8 * (32 - j))"
    by (simp add: hash_slice_def uint_drop_bit_256)
  also have "\<dots> < 2 ^ (8 * (j - i))"
  proof (rule div_lt_when)
    have "(2 :: int) ^ (8 * (32 - i)) = 2 ^ (8 * (j - i)) * 2 ^ (8 * (32 - j))"
      using assms by (simp flip: power_add add: algebra_simps)
    then show "uint w mod 2 ^ (8 * (32 - i)) < 2 ^ (8 * (j - i)) * 2 ^ (8 * (32 - j))"
      by (metis pos_mod_bound zero_less_numeral zero_less_power)
  qed simp
  finally show ?thesis .
qed

subsection \<open>Loops that may panic\<close>

text \<open>A \<open>for range\<close> loop over a list whose body may panic (\<open>None\<close>).\<close>

fun foldo :: "('a \<Rightarrow> 's \<Rightarrow> 's option) \<Rightarrow> 'a list \<Rightarrow> 's \<Rightarrow> 's option" where
  "foldo f [] s = Some s"
| "foldo f (x # xs) s = do { s' \<leftarrow> f x s; foldo f xs s' }"

lemma foldo_inv:
  assumes "foldo f xs s = Some s'" and "P s"
    and "\<And>x s s'. x \<in> set xs \<Longrightarrow> P s \<Longrightarrow> f x s = Some s' \<Longrightarrow> P s'"
  shows "P s'"
  using assms
proof (induction xs arbitrary: s)
  case (Cons x xs)
  from Cons.prems(1) obtain t where "f x s = Some t" "foldo f xs t = Some s'" by (auto simp: bind_eq_Some_conv)
  then show ?case using Cons.prems(2,3) Cons.IH [of t] by (meson list.set_intros)
qed simp

lemma foldo_total:
  assumes "P s" and "\<And>x s. x \<in> set xs \<Longrightarrow> P s \<Longrightarrow> \<exists>s'. f x s = Some s' \<and> P s'"
  shows "\<exists>s'. foldo f xs s = Some s' \<and> P s'"
  using assms
proof (induction xs arbitrary: s)
  case (Cons x xs)
  then obtain t where "f x s = Some t" "P t" by (meson list.set_intros(1))
  then show ?case using Cons.IH [of t] Cons.prems(2) by simp
qed simp

lemma foldo_append: "foldo f (xs @ ys) s = do { s' \<leftarrow> foldo f xs s; foldo f ys s' }"
  by (induction xs arbitrary: s) (auto split: Option.bind_splits)

end
