(* ===== verification/Shared_Math.thy ===== *)
theory Shared_Math
  imports Go_Prelude
begin

text \<open>
  Models \<open>formulas/shared.go\<close> and the first half of \<open>formulas/shared_u256.go\<close>: the tick table of
  concentrated-liquidity pools, the 512-bit multiply-and-divide helpers with their two rounding
  modes, and the token amounts and next prices of a price move.  Every routine exists twice in the
  code, over \<open>big.Int\<close> (here \<open>int\<close>, a panic being \<open>None\<close>) and over \<open>uint256.Int\<close> (here 256-bit
  words); the lemmas show when the fast word version computes the same number.
\<close>

subsection \<open>The multiply-and-divide routine of the uint256 library\<close>

text \<open>
  \<open>MulDivOverflow\<close> belongs to the uint256 library.  The formulas rely on its documented result: the
  exact quotient of the 512-bit product whenever it fits in 256 bits.
\<close>

locale muldiv_lib =
  fixes md :: "u256 \<Rightarrow> u256 \<Rightarrow> u256 \<Rightarrow> u256"
  assumes muldiv_exact:
    "d \<noteq> 0 \<Longrightarrow> uint a * uint b div uint d < 2 ^ 256
      \<Longrightarrow> uint (md a b d) = uint a * uint b div uint d"

definition muldiv_full :: "u256 \<Rightarrow> u256 \<Rightarrow> u256 \<Rightarrow> u256" where
  "muldiv_full a b d = word_of_int (uint a * uint b div uint d)"

lemma uint_word_of_int_256: "0 \<le> k \<Longrightarrow> k < 2 ^ 256 \<Longrightarrow> uint (word_of_int k :: u256) = k"
  by (simp add: unsigned_of_int take_bit_int_eq_self)

interpretation full: muldiv_lib muldiv_full
  by unfold_locales (simp add: muldiv_full_def uint_word_of_int_256 pos_imp_zdiv_nonneg_iff
    uint_pos_iff)

subsection \<open>Square-root price of a tick\<close>

definition maxUint256 :: int where
  "maxUint256 = 2 ^ 256 - 1"

definition sqrt_magics :: "(int \<times> int) list" where
  "sqrt_magics = [
    (0x2, 0xfff97272373d413259a46990580e213a), (0x4, 0xfff2e50f5f656932ef12357cf3c7fdcc),
    (0x8, 0xffe5caca7e10e4e61c3624eaa0941cd0), (0x10, 0xffcb9843d60f6159c9db58835c926644),
    (0x20, 0xff973b41fa98c081472e6896dfb254c0), (0x40, 0xff2ea16466c96a3843ec78b326b52861),
    (0x80, 0xfe5dee046a99a2a811c461f1969c3053), (0x100, 0xfcbe86c7900a88aedcffc83b479aa3a4),
    (0x200, 0xf987a7253ac413176f2b074cf7815e54), (0x400, 0xf3392b0822b70005940c7a398e4b70f3),
    (0x800, 0xe7159475a2c29b7443b29c7fa6e889d9), (0x1000, 0xd097f3bdfd2022b8845ad8f792aa5825),
    (0x2000, 0xa9f746462d870fdf8a65dc1f90e061e5), (0x4000, 0x70d869a156d2a1b890bb3df62baf32f7),
    (0x8000, 0x31be135f97d08fd981231505542fcfa6), (0x10000, 0x9aa508b5b7a84e1c677de54f3e99bc9),
    (0x20000, 0x5d6af8dedb81196699c329225ee604), (0x40000, 0x2216e584f5fa1ea926041bedfe98),
    (0x80000, 0x48a170391f7dc42444e8fa2)]"

definition magic_step :: "int \<Rightarrow> int \<Rightarrow> int \<times> int \<Rightarrow> int" where
  "magic_step absTick ratio m =
     (if absTick AND fst m \<noteq> 0 then drop_bit 128 (ratio * snd m) else ratio)"

definition abs_tick :: "int \<Rightarrow> int" where
  "abs_tick tick = (if tick < 0 then to_int32 (- tick) else tick)"

definition tick_ratio :: "int \<Rightarrow> int" where
  "tick_ratio absTick =
     foldl (magic_step absTick)
       (if absTick AND 1 \<noteq> 0 then 0xfffcb933bd6fad37aa2d162d1a594001 else push_bit 128 1)
       sqrt_magics"

definition getSqrtRatioAtTick :: "int \<Rightarrow> int option" where
  "getSqrtRatioAtTick tick =
     do {
       ratio \<leftarrow> (if 0 < tick then big_div maxUint256 (tick_ratio (abs_tick tick))
                 else Some (tick_ratio (abs_tick tick)));
       rem \<leftarrow> big_mod ratio (push_bit 32 1);
       let result = drop_bit 32 ratio;
       Some (if sgn rem \<noteq> 0 then result + 1 else result)
     }"

definition tickMagicsU256 :: "u256 list" where
  "tickMagicsU256 = [
    0xfffcb933bd6fad37aa2d162d1a594001, 0xfff97272373d413259a46990580e213a,
    0xfff2e50f5f656932ef12357cf3c7fdcc, 0xffe5caca7e10e4e61c3624eaa0941cd0,
    0xffcb9843d60f6159c9db58835c926644, 0xff973b41fa98c081472e6896dfb254c0,
    0xff2ea16466c96a3843ec78b326b52861, 0xfe5dee046a99a2a811c461f1969c3053,
    0xfcbe86c7900a88aedcffc83b479aa3a4, 0xf987a7253ac413176f2b074cf7815e54,
    0xf3392b0822b70005940c7a398e4b70f3, 0xe7159475a2c29b7443b29c7fa6e889d9,
    0xd097f3bdfd2022b8845ad8f792aa5825, 0xa9f746462d870fdf8a65dc1f90e061e5,
    0x70d869a156d2a1b890bb3df62baf32f7, 0x31be135f97d08fd981231505542fcfa6,
    0x9aa508b5b7a84e1c677de54f3e99bc9, 0x5d6af8dedb81196699c329225ee604,
    0x2216e584f5fa1ea926041bedfe98, 0x48a170391f7dc42444e8fa2]"

definition tick_bits :: "int list" where
  "tick_bits = [0x1, 0x2, 0x4, 0x8, 0x10, 0x20, 0x40, 0x80,
    0x100, 0x200, 0x400, 0x800, 0x1000, 0x2000, 0x4000, 0x8000,
    0x10000, 0x20000, 0x40000, 0x80000]"

definition magic_step_u256 :: "int \<Rightarrow> u256 \<Rightarrow> nat \<Rightarrow> u256" where
  "magic_step_u256 absTick ratio i =
     (if absTick AND tick_bits ! i \<noteq> 0 then drop_bit 128 (ratio * tickMagicsU256 ! i) else ratio)"

definition tick_ratio_u256 :: "int \<Rightarrow> u256" where
  "tick_ratio_u256 absTick =
     foldl (magic_step_u256 absTick)
       (if absTick AND 1 \<noteq> 0 then tickMagicsU256 ! 0 else push_bit 128 1) [1..<20]"

definition u256MaxU :: u256 where
  "u256MaxU = push_bit 256 1 - 1"

definition getSqrtRatioAtTickU256Compute :: "int \<Rightarrow> u256" where
  "getSqrtRatioAtTickU256Compute tick =
     (let ratio = (if 0 < tick then u256MaxU div tick_ratio_u256 (abs_tick tick)
                   else tick_ratio_u256 (abs_tick tick));
          rem = ratio AND 0xFFFFFFFF;
          result = drop_bit 32 ratio
      in if rem \<noteq> 0 then result + 1 else result)"

type_synonym sqrt_cache = "int \<rightharpoonup> u256"

definition getSqrtRatioAtTickU256 :: "sqrt_cache \<Rightarrow> int \<Rightarrow> u256 \<times> sqrt_cache" where
  "getSqrtRatioAtTickU256 cache tick =
     (case cache tick of
        Some cached \<Rightarrow> (cached, cache)
      | None \<Rightarrow> (let result = getSqrtRatioAtTickU256Compute tick
                in (result, cache(tick \<mapsto> result))))"

subsection \<open>Tick of a square-root price\<close>

definition u256ToInt32 :: "u256 \<Rightarrow> int" where
  "u256ToInt32 v =
     (if v = 0 then 0
      else if bit v 255 then to_int32 (- to_int32 (uint (u256MaxU - v + 1) mod 2 ^ 64))
      else to_int32 (uint v mod 2 ^ 64))"

definition msb_step :: "u256 \<times> nat \<Rightarrow> nat \<Rightarrow> u256 \<times> nat" where
  "msb_step s e =
     (case s of (ratio, msb) \<Rightarrow>
        if \<not> ratio < push_bit e 1 then (drop_bit e ratio, msb + e) else (ratio, msb))"

definition tick_msb :: "u256 \<Rightarrow> nat" where
  "tick_msb sqrtPriceX96 = snd (foldl msb_step (sqrtPriceX96, 0) [128, 64, 32, 16, 8, 4, 2, 1])"

definition log2_step :: "u256 \<times> u256 \<Rightarrow> nat \<Rightarrow> u256 \<times> u256" where
  "log2_step s i =
     (case s of (ratio, log2) \<Rightarrow>
        let ratio1 = drop_bit 127 (ratio * ratio);
            f = drop_bit 128 ratio1;
            log2' = log2 OR push_bit i f
        in (drop_bit (unat (take_bit 64 f)) ratio1, log2'))"

definition tick_log :: "u256 \<Rightarrow> u256" where
  "tick_log sqrtPriceX96 =
     (let msb = tick_msb sqrtPriceX96;
          ratio = (if 128 \<le> msb then drop_bit (msb - 127) sqrtPriceX96
                   else push_bit (127 - msb) sqrtPriceX96);
          log2 = (if 128 \<le> msb then push_bit 64 (of_nat (msb - 128))
                  else push_bit 64 (u256MaxU - of_nat (128 - msb) + 1))
      in snd (foldl log2_step (ratio, log2) (rev [50..<64])) * 255738958999603826347141)"

definition getTickAtSqrtRatioU256 :: "sqrt_cache \<Rightarrow> u256 \<Rightarrow> int \<times> sqrt_cache" where
  "getTickAtSqrtRatioU256 cache sqrtPriceX96 =
     (let logSqrt10001 = tick_log sqrtPriceX96;
          tl = u256ToInt32 (drop_bit 128 (logSqrt10001 - 3402992956809132418596140100660247210));
          th = u256ToInt32 (drop_bit 128 (logSqrt10001 + 291339464771989622907027621153398088495))
      in if tl = th then (tl, cache)
         else (case getSqrtRatioAtTickU256 cache th of (sqrtAtTh, cache') \<Rightarrow>
                 if \<not> sqrtPriceX96 < sqrtAtTh then (th, cache') else (tl, cache')))"

subsection \<open>Multiply-and-divide helpers\<close>

definition mulDiv :: "int \<Rightarrow> int \<Rightarrow> int \<Rightarrow> int option" where
  "mulDiv a b denominator = big_div (a * b) denominator"

definition mulDivRoundingUp :: "int \<Rightarrow> int \<Rightarrow> int \<Rightarrow> int option" where
  "mulDivRoundingUp a b denominator =
     do {
       let product = a * b;
       result \<leftarrow> big_div product denominator;
       m \<leftarrow> big_mod product denominator;
       Some (if 0 < sgn m then result + 1 else result)
     }"

definition unsafeDivRoundingUp :: "int \<Rightarrow> int \<Rightarrow> int option" where
  "unsafeDivRoundingUp a b =
     do {
       result \<leftarrow> big_div a b;
       m \<leftarrow> big_mod a b;
       Some (if sgn m \<noteq> 0 then result + 1 else result)
     }"

definition mulDivU256 :: "(u256 \<Rightarrow> u256 \<Rightarrow> u256 \<Rightarrow> u256) \<Rightarrow> u256 \<Rightarrow> u256 \<Rightarrow> u256 \<Rightarrow> u256" where
  "mulDivU256 md a b denom = md a b denom"

definition mulDivRoundingUpU256 ::
  "(u256 \<Rightarrow> u256 \<Rightarrow> u256 \<Rightarrow> u256) \<Rightarrow> u256 \<Rightarrow> u256 \<Rightarrow> u256 \<Rightarrow> u256" where
  "mulDivRoundingUpU256 md a b denom =
     (let result = mulDivU256 md a b denom;
          product = a * b;
          rem = u256_mod product denom
      in if rem \<noteq> 0 then result + 1 else result)"

definition unsafeDivRoundingUpU256 :: "u256 \<Rightarrow> u256 \<Rightarrow> u256" where
  "unsafeDivRoundingUpU256 a denom =
     (let result = a div denom;
          rem = u256_mod a denom
      in if rem \<noteq> 0 then result + 1 else result)"

subsection \<open>Token amounts and next prices of a price move\<close>

definition sGetNextSqrtPriceFromInput :: "int \<Rightarrow> int \<Rightarrow> int \<Rightarrow> bool \<Rightarrow> int option" where
  "sGetNextSqrtPriceFromInput sqrtPX96 liquidity amountIn zeroForOne =
     (if zeroForOne then
        (if sgn amountIn = 0 then Some sqrtPX96
         else let n1 = push_bit 96 liquidity;
                  prod = amountIn * sqrtPX96;
                  denom = n1 + prod
              in mulDivRoundingUp n1 sqrtPX96 denom)
      else do {
        quotient \<leftarrow> mulDiv amountIn (push_bit 96 1) liquidity;
        Some (sqrtPX96 + quotient)
      })"

definition sGetAmount0Delta :: "int \<Rightarrow> int \<Rightarrow> int \<Rightarrow> bool \<Rightarrow> int option" where
  "sGetAmount0Delta sqrtRatioAX96 sqrtRatioBX96 liquidity roundUp =
     (let (a, b) = (if sqrtRatioBX96 < sqrtRatioAX96 then (sqrtRatioBX96, sqrtRatioAX96)
                    else (sqrtRatioAX96, sqrtRatioBX96));
          n1 = push_bit 96 liquidity;
          n2 = b - a
      in if roundUp then do { inner \<leftarrow> mulDivRoundingUp n1 n2 b; unsafeDivRoundingUp inner a }
         else do { inner \<leftarrow> mulDiv n1 n2 b; big_div inner a })"

definition sGetAmount1Delta :: "int \<Rightarrow> int \<Rightarrow> int \<Rightarrow> bool \<Rightarrow> int option" where
  "sGetAmount1Delta sqrtRatioAX96 sqrtRatioBX96 liquidity roundUp =
     (let (a, b) = (if sqrtRatioBX96 < sqrtRatioAX96 then (sqrtRatioBX96, sqrtRatioAX96)
                    else (sqrtRatioAX96, sqrtRatioBX96));
          q96 = push_bit 96 1;
          diff = b - a
      in if roundUp then mulDivRoundingUp liquidity diff q96
         else mulDiv liquidity diff q96)"

definition u256Q96 :: u256 where
  "u256Q96 = push_bit 96 1"

definition sGetAmount0DeltaU256 ::
  "(u256 \<Rightarrow> u256 \<Rightarrow> u256 \<Rightarrow> u256) \<Rightarrow> u256 \<Rightarrow> u256 \<Rightarrow> u256 \<Rightarrow> bool \<Rightarrow> u256" where
  "sGetAmount0DeltaU256 md sqrtRatioAX96 sqrtRatioBX96 liquidity roundUp =
     (let (a, b) = (if sqrtRatioBX96 < sqrtRatioAX96 then (sqrtRatioBX96, sqrtRatioAX96)
                    else (sqrtRatioAX96, sqrtRatioBX96));
          n1 = push_bit 96 liquidity;
          n2 = b - a
      in if roundUp then
           (let inner = mulDivRoundingUpU256 md n1 n2 b in unsafeDivRoundingUpU256 inner a)
         else
           (let inner = mulDivU256 md n1 n2 b in inner div a))"

definition sGetAmount1DeltaU256 ::
  "(u256 \<Rightarrow> u256 \<Rightarrow> u256 \<Rightarrow> u256) \<Rightarrow> u256 \<Rightarrow> u256 \<Rightarrow> u256 \<Rightarrow> bool \<Rightarrow> u256" where
  "sGetAmount1DeltaU256 md sqrtRatioAX96 sqrtRatioBX96 liquidity roundUp =
     (let (a, b) = (if sqrtRatioBX96 < sqrtRatioAX96 then (sqrtRatioBX96, sqrtRatioAX96)
                    else (sqrtRatioAX96, sqrtRatioBX96));
          diff = b - a
      in if roundUp then mulDivRoundingUpU256 md liquidity diff u256Q96
         else mulDivU256 md liquidity diff u256Q96)"

definition sGetNextSqrtPriceFromInputU256 ::
  "(u256 \<Rightarrow> u256 \<Rightarrow> u256 \<Rightarrow> u256) \<Rightarrow> u256 \<Rightarrow> u256 \<Rightarrow> u256 \<Rightarrow> bool \<Rightarrow> u256" where
  "sGetNextSqrtPriceFromInputU256 md sqrtPX96 liquidity amountIn zeroForOne =
     (if zeroForOne then
        (if amountIn = 0 then sqrtPX96
         else let n1 = push_bit 96 liquidity;
                  prod = amountIn * sqrtPX96;
                  denom = n1 + prod
              in mulDivRoundingUpU256 md n1 sqrtPX96 denom)
      else let quotient = mulDivU256 md amountIn u256Q96 liquidity
           in sqrtPX96 + quotient)"

subsection \<open>The word helpers against exact rounding\<close>

text \<open>
  \<open>ceil_div\<close> is the abstract specification of rounding up; the helpers are measured against it.
\<close>

definition ceil_div :: "int \<Rightarrow> int \<Rightarrow> int" where
  "ceil_div p d = - ((- p) div d)"

lemma mulDivRoundingUp_ceil:
  assumes "0 < d"
  shows "mulDivRoundingUp a b d = Some (ceil_div (a * b) d)"
proof -
  have "0 < sgn (a * b mod d) \<longleftrightarrow> a * b mod d \<noteq> 0"
    using assms by (simp add: sgn_if) (metis less_le pos_mod_sign)
  then show ?thesis
    using assms by (simp add: mulDivRoundingUp_def ceil_div_def flip: ceil_div_alt)
qed

lemma unsafeDivRoundingUp_ceil:
  "0 < d \<Longrightarrow> unsafeDivRoundingUp a d = Some (ceil_div a d)"
  by (simp add: unsafeDivRoundingUp_def ceil_div_def sgn_if flip: ceil_div_alt)

lemma ceil_div_le_iff': "0 < d \<Longrightarrow> ceil_div p d \<le> q \<longleftrightarrow> p \<le> q * d"
  by (simp add: ceil_div_def ceil_div_le_iff)

lemma ceil_div_nonneg: "0 \<le> p \<Longrightarrow> 0 < d \<Longrightarrow> 0 \<le> ceil_div p d"
  using zdiv_mono1 [of "- p" 0 d] by (simp add: ceil_div_def)

lemma ceil_div_bounds:
  assumes "0 < d"
  shows "p div d \<le> ceil_div p d" and "ceil_div p d \<le> p div d + 1"
  using assms by (auto simp: ceil_div_def neg_div_ceil)

lemma unsafeDivRoundingUpU256_uint:
  assumes "d \<noteq> 0"
  shows "uint (unsafeDivRoundingUpU256 a d) = ceil_div (uint a) (uint d)"
proof -
  have d: "0 < uint d" using assms by (simp add: uint_pos_iff)
  have rem: "u256_mod a d \<noteq> 0 \<longleftrightarrow> uint a mod uint d \<noteq> 0"
    using assms by (simp add: u256_mod_def word_eq_iff_uint uint_mod_distrib)
  show ?thesis
  proof (cases "uint a mod uint d = 0")
    case True
    with rem d show ?thesis
      by (simp add: unsafeDivRoundingUpU256_def ceil_div_def uint_div_distrib flip: ceil_div_alt)
  next
    case False
    have "uint d \<noteq> 1" using False by auto
    then have "uint a div uint d * 2 \<le> uint a div uint d * uint d"
      using d by (intro mult_left_mono) (auto simp: pos_imp_zdiv_nonneg_iff)
    also have "\<dots> \<le> uint a" 
      using minus_mod_eq_div_mult [of "uint a" "uint d"] pos_mod_sign [OF d, of "uint a"] by linarith
    finally have "uint a div uint d + 1 < 2 ^ 256"
      using uint_lt_256 [of a] one_less_power [of "2::int" 256] by linarith
    with False rem d show ?thesis
      by (simp add: unsafeDivRoundingUpU256_def ceil_div_def uint_div_distrib uint_plus_256
        flip: ceil_div_alt)
  qed
qed

text \<open>
  Rounding up over words takes its remainder from the wrapped product, so its result is the
  ceiling exactly when the wrapped and the exact product agree on divisibility.  Denominators that
  divide \<open>2 ^ 256\<close>, such as the \<open>Q96\<close> of the second token's amount, always agree.
\<close>

lemma wrapped_rem_iff:
  assumes "d \<noteq> 0"
  shows "u256_mod (a * b) d \<noteq> 0 \<longleftrightarrow> \<not> uint d dvd uint a * uint b mod 2 ^ 256"
  using assms
  by (simp add: u256_mod_def word_eq_iff_uint uint_mod_distrib uint_times_256_mod mod_eq_0_iff_dvd
    del: power_numeral)

lemma mulDivRoundingUpU256_uint:
  assumes "muldiv_lib md" and "d \<noteq> 0" and "ceil_div (uint a * uint b) (uint d) < 2 ^ 256"
    and "uint a * uint b div uint d + 1 < 2 ^ 256
         \<or> (uint d dvd uint a * uint b \<longleftrightarrow> uint d dvd uint a * uint b mod 2 ^ 256)"
  shows "uint (mulDivRoundingUpU256 md a b d) =
    uint a * uint b div uint d + (if uint d dvd uint a * uint b mod 2 ^ 256 then 0 else 1)"
proof -
  have d: "0 < uint d" using assms by (simp add: uint_pos_iff)
  have q: "uint (md a b d) = uint a * uint b div uint d"
    using assms(2,3) ceil_div_bounds(1) [OF d, of "uint a * uint b"]
    by (intro muldiv_lib.muldiv_exact [OF assms(1)]) linarith+
  have fits: "uint a * uint b div uint d + 1 < 2 ^ 256"
    if "\<not> uint d dvd uint a * uint b mod 2 ^ 256"
    using assms(3,4) that d by (auto simp: ceil_div_def neg_div_ceil)
  show ?thesis
  proof (cases "uint d dvd uint a * uint b mod 2 ^ 256")
    case True
    then show ?thesis
      using wrapped_rem_iff [OF assms(2), of a b] q
      by (simp add: mulDivRoundingUpU256_def mulDivU256_def)
  next
    case False
    then show ?thesis
      using wrapped_rem_iff [OF assms(2), of a b] q fits
      by (simp add: mulDivRoundingUpU256_def mulDivU256_def uint_plus_256)
  qed
qed

lemma mulDivRoundingUpU256_ceil:
  assumes "muldiv_lib md" and "d \<noteq> 0" and "ceil_div (uint a * uint b) (uint d) < 2 ^ 256"
    and "uint d dvd uint a * uint b \<longleftrightarrow> uint d dvd uint a * uint b mod 2 ^ 256"
  shows "uint (mulDivRoundingUpU256 md a b d) = ceil_div (uint a * uint b) (uint d)"
proof -
  have "0 < uint d" using assms by (simp add: uint_pos_iff)
  then show ?thesis
    using assms mulDivRoundingUpU256_uint [of md d a b] by (auto simp: ceil_div_def neg_div_ceil)
qed

lemma dvd_mod_2p256:
  assumes "d dvd (2 :: int) ^ 256"
  shows "d dvd p mod 2 ^ 256 \<longleftrightarrow> d dvd p"
  using assms by (rule dvd_mod_iff)

lemma small_product_agrees:
  "uint a * uint b < 2 ^ 256 \<Longrightarrow> uint a * uint b mod 2 ^ 256 = uint (a :: u256) * uint (b :: u256)"
  by (intro mod_pos_pos_trivial) simp_all

lemma q96_uint: "uint u256Q96 = 2 ^ 96"
  by (simp add: u256Q96_def uint_push_bit_256)

lemma q96_nz: "u256Q96 \<noteq> 0"
  by (simp add: u256Q96_def push_bit_eq_mult)

lemma ceil_le_of_le:
  assumes "0 < d" and "p \<le> m * d" and "m < b"
  shows "ceil_div p d < b"
  using assms ceil_div_le_iff' [of d p m] by linarith

lemma sGetAmount1DeltaU256_refines:
  assumes "muldiv_lib md" and "uint l < 2 ^ 128" and "uint a < 2 ^ 160" and "uint b < 2 ^ 160"
  shows "sGetAmount1Delta (uint a) (uint b) (uint l) up
    = Some (uint (sGetAmount1DeltaU256 md a b l up))"
proof -
  define lo hi where "lo = (if b < a then b else a)" and "hi = (if b < a then a else b)"
  have le: "uint lo \<le> uint hi" and hi: "uint hi < 2 ^ 160"
    using assms(3,4) by (auto simp: lo_def hi_def word_less_def)
  have d: "uint (hi - lo) = uint hi - uint lo" using le by (rule uint_minus_256)
  have p: "uint l * (uint hi - uint lo) \<le> 2 ^ 128 * 2 ^ 160"
    using assms(2) hi le uint_ge_0 [of lo] by (intro mult_mono) (linarith | simp)+
  have dv: "(2::int) ^ 96 dvd 2 ^ 256" by (rule le_imp_power_dvd) simp
  have up_ok: "uint (mulDivRoundingUpU256 md l (hi - lo) u256Q96)
      = ceil_div (uint l * uint (hi - lo)) (2 ^ 96)"
    using mulDivRoundingUpU256_ceil [OF assms(1) q96_nz, of l "hi - lo"] p
      dvd_mod_2p256 [OF dv] ceil_le_of_le [of "2^96" "uint l * (uint hi - uint lo)" "2^192" "2^256"]
    by (simp add: q96_uint d)
  have dn_ok: "uint (mulDivU256 md l (hi - lo) u256Q96) = uint l * uint (hi - lo) div 2 ^ 96"
  proof -
    have "uint l * uint (hi - lo) div 2 ^ 96 \<le> (2 ^ 128 * 2 ^ 160) div 2 ^ 96"
      using p unfolding d by (intro zdiv_mono1) simp_all
    then show ?thesis
      unfolding mulDivU256_def q96_uint [symmetric]
      by (intro muldiv_lib.muldiv_exact [OF assms(1) q96_nz]) (simp add: q96_uint)
  qed
  have "sGetAmount1Delta (uint a) (uint b) (uint l) up = 
     (if up then mulDivRoundingUp (uint l) (uint hi - uint lo) (2 ^ 96)
      else mulDiv (uint l) (uint hi - uint lo) (2 ^ 96))"
    by (auto simp: sGetAmount1Delta_def lo_def hi_def word_less_def push_bit_eq_mult)
  moreover have "sGetAmount1DeltaU256 md a b l up = 
     (if up then mulDivRoundingUpU256 md l (hi - lo) u256Q96 else mulDivU256 md l (hi - lo) u256Q96)"
    by (auto simp: sGetAmount1DeltaU256_def lo_def hi_def)
  ultimately show ?thesis
    using up_ok dn_ok by (simp add: mulDivRoundingUp_ceil mulDiv_def d)
qed

lemma mulDivRoundingUpU256_near:
  assumes "muldiv_lib md" and "d \<noteq> 0" and "uint a * uint b div uint d + 1 < 2 ^ 256"
  shows "uint a * uint b div uint d \<le> uint (mulDivRoundingUpU256 md a b d)"
    and "uint (mulDivRoundingUpU256 md a b d) \<le> uint a * uint b div uint d + 1"
proof -
  have d: "0 < uint d" using assms by (simp add: uint_pos_iff)
  then have "ceil_div (uint a * uint b) (uint d) < 2 ^ 256"
    using ceil_div_bounds(2) [of "uint d" "uint a * uint b"] assms(3) by linarith
  then have "uint (mulDivRoundingUpU256 md a b d) = uint a * uint b div uint d
      + (if uint d dvd uint a * uint b mod 2 ^ 256 then 0 else 1)"
    using assms by (intro mulDivRoundingUpU256_uint) auto
  then show "uint a * uint b div uint d \<le> uint (mulDivRoundingUpU256 md a b d)"
    and "uint (mulDivRoundingUpU256 md a b d) \<le> uint a * uint b div uint d + 1"
    by auto
qed

lemma div_le_when: "0 < (d::int) \<Longrightarrow> p \<le> m * d \<Longrightarrow> p div d \<le> m"
  using zdiv_mono1 [of p "m * d" d] by simp

lemma shift96: "uint (l :: u256) < 2 ^ 128 \<Longrightarrow> uint (push_bit 96 l) = uint l * 2 ^ 96"
  by (intro uint_push_bit_256) simp

lemma sGetAmount0DeltaU256_refines:
  assumes "muldiv_lib md" and "uint l < 2 ^ 128" and "a \<noteq> 0" and "b \<noteq> 0"
    and "up \<Longrightarrow> uint l * \<bar>uint b - uint a\<bar> < 2 ^ 160"
  shows "sGetAmount0Delta (uint a) (uint b) (uint l) up
    = Some (uint (sGetAmount0DeltaU256 md a b l up))"
proof -
  define lo hi where "lo = (if b < a then b else a)" and "hi = (if b < a then a else b)"
  have le: "uint lo \<le> uint hi" and pos: "0 < uint lo" "0 < uint hi" and nz: "lo \<noteq> 0" "hi \<noteq> 0"
    using assms(3,4) by (auto simp: lo_def hi_def word_less_def uint_pos_iff)
  have ab: "\<bar>uint b - uint a\<bar> = uint hi - uint lo"
    by (auto simp: lo_def hi_def word_less_def)
  have d: "uint (hi - lo) = uint hi - uint lo" using le by (rule uint_minus_256)
  define n where "n = uint l * 2 ^ 96"
  have n: "0 \<le> n" "n < 2 ^ 224" using assms(2) by (simp_all add: n_def)
  have p: "n * (uint hi - uint lo) \<le> n * uint hi"
    using n le pos by (intro mult_left_mono) simp_all
  have q: "n * (uint hi - uint lo) div uint hi \<le> n" using div_le_when [OF pos(2) p] .
  have c: "ceil_div (n * (uint hi - uint lo)) (uint hi) \<le> n"
    using p pos by (simp add: ceil_div_le_iff')
  have up_ok: "uint (unsafeDivRoundingUpU256 (mulDivRoundingUpU256 md (push_bit 96 l) (hi - lo) hi) lo)
      = ceil_div (ceil_div (n * (uint hi - uint lo)) (uint hi)) (uint lo)" if up
  proof -
    have "n * (uint hi - uint lo) < 2 ^ 256"
      using assms(5) [OF that] unfolding ab n_def by (simp add: algebra_simps)
    then show ?thesis
      using mulDivRoundingUpU256_ceil [OF assms(1) nz(2), of "push_bit 96 l" "hi - lo"] c n
        small_product_agrees [of "push_bit 96 l" "hi - lo"]
      by (simp add: unsafeDivRoundingUpU256_uint nz shift96 [OF assms(2)] d n_def)
  qed
  have dn_ok: "uint (mulDivU256 md (push_bit 96 l) (hi - lo) hi div lo)
      = n * (uint hi - uint lo) div uint hi div uint lo"
    using muldiv_lib.muldiv_exact [OF assms(1) nz(2), of "push_bit 96 l" "hi - lo"] q n
    by (simp add: mulDivU256_def uint_div_distrib shift96 [OF assms(2)] d n_def)
  have "sGetAmount0Delta (uint a) (uint b) (uint l) up =
     (if up then Option.bind (mulDivRoundingUp n (uint hi - uint lo) (uint hi))
        (\<lambda>inner. unsafeDivRoundingUp inner (uint lo))
      else Option.bind (mulDiv n (uint hi - uint lo) (uint hi)) (\<lambda>inner. big_div inner (uint lo)))"
    by (auto simp: sGetAmount0Delta_def lo_def hi_def word_less_def push_bit_eq_mult n_def)
  moreover have "sGetAmount0DeltaU256 md a b l up = 
     (if up then unsafeDivRoundingUpU256 (mulDivRoundingUpU256 md (push_bit 96 l) (hi - lo) hi) lo
      else mulDivU256 md (push_bit 96 l) (hi - lo) hi div lo)"
    by (auto simp: sGetAmount0DeltaU256_def lo_def hi_def)
  ultimately show ?thesis
    using up_ok dn_ok pos by (simp add: mulDivRoundingUp_ceil unsafeDivRoundingUp_ceil mulDiv_def)
qed

subsection \<open>The tick table: bounds, refinement, endpoints\<close>

lemma magic_step_bounds:
  assumes "0 \<le> snd m" and "snd m \<le> 2 ^ 128" and "0 \<le> r"
  shows "drop_bit 128 (r * snd m) \<le> magic_step t r m" and "magic_step t r m \<le> r"
    and "0 \<le> magic_step t r m"
proof -
  have "r * snd m \<le> r * 2 ^ 128" using assms by (intro mult_left_mono) simp_all
  then have "drop_bit 128 (r * snd m) \<le> r"
    unfolding drop_bit_eq_div by (intro div_le_when) simp_all
  moreover have "0 \<le> drop_bit 128 (r * snd m)"
    using assms by simp
  ultimately show "drop_bit 128 (r * snd m) \<le> magic_step t r m" and "magic_step t r m \<le> r"
    and "0 \<le> magic_step t r m"
    using assms by (auto simp: magic_step_def)
qed

text \<open>Taking every factor gives the least ratio: the table never reaches zero.\<close>

lemma magic_fold_bounds:
  assumes "\<forall>m \<in> set ms. 0 \<le> snd m \<and> snd m \<le> 2 ^ 128" and "0 \<le> r0" and "r0 \<le> r"
  shows "foldl (\<lambda>r m. drop_bit 128 (r * snd m)) r0 ms \<le> foldl (magic_step t) r ms
    \<and> foldl (magic_step t) r ms \<le> r \<and> 0 \<le> foldl (magic_step t) r ms"
  using assms
proof (induction ms arbitrary: r0 r)
  case Nil
  then show ?case by simp
next
  case (Cons m ms)
  have m: "0 \<le> snd m" "snd m \<le> 2 ^ 128" and r: "0 \<le> r" using Cons.prems by auto
  have "drop_bit 128 (r0 * snd m) \<le> drop_bit 128 (r * snd m)"
    unfolding drop_bit_eq_div using Cons.prems m by (intro zdiv_mono1 mult_right_mono) simp_all
  then have "drop_bit 128 (r0 * snd m) \<le> magic_step t r m"
    using magic_step_bounds(1) [OF m r, of t] by linarith
  moreover have "0 \<le> drop_bit 128 (r0 * snd m)" using Cons.prems m by simp
  ultimately show ?case
    using Cons.IH [of "drop_bit 128 (r0 * snd m)" "magic_step t r m"] Cons.prems
      magic_step_bounds(2) [OF m r, of t] by simp
qed

lemma sqrt_magics_small: "\<forall>m \<in> set sqrt_magics. 0 \<le> snd m \<and> snd m \<le> 2 ^ 128"
  by (simp add: sqrt_magics_def)

lemma least_tick_ratio:
  "2 ^ 52 \<le> foldl (\<lambda>r m. drop_bit 128 (r * snd m)) 0xfffcb933bd6fad37aa2d162d1a594001 sqrt_magics"
  by code_simp

lemma tick_ratio_bounds: "2 ^ 52 \<le> tick_ratio t" "tick_ratio t \<le> 2 ^ 128"
proof -
  define r0 :: int where "r0 = (if t AND 1 \<noteq> 0 then 0xfffcb933bd6fad37aa2d162d1a594001 else push_bit 128 1)"
  have r0: "0xfffcb933bd6fad37aa2d162d1a594001 \<le> r0" "r0 \<le> 2 ^ 128" by (auto simp: r0_def)
  show "2 ^ 52 \<le> tick_ratio t" "tick_ratio t \<le> 2 ^ 128"
    using magic_fold_bounds [OF sqrt_magics_small _ r0(1), of t] least_tick_ratio r0
    unfolding tick_ratio_def r0_def [symmetric] by linarith+
qed

lemma getSqrtRatioAtTick_total: "\<exists>p. getSqrtRatioAtTick t = Some p \<and> 0 < p"
proof -
  define r where "r = tick_ratio (abs_tick t)"
  have r: "2 ^ 52 \<le> r" "r \<le> 2 ^ 128" unfolding r_def by (rule tick_ratio_bounds)+
  have "2 ^ 127 \<le> maxUint256 div r"
  proof -
    have "maxUint256 div 2 ^ 128 \<le> maxUint256 div r"
      using r by (intro zdiv_mono2) (simp_all add: maxUint256_def)
    then show ?thesis by (simp add: maxUint256_def)
  qed
  then show ?thesis using r
    by (auto simp: getSqrtRatioAtTick_def Let_def r_def [symmetric] push_bit_eq_mult drop_bit_eq_div)
qed

text \<open>
  One list of (bit, factor) pairs serves both tables, so the two loops run in step: the word loop
  never wraps, because a ratio of at most \<open>2 ^ 128\<close> times a factor below \<open>2 ^ 128\<close> fits.
\<close>

lemma magics_agree:
  "map (\<lambda>i. (tick_bits ! i, uint (tickMagicsU256 ! i))) [1..<20] = sqrt_magics"
  by (simp add: upt_rec tick_bits_def tickMagicsU256_def sqrt_magics_def)

lemma magic_step_u256_uint:
  assumes "uint r \<le> 2 ^ 128" and "uint (tickMagicsU256 ! i) < 2 ^ 128"
  shows "uint (magic_step_u256 t r i) = magic_step t (uint r) (tick_bits ! i, uint (tickMagicsU256 ! i))"
proof -
  have "uint r * uint (tickMagicsU256 ! i) \<le> 2 ^ 128 * (2 ^ 128 - 1)"
    using assms by (intro mult_mono) simp_all
  then have "uint r * uint (tickMagicsU256 ! i) < 2 ^ 256" by simp
  then show ?thesis
    by (simp add: magic_step_u256_def magic_step_def uint_drop_bit_256 uint_times_256
      drop_bit_eq_div [where ?'a = int])
qed

lemma magic_fold_uint:
  assumes "uint r \<le> 2 ^ 128" and "\<forall>i \<in> set is. uint (tickMagicsU256 ! i) < 2 ^ 128"
  shows "uint (foldl (magic_step_u256 t) r is)
    = foldl (magic_step t) (uint r) (map (\<lambda>i. (tick_bits ! i, uint (tickMagicsU256 ! i))) is)"
  using assms
proof (induction "is" arbitrary: r)
  case Nil
  then show ?case by simp
next
  case (Cons i "is")
  have st: "uint (magic_step_u256 t r i) = magic_step t (uint r) (tick_bits ! i, uint (tickMagicsU256 ! i))"
    using Cons.prems by (intro magic_step_u256_uint) auto
  have "magic_step t (uint r) (tick_bits ! i, uint (tickMagicsU256 ! i)) \<le> uint r"
    using Cons.prems by (intro magic_step_bounds(2)) auto
  then have "uint (magic_step_u256 t r i) \<le> 2 ^ 128"
    using st Cons.prems(1) by linarith
  then show ?case
    using Cons.IH [of "magic_step_u256 t r i"] Cons.prems(2) st by simp
qed

lemma tickMagics_small: "\<forall>i \<in> set [1..<20]. uint (tickMagicsU256 ! i) < 2 ^ 128"
  by (simp add: upt_rec tickMagicsU256_def)

lemma tick_ratio_u256_uint: "uint (tick_ratio_u256 t) = tick_ratio t"
proof -
  define r0 :: u256 where "r0 = (if t AND 1 \<noteq> 0 then tickMagicsU256 ! 0 else push_bit 128 1)"
  have "uint r0 = (if t AND 1 \<noteq> 0 then 0xfffcb933bd6fad37aa2d162d1a594001 else push_bit 128 1)"
    by (simp add: r0_def tickMagicsU256_def uint_push_bit_256 push_bit_eq_mult)
  moreover have "uint r0 \<le> 2 ^ 128"
    by (simp add: r0_def tickMagicsU256_def uint_push_bit_256)
  ultimately show ?thesis
    using magic_fold_uint [OF _ tickMagics_small, of r0 t] magics_agree
    by (simp add: tick_ratio_def tick_ratio_u256_def r0_def)
qed

lemma uint_max: "uint u256MaxU = maxUint256"
  by (simp add: u256MaxU_def maxUint256_def)

lemma low32_zero_iff: "(r :: u256) AND 0xFFFFFFFF = 0 \<longleftrightarrow> uint r mod 2 ^ 32 = 0"
proof -
  have "(0xFFFFFFFF :: u256) = mask 32" by (simp add: mask_eq_exp_minus_1)
  then have "r AND 0xFFFFFFFF = take_bit 32 r" by (simp only: take_bit_eq_mask)
  moreover have "uint (take_bit 32 r) = uint r mod 2 ^ 32"
    by (simp add: unsigned_take_bit_eq take_bit_eq_mod [where ?'a = int])
  ultimately show ?thesis by (simp add: word_eq_iff_uint)
qed

lemma getSqrtRatioAtTickU256Compute_refines:
  "getSqrtRatioAtTick t = Some (uint (getSqrtRatioAtTickU256Compute t))"
proof -
  define r where "r = (if 0 < t then u256MaxU div tick_ratio_u256 (abs_tick t) else tick_ratio_u256 (abs_tick t))"
  define q where "q = tick_ratio (abs_tick t)"
  have q: "2 ^ 52 \<le> q" unfolding q_def by (rule tick_ratio_bounds)
  have ru: "uint r = (if 0 < t then maxUint256 div q else q)"
    by (simp add: r_def q_def uint_div_distrib uint_max tick_ratio_u256_uint)
  have up: "uint (drop_bit 32 r + 1) = uint r div 2 ^ 32 + 1"
  proof -
    have "uint r div 2 ^ 32 \<le> 2 ^ 256 div 2 ^ 32"
      using uint_lt_256 [of r] by (intro zdiv_mono1) (linarith | simp)+
    then show ?thesis by (subst uint_plus_256) (simp_all add: uint_drop_bit_256)
  qed
  have "uint (getSqrtRatioAtTickU256Compute t)
      = (if uint r mod 2 ^ 32 \<noteq> 0 then uint r div 2 ^ 32 + 1 else uint r div 2 ^ 32)"
    using up by (simp add: getSqrtRatioAtTickU256Compute_def Let_def r_def [symmetric]
      low32_zero_iff uint_drop_bit_256)
  moreover have "getSqrtRatioAtTick t
      = Some (if uint r mod 2 ^ 32 \<noteq> 0 then uint r div 2 ^ 32 + 1 else uint r div 2 ^ 32)"
    using q by (simp add: getSqrtRatioAtTick_def Let_def q_def [symmetric] ru push_bit_eq_mult
      drop_bit_eq_div [where ?'a = int] sgn_if)
  ultimately show ?thesis by simp
qed

definition sqrt_cache_ok :: "sqrt_cache \<Rightarrow> bool" where
  "sqrt_cache_ok cache = (\<forall>t v. cache t = Some v \<longrightarrow> v = getSqrtRatioAtTickU256Compute t)"

lemma sqrt_cache_empty_ok: "sqrt_cache_ok Map.empty"
  by (simp add: sqrt_cache_ok_def)

lemma getSqrtRatioAtTickU256_cached:
  assumes "sqrt_cache_ok cache"
  shows "fst (getSqrtRatioAtTickU256 cache t) = getSqrtRatioAtTickU256Compute t"
    and "sqrt_cache_ok (snd (getSqrtRatioAtTickU256 cache t))"
  using assms by (auto simp: getSqrtRatioAtTickU256_def sqrt_cache_ok_def Let_def split: option.splits)

lemma getTickAtSqrtRatioU256_cached:
  assumes "sqrt_cache_ok cache"
  shows "fst (getTickAtSqrtRatioU256 cache p) = fst (getTickAtSqrtRatioU256 Map.empty p)"
    and "sqrt_cache_ok (snd (getTickAtSqrtRatioU256 cache p))"
  using getSqrtRatioAtTickU256_cached [OF assms]
    getSqrtRatioAtTickU256_cached [OF sqrt_cache_empty_ok] assms
  by (simp_all add: getTickAtSqrtRatioU256_def Let_def prod.case_eq_if)

lemma sqrt_ratio_min: "getSqrtRatioAtTick (- 887272) = Some 4295128739"
  by code_simp

lemma sqrt_ratio_max:
  "getSqrtRatioAtTick 887272 = Some 1461446703485210103287273052203988822378723970342"
  by code_simp

lemma sqrt_ratio_zero: "getSqrtRatioAtTick 0 = Some (2 ^ 96)"
  by (simp add: getSqrtRatioAtTick_def abs_tick_def tick_ratio_def sqrt_magics_def
    magic_step_def drop_bit_eq_div push_bit_eq_mult)

text \<open>
  \<open>getTickAtSqrtRatioU256\<close> takes the logarithm of the price itself where the on-chain formula takes
  it of the price shifted left by 32 bits, so its result is \<open>443636\<close> below the tick of the price.
\<close>

lemma tick_msb_q96: "tick_msb (2 ^ 96) = 96"
  by (simp add: tick_msb_def msb_step_def push_bit_eq_mult drop_bit_eq_div)

lemma log2_step_one: "log2_step (2 ^ 127, l) i = (2 ^ 127, l)"
  by (simp add: log2_step_def drop_bit_eq_div)

lemma tick_log_q96: "tick_log (2 ^ 96) = - (2 ^ 69) * 255738958999603826347141"
proof -
  have "push_bit (127 - 96) (2 ^ 96) = (2 ^ 127 :: u256)" by (simp add: push_bit_eq_mult)
  moreover have "push_bit 64 (u256MaxU - of_nat (128 - 96) + 1) = - (2 ^ 69)"
    by (simp add: push_bit_eq_mult u256MaxU_def)
  ultimately show ?thesis
    unfolding tick_log_def Let_def tick_msb_q96 by (simp add: log2_step_one [simplified])
qed

lemma sqrt_ratio_below_q96:
  assumes "t \<le> 0"
  shows "uint (getSqrtRatioAtTickU256Compute t) \<le> 2 ^ 96"
proof -
  define r where "r = tick_ratio (abs_tick t)"
  have r: "r \<le> 2 ^ 128" unfolding r_def by (rule tick_ratio_bounds)
  have "Some (uint (getSqrtRatioAtTickU256Compute t)) = getSqrtRatioAtTick t"
    by (rule getSqrtRatioAtTickU256Compute_refines [symmetric])
  also have "\<dots> = Some (ceil_div r (2 ^ 32))"
    using assms ceil_div_alt [of "2 ^ 32" r, symmetric]
    by (simp add: getSqrtRatioAtTick_def Let_def r_def [symmetric] push_bit_eq_mult drop_bit_eq_div
      sgn_0_0 ceil_div_def)
  finally show ?thesis
    using r ceil_div_le_iff' [of "2 ^ 32" r "2 ^ 96"] by simp
qed

lemma getTickAtSqrtRatioU256_q96:
  assumes "sqrt_cache_ok cache"
  shows "fst (getTickAtSqrtRatioU256 cache (2 ^ 96)) = - 443636"
proof -
  have "\<not> 2 ^ 96 < getSqrtRatioAtTickU256Compute (- 443636)"
    using sqrt_ratio_below_q96 [of "- 443636"] by (simp add: word_less_def)
  moreover have "u256ToInt32 (drop_bit 128 (- (2 ^ 69) * 255738958999603826347141
      + 291339464771989622907027621153398088495)) = - 443636"
    by (simp add: u256ToInt32_def drop_bit_eq_div to_int32_def)
  moreover have "fst (getSqrtRatioAtTickU256 cache (- 443636)) = getSqrtRatioAtTickU256Compute (- 443636)"
    using getSqrtRatioAtTickU256_cached [OF assms] by blast
  ultimately show ?thesis
    unfolding getTickAtSqrtRatioU256_def Let_def tick_log_q96
    by (simp only: prod.case_eq_if split: if_split) simp
qed

end
