(* ===== verification/Swap_Step.thy ===== *)
theory Swap_Step
  imports Shared_Math
begin

text \<open>
  Models one step of a concentrated-liquidity swap: \<open>computeSwapStep\<close> of \<open>formulas/v3.go\<close> over
  \<open>big.Int\<close>, \<open>computeSwapStepU256\<close> of \<open>formulas/shared_u256.go\<close> and \<open>v4ComputeSwapStepU256\<close> of
  \<open>formulas/v4_u256.go\<close> over 256-bit words.  The lemmas show what a step consumes, in which of its
  two cases, and the exact condition under which the target price is reached.
\<close>

subsection \<open>The big.Int step\<close>

definition v3GetNextPriceFromInputOverflow :: "int \<Rightarrow> int \<Rightarrow> int \<Rightarrow> bool \<Rightarrow> int option" where
  "v3GetNextPriceFromInputOverflow sqrtPX96 liquidity amountIn zeroForOne =
     (if \<not> zeroForOne then sGetNextSqrtPriceFromInput sqrtPX96 liquidity amountIn False
      else if sgn amountIn = 0 then Some sqrtPX96
      else do {
        let numerator1 = push_bit 96 liquidity;
        denom \<leftarrow> big_div numerator1 sqrtPX96;
        unsafeDivRoundingUp numerator1 (denom + amountIn)
      })"

definition v3GetNextPriceFromInput :: "int \<Rightarrow> int \<Rightarrow> int \<Rightarrow> bool \<Rightarrow> int option" where
  "v3GetNextPriceFromInput sqrtPX96 liquidity amountIn zeroForOne =
     (if zeroForOne \<and> 2 ^ 256 \<le> \<bar>amountIn * sqrtPX96\<bar>
      then v3GetNextPriceFromInputOverflow sqrtPX96 liquidity amountIn True
      else sGetNextSqrtPriceFromInput sqrtPX96 liquidity amountIn zeroForOne)"

definition computeSwapStep ::
  "int \<Rightarrow> int \<Rightarrow> int \<Rightarrow> int \<Rightarrow> int \<Rightarrow> (int \<times> int \<times> int \<times> int) option" where
  "computeSwapStep sqrtRatioCurrentX96 sqrtRatioTargetX96 liquidity amountRemaining feePips =
     do {
       let zeroForOne = (sqrtRatioTargetX96 \<le> sqrtRatioCurrentX96);
       let feeDenom = 1000000;
       let feeComplement = feeDenom - feePips;
       amountRemainingLessFee \<leftarrow> mulDiv amountRemaining feeComplement feeDenom;
       amountIn \<leftarrow>
         (if zeroForOne then sGetAmount0Delta sqrtRatioTargetX96 sqrtRatioCurrentX96 liquidity True
          else sGetAmount1Delta sqrtRatioCurrentX96 sqrtRatioTargetX96 liquidity True);
       sqrtRatioNextX96 \<leftarrow>
         (if amountIn \<le> amountRemainingLessFee then Some sqrtRatioTargetX96
          else v3GetNextPriceFromInput sqrtRatioCurrentX96 liquidity amountRemainingLessFee zeroForOne);
       let isMax = (sqrtRatioTargetX96 = sqrtRatioNextX96);
       amountIn' \<leftarrow>
         (if isMax then Some amountIn
          else if zeroForOne then sGetAmount0Delta sqrtRatioNextX96 sqrtRatioCurrentX96 liquidity True
          else sGetAmount1Delta sqrtRatioCurrentX96 sqrtRatioNextX96 liquidity True);
       amountOut \<leftarrow>
         (if zeroForOne then sGetAmount1Delta sqrtRatioNextX96 sqrtRatioCurrentX96 liquidity False
          else sGetAmount0Delta sqrtRatioCurrentX96 sqrtRatioNextX96 liquidity False);
       feeAmount \<leftarrow>
         (if \<not> isMax then Some (amountRemaining - amountIn')
          else mulDivRoundingUp amountIn' feePips feeComplement);
       Some (sqrtRatioNextX96, amountIn', amountOut, feeAmount)
     }"

subsection \<open>The word steps\<close>

definition v3GetNextPriceFromInputOverflowU256 :: "u256 \<Rightarrow> u256 \<Rightarrow> u256 \<Rightarrow> u256" where
  "v3GetNextPriceFromInputOverflowU256 sqrtPX96 liquidity amountIn =
     (if amountIn = 0 then sqrtPX96
      else let n1 = push_bit 96 liquidity;
               denom = n1 div sqrtPX96 + amountIn
           in unsafeDivRoundingUpU256 n1 denom)"

definition v3GetNextPriceFromInputU256 ::
  "(u256 \<Rightarrow> u256 \<Rightarrow> u256 \<Rightarrow> u256) \<Rightarrow> u256 \<Rightarrow> u256 \<Rightarrow> u256 \<Rightarrow> bool \<Rightarrow> u256" where
  "v3GetNextPriceFromInputU256 md sqrtPX96 liquidity amountIn zeroForOne =
     (if zeroForOne \<and> mul_overflows amountIn sqrtPX96
      then v3GetNextPriceFromInputOverflowU256 sqrtPX96 liquidity amountIn
      else sGetNextSqrtPriceFromInputU256 md sqrtPX96 liquidity amountIn zeroForOne)"

text \<open>A fee is a 32-bit number of millionths; its complement is computed on 64-bit numbers.\<close>

definition fee_complement :: "32 word \<Rightarrow> u256" where
  "fee_complement feePips = ucast ((1000000 :: 64 word) - ucast feePips)"

definition amount_in_to :: "(u256 \<Rightarrow> u256 \<Rightarrow> u256 \<Rightarrow> u256) \<Rightarrow> u256 \<Rightarrow> u256 \<Rightarrow> u256 \<Rightarrow> bool \<Rightarrow> u256" where
  "amount_in_to md current target liquidity zeroForOne =
     (if zeroForOne then sGetAmount0DeltaU256 md target current liquidity True
      else sGetAmount1DeltaU256 md current target liquidity True)"

definition amount_out_to :: "(u256 \<Rightarrow> u256 \<Rightarrow> u256 \<Rightarrow> u256) \<Rightarrow> u256 \<Rightarrow> u256 \<Rightarrow> u256 \<Rightarrow> bool \<Rightarrow> u256" where
  "amount_out_to md current target liquidity zeroForOne =
     (if zeroForOne then sGetAmount1DeltaU256 md target current liquidity False
      else sGetAmount0DeltaU256 md current target liquidity False)"

definition computeSwapStepU256 ::
  "(u256 \<Rightarrow> u256 \<Rightarrow> u256 \<Rightarrow> u256) \<Rightarrow> u256 \<Rightarrow> u256 \<Rightarrow> u256 \<Rightarrow> u256 \<Rightarrow> 32 word
    \<Rightarrow> u256 \<times> u256 \<times> u256 \<times> u256" where
  "computeSwapStepU256 md current target liquidity amountRemaining feePips =
     (let zeroForOne = (\<not> current < target);
          feeComplement = fee_complement feePips;
          amountRemainingLessFee = mulDivU256 md amountRemaining feeComplement 1000000;
          amountIn = amount_in_to md current target liquidity zeroForOne;
          next = (if \<not> amountRemainingLessFee < amountIn then target
                  else v3GetNextPriceFromInputU256 md current liquidity amountRemainingLessFee zeroForOne);
          isMax = (target = next);
          amountIn' = (if isMax then amountIn else amount_in_to md current next liquidity zeroForOne);
          amountOut = amount_out_to md current next liquidity zeroForOne;
          feeAmount = (if \<not> isMax then amountRemaining - amountIn'
                       else mulDivRoundingUpU256 md amountIn' (ucast feePips) feeComplement)
      in (next, amountIn', amountOut, feeAmount))"

definition v4ComputeSwapStepU256 ::
  "(u256 \<Rightarrow> u256 \<Rightarrow> u256 \<Rightarrow> u256) \<Rightarrow> u256 \<Rightarrow> u256 \<Rightarrow> u256 \<Rightarrow> u256 \<Rightarrow> 32 word
    \<Rightarrow> u256 \<times> u256 \<times> u256 \<times> u256" where
  "v4ComputeSwapStepU256 md current target liquidity absRemaining feePips =
     (let zeroForOne = (\<not> current < target);
          feeComplement = fee_complement feePips;
          amountRemainingLessFee = mulDivU256 md absRemaining feeComplement 1000000;
          amountIn = amount_in_to md current target liquidity zeroForOne;
          (next, amountIn', feeAmount) =
            (if \<not> amountRemainingLessFee < amountIn then
               (target, amountIn,
                if feePips = 1000000 then amountIn
                else mulDivRoundingUpU256 md amountIn (ucast feePips) feeComplement)
             else
               (v3GetNextPriceFromInputU256 md current liquidity amountRemainingLessFee zeroForOne,
                amountRemainingLessFee, absRemaining - amountRemainingLessFee));
          amountOut = amount_out_to md current next liquidity zeroForOne
      in (next, amountIn', amountOut, feeAmount))"

subsection \<open>When a step reaches its target\<close>

text \<open>
  The arithmetic heart of the step: paying the fee on top of the input is affordable exactly when
  the input is covered by what the fee leaves.
\<close>

lemma reach_iff_total_cost:
  fixes A R f M :: int
  assumes "0 \<le> f" and "f < M"
  shows "A \<le> R * (M - f) div M \<longleftrightarrow> A + ceil_div (A * f) (M - f) \<le> R"
proof -
  have "A \<le> R * (M - f) div M \<longleftrightarrow> A * M \<le> R * (M - f)"
  proof
    assume "A \<le> R * (M - f) div M"
    then have "A * M \<le> R * (M - f) div M * M" using assms by (intro mult_right_mono) simp_all
    also have "\<dots> \<le> R * (M - f)"
      using minus_mod_eq_div_mult [of "R * (M - f)" M] pos_mod_sign [of M "R * (M - f)"] assms
      by linarith
    finally show "A * M \<le> R * (M - f)" .
  next
    assume "A * M \<le> R * (M - f)"
    then have "A * M div M \<le> R * (M - f) div M" using assms by (intro zdiv_mono1) simp_all
    then show "A \<le> R * (M - f) div M" using assms by simp
  qed
  also have "\<dots> \<longleftrightarrow> A * f \<le> (R - A) * (M - f)" by (simp add: algebra_simps)
  also have "\<dots> \<longleftrightarrow> ceil_div (A * f) (M - f) \<le> R - A" using assms by (simp add: ceil_div_le_iff')
  finally show ?thesis by linarith
qed

lemma fee_complement_uint:
  assumes "uint f \<le> 1000000"
  shows "uint (fee_complement f) = 1000000 - uint f"
proof -
  have u: "uint (ucast f :: 64 word) = uint f"
    by (simp add: uint_up_ucast is_up)
  have "uint ((1000000 :: 64 word) - ucast f) = 1000000 - uint f"
    using uint_sub_lem [of "ucast f" "1000000 :: 64 word"] assms u by simp
  then show ?thesis by (simp add: fee_complement_def uint_up_ucast is_up)
qed

lemma less_fee_uint:
  assumes "muldiv_lib md" and "uint f \<le> 1000000"
  shows "uint (mulDivU256 md R (fee_complement f) 1000000) = uint R * (1000000 - uint f) div 1000000"
proof -
  have "uint R * (1000000 - uint f) \<le> uint R * 1000000"
    by (intro mult_left_mono) simp_all
  then have "uint R * (1000000 - uint f) div 1000000 \<le> uint R" by (rule div_le_when [rotated]) simp
  then have "uint R * (1000000 - uint f) div 1000000 < 2 ^ 256"
    using uint_lt_256 [of R] by linarith
  then show ?thesis
    using muldiv_lib.muldiv_exact [OF assms(1), of 1000000 R "fee_complement f"]
    by (simp add: mulDivU256_def fee_complement_uint [OF assms(2)])
qed

lemma full_fee_uint:
  assumes "muldiv_lib md" and "uint f < 1000000" and "uint A < 2 ^ 236"
  shows "uint (mulDivRoundingUpU256 md A (ucast f) (fee_complement f))
    = ceil_div (uint A * uint f) (1000000 - uint f)"
proof -
  have fu: "uint (ucast f :: u256) = uint f" by (simp add: uint_up_ucast is_up)
  have c: "uint (fee_complement f) = 1000000 - uint f" using assms by (simp add: fee_complement_uint)
  then have nz: "fee_complement f \<noteq> 0" using assms(2) by (auto simp: word_eq_iff_uint)
  have "uint A * uint f \<le> 2 ^ 236 * 1000000" using assms by (intro mult_mono) simp_all
  then have small: "uint A * uint f < 2 ^ 256" by simp
  have "ceil_div (uint A * uint f) (1000000 - uint f) \<le> uint A * uint f"
    using assms(2) mult_left_mono [of 1 "1000000 - uint f" "uint A * uint f"]
    by (simp add: ceil_div_le_iff')
  then show ?thesis
    using small mulDivRoundingUpU256_ceil [OF assms(1) nz, of A "ucast f"]
      small_product_agrees [of A "ucast f"]
    by (simp add: fu c)
qed

text \<open>A step that stops short of its target takes the whole remaining input.\<close>

lemma computeSwapStepU256_partial:
  assumes "computeSwapStepU256 md cur tgt liq R f = (next, ain, aout, fee)" and "next \<noteq> tgt"
  shows "R - ain - fee = 0"
  using assms by (auto simp: computeSwapStepU256_def Let_def split: if_splits)

lemma v4ComputeSwapStepU256_partial:
  assumes "v4ComputeSwapStepU256 md cur tgt liq R f = (next, ain, aout, fee)" and "next \<noteq> tgt"
  shows "R - (ain + fee) = 0"
  using assms by (auto simp: v4ComputeSwapStepU256_def Let_def split: if_splits)

definition total_cost :: "(u256 \<Rightarrow> u256 \<Rightarrow> u256 \<Rightarrow> u256) \<Rightarrow> u256 \<Rightarrow> u256 \<Rightarrow> u256 \<Rightarrow> 32 word \<Rightarrow> int" where
  "total_cost md cur tgt liq f =
     (let A = uint (amount_in_to md cur tgt liq (\<not> cur < tgt))
      in A + ceil_div (A * uint f) (1000000 - uint f))"

lemma lessFee_reaches_iff:
  assumes "muldiv_lib md" and "uint f < 1000000"
  shows "\<not> mulDivU256 md R (fee_complement f) 1000000 < amount_in_to md cur tgt liq (\<not> cur < tgt)
    \<longleftrightarrow> total_cost md cur tgt liq f \<le> uint R"
  using assms reach_iff_total_cost [of "uint f" 1000000 "uint (amount_in_to md cur tgt liq (\<not> cur < tgt))" "uint R"]
  by (simp add: word_less_def less_fee_uint total_cost_def Let_def not_less)

lemma computeSwapStepU256_reach:
  assumes "muldiv_lib md" and "uint f < 1000000" and "uint R < 2 ^ 236"
    and "total_cost md cur tgt liq f \<le> uint R"
    and "computeSwapStepU256 md cur tgt liq R f = (next, ain, aout, fee)"
  shows "next = tgt" and "ain = amount_in_to md cur tgt liq (\<not> cur < tgt)"
    and "uint ain + uint fee = total_cost md cur tgt liq f"
    and "aout = amount_out_to md cur tgt liq (\<not> cur < tgt)"
proof -
  note r = lessFee_reaches_iff [OF assms(1,2), of R cur tgt liq]
  have A: "uint (amount_in_to md cur tgt liq (\<not> cur < tgt)) < 2 ^ 236"
  proof -
    have "0 \<le> ceil_div (uint (amount_in_to md cur tgt liq (\<not> cur < tgt)) * uint f) (1000000 - uint f)"
      using assms(2) by (intro ceil_div_nonneg) simp_all
    then show ?thesis using assms(3,4) by (simp add: total_cost_def Let_def)
  qed
  show "next = tgt" and a: "ain = amount_in_to md cur tgt liq (\<not> cur < tgt)"
    and "aout = amount_out_to md cur tgt liq (\<not> cur < tgt)"
    using assms(4,5) r by (auto simp: computeSwapStepU256_def Let_def)
  have "fee = mulDivRoundingUpU256 md ain (ucast f) (fee_complement f)"
    using assms(4,5) r by (auto simp: computeSwapStepU256_def Let_def)
  then have "uint fee = ceil_div (uint ain * uint f) (1000000 - uint f)"
    using full_fee_uint [OF assms(1,2) A] a by simp
  then show "uint ain + uint fee = total_cost md cur tgt liq f"
    using a by (simp add: total_cost_def Let_def)
qed

lemma amount_in_to_refines:
  assumes "muldiv_lib md" and "uint l < 2 ^ 128" and "a \<noteq> 0" and "b \<noteq> 0"
    and "uint a < 2 ^ 160" and "uint b < 2 ^ 160"
    and "z \<Longrightarrow> uint l * \<bar>uint a - uint b\<bar> < 2 ^ 160"
  shows "(if z then sGetAmount0Delta (uint b) (uint a) (uint l) True
          else sGetAmount1Delta (uint a) (uint b) (uint l) True)
    = Some (uint (amount_in_to md a b l z))"
  using assms sGetAmount0DeltaU256_refines [of md l b a True]
    sGetAmount1DeltaU256_refines [of md l a b True]
  by (cases z) (simp_all add: amount_in_to_def)

lemma amount_out_to_refines:
  assumes "muldiv_lib md" and "uint l < 2 ^ 128" and "a \<noteq> 0" and "b \<noteq> 0"
    and "uint a < 2 ^ 160" and "uint b < 2 ^ 160"
  shows "(if z then sGetAmount1Delta (uint b) (uint a) (uint l) False
          else sGetAmount0Delta (uint a) (uint b) (uint l) False)
    = Some (uint (amount_out_to md a b l z))"
  using assms sGetAmount0DeltaU256_refines [of md l a b False]
    sGetAmount1DeltaU256_refines [of md l b a False]
  by (cases z) (simp_all add: amount_out_to_def)

text \<open>On a step that reaches its target the word step and the big.Int step agree.\<close>

lemma computeSwapStep_refines_reach:
  assumes "muldiv_lib md" and "uint f < 1000000" and "uint R < 2 ^ 236"
    and "total_cost md a b l f \<le> uint R" and "uint l < 2 ^ 128" and "a \<noteq> 0" and "b \<noteq> 0"
    and "uint a < 2 ^ 160" and "uint b < 2 ^ 160"
    and "\<not> a < b \<Longrightarrow> uint l * \<bar>uint a - uint b\<bar> < 2 ^ 160"
    and "computeSwapStepU256 md a b l R f = (nx, ain, aout, fee)"
  shows "computeSwapStep (uint a) (uint b) (uint l) (uint R) (uint f)
    = Some (uint nx, uint ain, uint aout, uint fee)"
proof -
  note r = computeSwapStepU256_reach [OF assms(1-4) assms(11)]
  define z where "z = (\<not> a < b)"
  have z: "(uint b \<le> uint a) = z" by (simp add: z_def word_less_def not_less)
  note i = amount_in_to_refines [OF assms(1,5-9), of z]
  have i: "(if z then sGetAmount0Delta (uint b) (uint a) (uint l) True
          else sGetAmount1Delta (uint a) (uint b) (uint l) True) = Some (uint ain)"
    using i assms(10) r(2) by (simp add: z_def)
  have o: "(if z then sGetAmount1Delta (uint b) (uint a) (uint l) False
          else sGetAmount0Delta (uint a) (uint b) (uint l) False) = Some (uint aout)"
    using amount_out_to_refines [OF assms(1,5-9), of z] r(4) by (simp add: z_def)
  have c: "total_cost md a b l f = uint ain + ceil_div (uint ain * uint f) (1000000 - uint f)"
    using r(2) by (simp add: total_cost_def Let_def)
  then have le: "uint ain \<le> uint R * (1000000 - uint f) div 1000000"
    using assms(2,4) reach_iff_total_cost [of "uint f" 1000000 "uint ain" "uint R"] by simp
  have fee: "uint fee = ceil_div (uint ain * uint f) (1000000 - uint f)" using r(3) c by linarith
  show ?thesis
    using i o le fee r(1) assms(2)
    by (simp add: computeSwapStep_def Let_def z mulDiv_def mulDivRoundingUp_ceil split del: if_split)
qed

end
