(* ===== verification/Slot_Keys.thy ===== *)
theory Slot_Keys
  imports Go_Prelude
begin

text \<open>
  Models the storage-slot half of \<open>formulas/shared_u256.go\<close>: the Keccak key of a Solidity mapping
  entry and the process-wide cache in front of it.  The hash function belongs to a library and is the
  parameter \<open>keccak\<close>.
\<close>

type_synonym keccak = "byte list \<Rightarrow> hash"
type_synonym slot_cache = "64 word \<rightharpoonup> hash"

text \<open>Keys are Go \<open>int64\<close> values; the multiplication by the Fibonacci constant wraps.\<close>

definition keccakFastKey :: "int \<Rightarrow> hash \<Rightarrow> 64 word" where
  "keccakFastKey key mappingSlot =
     (let msKey = word_of_int (be_int (rev (drop 24 (be_bytes 32 (uint mappingSlot)))))
      in msKey XOR (word_of_int key * 0x9E3779B97F4A7C15))"

definition slot_preimage :: "int \<Rightarrow> hash \<Rightarrow> byte list" where
  "slot_preimage key mappingSlot =
     replicate 24 (if key < 0 then 0xFF else 0)
     @ map (\<lambda>s. word_of_int (drop_bit s key)) [56, 48, 40, 32, 24, 16, 8, 0]
     @ be_bytes 32 (uint mappingSlot)"

definition cachedKeccakSlotBytes ::
  "keccak \<Rightarrow> slot_cache \<Rightarrow> int \<Rightarrow> hash \<Rightarrow> hash \<times> slot_cache" where
  "cachedKeccakSlotBytes keccak cache key mappingSlot =
     (let fk = keccakFastKey key mappingSlot
      in case cache fk of
           Some v \<Rightarrow> (v, cache)
         | None \<Rightarrow> (let result = keccak (slot_preimage key mappingSlot)
                   in (result, cache(keccakFastKey key mappingSlot \<mapsto> result))))"

definition bigIntTo32 :: "int \<Rightarrow> byte list option" where
  "bigIntTo32 v = (if \<bar>v\<bar> < 2 ^ 256 then Some (be_bytes 32 \<bar>v\<bar>) else None)"

subsection \<open>What the cache promises\<close>

text \<open>
  The cache is right for the entries of one mapping: multiplication by an odd constant is
  injective on 64-bit words, so for a fixed slot distinct keys have distinct fast keys.
\<close>

definition slot_cache_ok :: "keccak \<Rightarrow> hash set \<Rightarrow> slot_cache \<Rightarrow> bool" where
  "slot_cache_ok keccak slots cache =
     (\<forall>fk v. cache fk = Some v \<longrightarrow>
        (\<exists>key s. s \<in> slots \<and> - (2 ^ 63) \<le> key \<and> key < 2 ^ 63 \<and> fk = keccakFastKey key s
           \<and> v = keccak (slot_preimage key s)))"

definition fast_keys_distinct :: "hash set \<Rightarrow> bool" where
  "fast_keys_distinct slots =
     (\<forall>s \<in> slots. \<forall>s' \<in> slots. \<forall>key key'. - (2 ^ 63) \<le> key \<longrightarrow> key < 2 ^ 63 \<longrightarrow>
        - (2 ^ 63) \<le> key' \<longrightarrow> key' < 2 ^ 63 \<longrightarrow>
        keccakFastKey key s = keccakFastKey key' s' \<longrightarrow> key = key' \<and> s = s')"

lemma fibonacci_inverse: "(0x9E3779B97F4A7C15 :: 64 word) * 0xF1DE83E19937733D = 1"
  by simp

lemma fibonacci_inj:
  assumes "x * 0x9E3779B97F4A7C15 = y * (0x9E3779B97F4A7C15 :: 64 word)"
  shows "x = y"
proof -
  have "x * 0x9E3779B97F4A7C15 * 0xF1DE83E19937733D = y * 0x9E3779B97F4A7C15 * 0xF1DE83E19937733D"
    using assms by (rule arg_cong)
  then show ?thesis by (simp only: mult.assoc fibonacci_inverse mult_1_right)
qed

lemma int64_word_inj:
  assumes "- (2 ^ 63) \<le> a" "a < 2 ^ 63" "- (2 ^ 63) \<le> b" "b < 2 ^ 63"
    and "(word_of_int a :: 64 word) = word_of_int b"
  shows "a = b"
proof -
  have "sint (word_of_int a :: 64 word) = a" "sint (word_of_int b :: 64 word) = b"
    using assms(1-4) by (simp_all add: sint_sbintrunc' signed_take_bit_int_eq_self)
  with assms(5) show ?thesis by metis
qed

lemma xor_cancel:
  assumes "m XOR a = m XOR (b :: 64 word)"
  shows "a = b"
proof -
  have *: "m XOR (m XOR c) = c" for c by (simp flip: xor.assoc)
  have "m XOR (m XOR a) = m XOR (m XOR b)" by (simp only: assms)
  then show ?thesis by (simp only: *)
qed

lemma fast_keys_single: "fast_keys_distinct {s}"
proof -
  have "key = key'"
    if "- (2 ^ 63) \<le> key" "key < 2 ^ 63" "- (2 ^ 63) \<le> key'" "key' < 2 ^ 63"
      and "keccakFastKey key s = keccakFastKey key' s" for key key'
  proof (rule int64_word_inj [OF that(1-4)])
    have "(word_of_int key :: 64 word) * 0x9E3779B97F4A7C15 = word_of_int key' * 0x9E3779B97F4A7C15"
      using that(5) unfolding keccakFastKey_def Let_def by (rule xor_cancel)
    then show "(word_of_int key :: 64 word) = word_of_int key'" by (rule fibonacci_inj)
  qed
  then show ?thesis by (auto simp: fast_keys_distinct_def)
qed

lemma cachedKeccakSlotBytes_correct:
  assumes "slot_cache_ok keccak slots cache" and "fast_keys_distinct slots" and "s \<in> slots"
    and "- (2 ^ 63) \<le> key" and "key < 2 ^ 63"
  shows "fst (cachedKeccakSlotBytes keccak cache key s) = keccak (slot_preimage key s)"
    and "slot_cache_ok keccak slots (snd (cachedKeccakSlotBytes keccak cache key s))"
proof -
  show "fst (cachedKeccakSlotBytes keccak cache key s) = keccak (slot_preimage key s)"
  proof (cases "cache (keccakFastKey key s)")
    case None
    then show ?thesis by (simp add: cachedKeccakSlotBytes_def Let_def)
  next
    case (Some v)
    then obtain key' s' where k: "s' \<in> slots" "- (2 ^ 63) \<le> key'" "key' < 2 ^ 63"
      "keccakFastKey key s = keccakFastKey key' s'" "v = keccak (slot_preimage key' s')"
      using assms(1) unfolding slot_cache_ok_def by metis
    then have "key = key' \<and> s = s'"
      using assms(2-5) unfolding fast_keys_distinct_def by blast
    with Some k show ?thesis by (simp add: cachedKeccakSlotBytes_def)
  qed
  show "slot_cache_ok keccak slots (snd (cachedKeccakSlotBytes keccak cache key s))"
    using assms by (auto simp: cachedKeccakSlotBytes_def Let_def slot_cache_ok_def split: option.splits)
qed

text \<open>
  Across mappings it is not: only the last eight bytes of the mapping slot enter the fast key, so two
  slots that agree there share their cache entries.
\<close>

lemma keccakFastKey_low_bytes:
  "keccakFastKey key s = word_of_int (be_int (rev (be_bytes 8 (uint s))))
    XOR (word_of_int key * 0x9E3779B97F4A7C15)"
  using be_bytes_append [of 24 8 "uint s"] by (simp add: keccakFastKey_def Let_def)

lemma keccakFastKey_collides:
  assumes "uint s mod 2 ^ 64 = uint s' mod 2 ^ 64"
  shows "keccakFastKey key s = keccakFastKey key s'"
  using be_bytes_cong [of "uint s" 8 "uint s'"] assms
  by (simp add: keccakFastKey_low_bytes)

lemma cached_key_of_other_mapping:
  assumes "uint s mod 2 ^ 64 = uint s' mod 2 ^ 64"
    and "cachedKeccakSlotBytes keccak Map.empty key s = (v, cache)"
  shows "fst (cachedKeccakSlotBytes keccak cache key s') = keccak (slot_preimage key s)"
  using assms keccakFastKey_collides [OF assms(1), of key]
  by (auto simp: cachedKeccakSlotBytes_def Let_def)

text \<open>The preimage is \<open>abi.encode(int256(key), uint256(mappingSlot))\<close>.\<close>

lemma be_bytes_8: "be_bytes 8 n = map (\<lambda>s. word_of_int (drop_bit s n)) [56, 48, 40, 32, 24, 16, 8, 0]"
  by (simp add: be_bytes_map upt_rec drop_bit_eq_div)

lemma slot_preimage_abi:
  assumes "- (2 ^ 63) \<le> key" and "key < 2 ^ 63"
  shows "slot_preimage key s = be_bytes 32 (key mod 2 ^ 256) @ be_bytes 32 (uint s)"
proof -
  have hi: "key div 256 ^ 8 = (if key < 0 then - 1 else 0)"
  proof (cases "key < 0")
    case True
    then have "(key + 2 ^ 64) div 2 ^ 64 = 0" using assms by simp
    with True show ?thesis by simp
  next
    case False
    with assms show ?thesis by simp
  qed
  have "be_bytes 32 (key mod 2 ^ 256) = be_bytes 32 key"
    by (rule be_bytes_cong) simp
  also have "\<dots> = replicate 24 (if key < 0 then 0xFF else 0) @ be_bytes 8 key"
    using be_bytes_append [of 24 8 key] be_bytes_const [of 24] hi by (cases "key < 0") simp_all
  finally show ?thesis by (simp add: slot_preimage_def be_bytes_8)
qed

end
