(* ===== verification/V3_Pool.thy ===== *)
theory V3_Pool
  imports Swap_Step Slot_Keys "HOL-Library.AList"
begin

text \<open>
  Models \<open>formulas/pool_v3.go\<close> with the readers it uses from \<open>formulas/v3.go\<close> and
  \<open>formulas/v3_u256.go\<close>: detection of the storage layout, pre-loading of a pool from storage, the
  scan for the next initialized tick, the pre-computed crossings and the quote loop.  The hash function
  and the registry data are parameters.  The square-root price of a tick is the value the cached
  function returns (\<open>getSqrtRatioAtTickU256_cached\<close>).
\<close>

subsection \<open>Data\<close>

record v3_layout =
  lay_slot0 :: int
  lay_liquidity :: int
  lay_ticks :: int
  lay_bitmap :: int
  lay_feeSlot :: "int option"
  lay_heavyGas :: bool

record v3_layout_bytes =
  lb_slot0 :: hash
  lb_liquidity :: hash
  lb_ticks :: hash
  lb_bitmap :: hash
  lb_feeSlot :: hash
  lb_hasFeeSlot :: bool
  lb_heavyGas :: bool

record v3_prestep =
  sqrtPriceTarget :: u256
  ps_amountIn :: u256
  ps_amountOut :: u256
  ps_feeAmount :: u256
  totalCost :: u256

record v3_pool =
  v3_addr :: address
  v3_fee :: "32 word"
  tickSpacing :: int
  v3_sqrtPriceX96 :: u256
  v3_tick :: int
  v3_liquidity :: u256
  bitmapWords :: "int \<rightharpoonup> u256"
  bitmapMinWord :: int
  bitmapMaxWord :: int
  tickLiquidityNet :: "(int \<times> u256) list"
  preStepsDown :: "int \<rightharpoonup> v3_prestep"
  preStepsUp :: "int \<rightharpoonup> v3_prestep"
  heavyGas :: bool

definition algebraMinTick :: int where "algebraMinTick = - 887272"
definition algebraMaxTick :: int where "algebraMaxTick = 887272"
definition algebraMinSqrtRatio :: int where "algebraMinSqrtRatio = 4295128739"
definition algebraMaxSqrtRatio :: int where
  "algebraMaxSqrtRatio = 1461446703485210103287273052203988822378723970342"
definition u256MinSqr :: u256 where "u256MinSqr = 4295128739"
definition u256MaxSqr :: u256 where
  "u256MaxSqr = 1461446703485210103287273052203988822378723970342"

subsection \<open>Storage layouts\<close>

definition v3LayoutStandard :: v3_layout where
  "v3LayoutStandard = \<lparr>lay_slot0 = 0, lay_liquidity = 4, lay_ticks = 5, lay_bitmap = 6,
     lay_feeSlot = None, lay_heavyGas = False\<rparr>"

definition v3LayoutProxy :: v3_layout where
  "v3LayoutProxy = \<lparr>lay_slot0 = 4, lay_liquidity = 9, lay_ticks = 10, lay_bitmap = 11,
     lay_feeSlot = None, lay_heavyGas = True\<rparr>"

definition v3LayoutPangolin :: v3_layout where
  "v3LayoutPangolin = \<lparr>lay_slot0 = 5, lay_liquidity = 9, lay_ticks = 10, lay_bitmap = 11,
     lay_feeSlot = None, lay_heavyGas = True\<rparr>"

definition v3LayoutPangolinReward :: v3_layout where
  "v3LayoutPangolinReward = \<lparr>lay_slot0 = 5, lay_liquidity = 10, lay_ticks = 11, lay_bitmap = 12,
     lay_feeSlot = None, lay_heavyGas = True\<rparr>"

definition ascii_bytes :: "string \<Rightarrow> byte list" where
  "ascii_bytes s = map (\<lambda>c. of_char c) s"

definition v3LayoutPharaohV1 :: "keccak \<Rightarrow> v3_layout" where
  "v3LayoutPharaohV1 keccak =
     (let base = uint (keccak (ascii_bytes ''states.storage''))
      in \<lparr>lay_slot0 = base + 7, lay_liquidity = base + 13, lay_ticks = base + 14,
          lay_bitmap = base + 15, lay_feeSlot = None, lay_heavyGas = True\<rparr>)"

definition v3LayoutPharaohV2 :: "keccak \<Rightarrow> v3_layout" where
  "v3LayoutPharaohV2 keccak =
     (let raw = uint (keccak (ascii_bytes ''pool.storage'')) - 1;
          rawBytes = be_bytes 32 \<bar>raw\<bar>;
          derived = uint (keccak rawBytes) AND NOT 0xff
      in \<lparr>lay_slot0 = derived, lay_liquidity = derived + 8, lay_ticks = derived + 9,
          lay_bitmap = derived + 10, lay_feeSlot = Some (derived + 2), lay_heavyGas = True\<rparr>)"

text \<open>A reader that may fail, as \<open>StateReader\<close>; a slot too wide for a word is cut to 32 bytes.\<close>

type_synonym state_reader = "address \<Rightarrow> int \<Rightarrow> hash option"

definition v3ReadSlot0 :: "state_reader \<Rightarrow> address \<Rightarrow> int \<Rightarrow> fault + int \<times> int" where
  "v3ReadSlot0 read poolAddress slot =
     (case read poolAddress slot of
        None \<Rightarrow> Inl (Err ''read'')
      | Some data \<Rightarrow>
          let slot0Val = uint data;
              sqrtPriceX96 = slot0Val AND (push_bit 160 1 - 1);
              highBits = drop_bit 160 slot0Val;
              tickRaw = highBits AND 0xFFFFFF;
              tick = (if 2 ^ 23 \<le> tickRaw then tickRaw - 2 ^ 24 else tickRaw)
          in if sgn sqrtPriceX96 = 0 then Inl (Err ''zero sqrtPrice'')
             else if sqrtPriceX96 < algebraMinSqrtRatio \<or> algebraMaxSqrtRatio < sqrtPriceX96
             then Inl (Err ''sqrtPrice out of range'')
             else if sgn highBits = 0 then Inl (Err ''slot0 looks like address'')
             else if tick < algebraMinTick \<or> algebraMaxTick < tick then Inl (Err ''tick out of range'')
             else (case getSqrtRatioAtTick tick of
                     None \<Rightarrow> Inl Panic
                   | Some tickLowerSqrt \<Rightarrow>
                       if sqrtPriceX96 < tickLowerSqrt then Inl (Err ''below tick'')
                       else if tick < algebraMaxTick then
                         (case getSqrtRatioAtTick (tick + 1) of
                            None \<Rightarrow> Inl Panic
                          | Some tickUpperSqrt \<Rightarrow>
                              if tickUpperSqrt \<le> sqrtPriceX96 then Inl (Err ''above tick'')
                              else Inr (sqrtPriceX96, tick))
                       else Inr (sqrtPriceX96, tick)))"

fun first_layout :: "state_reader \<Rightarrow> address \<Rightarrow> v3_layout list \<Rightarrow> fault + v3_layout" where
  "first_layout read a [] = Inl (Err ''no valid V3 layout'')"
| "first_layout read a (l # ls) =
     (case v3ReadSlot0 read a (lay_slot0 l) of
        Inr _ \<Rightarrow> Inr l
      | Inl Panic \<Rightarrow> Inl Panic
      | Inl (Err _) \<Rightarrow> first_layout read a ls)"

definition v3ResolveLayout ::
  "keccak \<Rightarrow> (address \<Rightarrow> bool) \<Rightarrow> state_reader \<Rightarrow> address \<Rightarrow> fault + v3_layout" where
  "v3ResolveLayout keccak pharaohV3Pools read poolAddress =
     first_layout read poolAddress
       (if pharaohV3Pools poolAddress then [v3LayoutPharaohV2 keccak, v3LayoutPharaohV1 keccak]
        else [v3LayoutStandard, v3LayoutProxy, v3LayoutPangolinReward, v3LayoutPangolin])"

definition slot32 :: "int \<Rightarrow> fault + hash" where
  "slot32 v = (case bigIntTo32 v of None \<Rightarrow> Inl Panic | Some bs \<Rightarrow> Inr (be_word bs))"

type_synonym layout_cache = "address \<rightharpoonup> v3_layout_bytes"

definition v3_layout_to_bytes :: "v3_layout \<Rightarrow> fault + v3_layout_bytes" where
  "v3_layout_to_bytes l =
     (case (slot32 (lay_slot0 l), slot32 (lay_liquidity l), slot32 (lay_ticks l), slot32 (lay_bitmap l),
            case lay_feeSlot l of None \<Rightarrow> Inr 0 | Some f \<Rightarrow> slot32 f) of
        (Inr s, Inr q, Inr t, Inr b, Inr f) \<Rightarrow>
          Inr \<lparr>lb_slot0 = s, lb_liquidity = q, lb_ticks = t, lb_bitmap = b, lb_feeSlot = f,
               lb_hasFeeSlot = (lay_feeSlot l \<noteq> None), lb_heavyGas = lay_heavyGas l\<rparr>
      | _ \<Rightarrow> Inl Panic)"

definition v3GetLayoutBytes ::
  "keccak \<Rightarrow> (address \<Rightarrow> bool) \<Rightarrow> layout_cache \<Rightarrow> state_reader \<Rightarrow> address
    \<Rightarrow> (fault + v3_layout_bytes) \<times> layout_cache" where
  "v3GetLayoutBytes keccak pharaohV3Pools cache read poolAddress =
     (case cache poolAddress of
        Some lb \<Rightarrow> (Inr lb, cache)
      | None \<Rightarrow>
          (case v3ResolveLayout keccak pharaohV3Pools read poolAddress of
             Inl e \<Rightarrow> (Inl e, cache)
           | Inr layout \<Rightarrow>
               (case v3_layout_to_bytes layout of
                  Inl e \<Rightarrow> (Inl e, cache)
                | Inr lb \<Rightarrow> (Inr lb, cache(poolAddress \<mapsto> lb)))))"

subsection \<open>Reading a pool from storage\<close>

definition v3ReadSlot0Bytes :: "storage_reader \<Rightarrow> address \<Rightarrow> hash \<Rightarrow> (u256 \<times> int) option" where
  "v3ReadSlot0Bytes read addr slot =
     (let slot0Val = read addr slot;
          sqrtPriceX96 = slot0Val AND (push_bit 160 1 - 1);
          highBits = drop_bit 160 slot0Val;
          tickRaw = uint (take_bit 64 highBits) AND 0xFFFFFF;
          tick = (if 2 ^ 23 \<le> tickRaw then tickRaw - 2 ^ 24 else tickRaw)
      in if sqrtPriceX96 = 0 then None
         else if highBits = 0 then None
         else Some (sqrtPriceX96, tick))"

definition mask128U256 :: u256 where "mask128U256 = push_bit 128 1 - 1"

definition v3ReadLiquidityBytes :: "storage_reader \<Rightarrow> address \<Rightarrow> hash \<Rightarrow> u256" where
  "v3ReadLiquidityBytes read addr slot = read addr slot AND mask128U256"

definition v3ReadTickLiquidityNetBytes ::
  "keccak \<Rightarrow> storage_reader \<Rightarrow> address \<Rightarrow> hash \<Rightarrow> slot_cache \<Rightarrow> int \<Rightarrow> u256 \<times> slot_cache" where
  "v3ReadTickLiquidityNetBytes keccak read addr ticksSlot cache tickIdx =
     (case cachedKeccakSlotBytes keccak cache tickIdx ticksSlot of (baseSlot, cache') \<Rightarrow>
        let val = drop_bit 128 (read addr baseSlot) AND mask128U256
        in (if bit val 127 then val OR push_bit 128 u256MaxU else val, cache'))"

definition v3ReadBitmapWordBytes ::
  "keccak \<Rightarrow> storage_reader \<Rightarrow> address \<Rightarrow> hash \<Rightarrow> slot_cache \<Rightarrow> int \<Rightarrow> u256 \<times> slot_cache" where
  "v3ReadBitmapWordBytes keccak read addr bitmapSlot cache wordPos =
     (case cachedKeccakSlotBytes keccak cache wordPos bitmapSlot of (slotKey, cache') \<Rightarrow>
        (read addr slotKey, cache'))"

text \<open>Scan a range of bitmap words, keeping the non-zero ones.\<close>

fun load_words :: "(slot_cache \<Rightarrow> int \<Rightarrow> u256 \<times> slot_cache) \<Rightarrow> int list
    \<Rightarrow> (int \<rightharpoonup> u256) \<times> slot_cache \<Rightarrow> (int \<rightharpoonup> u256) \<times> slot_cache" where
  "load_words rd [] s = s"
| "load_words rd (w # ws) (m, cache) =
     (case rd cache w of (word, cache') \<Rightarrow>
        load_words rd ws (if word \<noteq> 0 then m(w \<mapsto> word) else m, cache'))"

fun load_ticks :: "(slot_cache \<Rightarrow> int \<Rightarrow> u256 \<times> slot_cache) \<Rightarrow> int list
    \<Rightarrow> (int \<times> u256) list \<times> slot_cache \<Rightarrow> (int \<times> u256) list \<times> slot_cache" where
  "load_ticks rd [] s = s"
| "load_ticks rd (t # ts) (al, cache) =
     (case rd cache t of (net, cache') \<Rightarrow> load_ticks rd ts (AList.update t net al, cache'))"

definition word_ticks :: "int \<Rightarrow> int \<Rightarrow> u256 \<Rightarrow> int list" where
  "word_ticks spacing wordPos word =
     map (\<lambda>b. to_int32 ((wordPos * 256 + int b) * spacing)) (filter (bit word) [0..<256])"

definition bitmap_radius :: "int \<Rightarrow> int" where
  "bitmap_radius spacing = (if spacing \<le> 2 then 500 else if spacing \<le> 5 then 300 else 200)"

definition center_word :: "int \<Rightarrow> int \<Rightarrow> int" where
  "center_word tick spacing =
     (let compressed = go_quot tick spacing;
          compressed' = (if tick < 0 \<and> go_rem tick spacing \<noteq> 0 then compressed - 1 else compressed)
      in to_int16 (drop_bit 8 compressed'))"

definition load_bitmap ::
  "(slot_cache \<Rightarrow> int \<Rightarrow> u256 \<times> slot_cache) \<Rightarrow> int \<Rightarrow> int \<Rightarrow> u256 \<Rightarrow> slot_cache
    \<Rightarrow> (int \<rightharpoonup> u256) \<times> int \<times> int \<times> slot_cache" where
  "load_bitmap rd tick spacing liquidity cache =
     (let centerWord = center_word tick spacing;
          radius = bitmap_radius spacing;
          minWord = to_int16 (centerWord - radius);
          maxWord = to_int16 (centerWord + radius);
          (words, cache1) = load_words rd [minWord..maxWord] (Map.empty, cache)
      in if (\<forall>w \<in> set [minWord..maxWord]. words w = None) \<and> liquidity \<noteq> 0 then
           let maxCompressed = go_quot algebraMaxTick spacing;
               fullRangeWord = to_int16 (drop_bit 8 maxCompressed)
           in if radius < to_int16 (fullRangeWord + 1) then
                let extMin = to_int16 (- fullRangeWord - 1);
                    extMax = to_int16 (fullRangeWord + 1);
                    (words1, cache2) = load_words rd [extMin..minWord - 1] (words, cache1);
                    (words2, cache3) = load_words rd [to_int16 (maxWord + 1)..extMax] (words1, cache2)
                in (words2, extMin, extMax, cache3)
              else (words, minWord, maxWord, cache1)
         else (words, minWord, maxWord, cache1))"

subsection \<open>The next initialized tick\<close>

definition v3Position :: "int \<Rightarrow> int \<times> nat" where
  "v3Position compressed =
     (let wordPos = to_int16 (drop_bit 8 compressed)
      in (wordPos, nat ((compressed - wordPos * 256) mod 256)))"

definition v3FloorDiv :: "int \<Rightarrow> int \<Rightarrow> int" where
  "v3FloorDiv a b =
     (let result = go_quot a b
      in if a XOR b < 0 \<and> result * b \<noteq> a then result - 1 else result)"

text \<open>\<open>BitLen() - 1\<close> of a non-zero word, and the loop over its limbs for the lowest bit.\<close>

definition top_bit :: "u256 \<Rightarrow> nat" where
  "top_bit w = hd (filter (bit w) (rev [0..<256]))"

definition low_bit :: "u256 \<Rightarrow> nat" where
  "low_bit w = hd (filter (bit w) [0..<256])"

definition v3_nextInitializedTick :: "v3_pool \<Rightarrow> int \<Rightarrow> bool \<Rightarrow> int \<times> bool \<times> bool" where
  "v3_nextInitializedTick p tick zeroForOne =
     (let compressed = v3FloorDiv tick (tickSpacing p)
      in if zeroForOne then
           (case v3Position compressed of (wordPos, bitPos) \<Rightarrow>
              if wordPos < bitmapMinWord p then (0, False, True)
              else
                let masked = get0 (bitmapWords p) wordPos AND (push_bit (bitPos + 1) 1 - 1)
                in if masked \<noteq> 0 then
                     (to_int32 ((compressed - (int bitPos - int (top_bit masked))) * tickSpacing p), True, False)
                   else (to_int32 ((compressed - int bitPos) * tickSpacing p), False, False))
         else
           (case v3Position (compressed + 1) of (wordPos, bitPos) \<Rightarrow>
              if bitmapMaxWord p < wordPos then (0, False, True)
              else
                let masked = get0 (bitmapWords p) wordPos AND (NOT (push_bit bitPos 1 - 1) AND u256MaxU)
                in if masked \<noteq> 0 then
                     (to_int32 ((compressed + 1 + (int (low_bit masked) - int bitPos)) * tickSpacing p), True, False)
                   else (to_int32 ((compressed + 1 + (255 - int bitPos)) * tickSpacing p), False, False)))"

definition clamp_tick :: "int \<Rightarrow> int" where
  "clamp_tick t =
     (let t1 = (if t < algebraMinTick then algebraMinTick else t)
      in if algebraMaxTick < t1 then algebraMaxTick else t1)"

subsection \<open>Pre-computed crossings\<close>

text \<open>
  The walk outward from the current tick: position, liquidity and price before an iteration.  The
  code repeats the scan of \<open>v3_nextInitializedTick\<close> in place.
\<close>

record v3_walk =
  w_tick :: int
  w_liq :: u256
  w_price :: u256

definition make_prestep ::
  "(u256 \<Rightarrow> u256 \<Rightarrow> u256 \<Rightarrow> u256) \<Rightarrow> v3_pool \<Rightarrow> bool \<Rightarrow> u256 \<Rightarrow> u256 \<Rightarrow> u256 \<Rightarrow> v3_prestep" where
  "make_prestep md p zeroForOne price sqrtPriceNext liq =
     (let amountIn = amount_in_to md price sqrtPriceNext liq zeroForOne;
          amountOut = amount_out_to md price sqrtPriceNext liq zeroForOne;
          feeAmount = mulDivRoundingUpU256 md amountIn (ucast (v3_fee p)) (fee_complement (v3_fee p))
      in \<lparr>sqrtPriceTarget = sqrtPriceNext, ps_amountIn = amountIn, ps_amountOut = amountOut,
          ps_feeAmount = feeAmount, totalCost = amountIn + feeAmount\<rparr>)"

definition cross_liquidity :: "v3_pool \<Rightarrow> bool \<Rightarrow> bool \<Rightarrow> int \<Rightarrow> u256 \<Rightarrow> u256" where
  "cross_liquidity p zeroForOne initialized nextTick liq =
     (if initialized then
        (let liqNet = get0 (map_of (tickLiquidityNet p)) nextTick
         in if zeroForOne then liq - liqNet else liq + liqNet)
      else liq)"

definition walk_next :: "v3_pool \<Rightarrow> bool \<Rightarrow> v3_walk \<Rightarrow> int \<Rightarrow> bool \<Rightarrow> v3_walk" where
  "walk_next p zeroForOne w nextTick initialized =
     \<lparr>w_tick = (if zeroForOne then nextTick - 1 else nextTick),
      w_liq = cross_liquidity p zeroForOne initialized nextTick (w_liq w),
      w_price = getSqrtRatioAtTickU256Compute nextTick\<rparr>"

fun pre_loop ::
  "(u256 \<Rightarrow> u256 \<Rightarrow> u256 \<Rightarrow> u256) \<Rightarrow> v3_pool \<Rightarrow> bool \<Rightarrow> nat \<Rightarrow> v3_walk
    \<Rightarrow> (int \<rightharpoonup> v3_prestep) \<Rightarrow> (int \<rightharpoonup> v3_prestep)" where
  "pre_loop md p z 0 w steps = steps"
| "pre_loop md p z (Suc n) w steps =
     (case v3_nextInitializedTick p (w_tick w) z of (next, initialized, outOfRange) \<Rightarrow>
        if outOfRange then steps
        else
          let nextTick = clamp_tick next;
              sqrtPriceNext = getSqrtRatioAtTickU256Compute nextTick;
              steps' = (if \<not> initialized \<and> w_liq w \<noteq> 0
                        then steps(nextTick \<mapsto> make_prestep md p z (w_price w) sqrtPriceNext (w_liq w))
                        else steps)
          in pre_loop md p z n (walk_next p z w nextTick initialized) steps')"

definition walk_start :: "v3_pool \<Rightarrow> v3_walk" where
  "walk_start p = \<lparr>w_tick = v3_tick p, w_liq = v3_liquidity p, w_price = v3_sqrtPriceX96 p\<rparr>"

definition precomputeSteps :: "(u256 \<Rightarrow> u256 \<Rightarrow> u256 \<Rightarrow> u256) \<Rightarrow> v3_pool \<Rightarrow> v3_pool" where
  "precomputeSteps md p =
     p\<lparr>preStepsDown := pre_loop md p True 500 (walk_start p) (preStepsDown p),
       preStepsUp := pre_loop md p False 500 (walk_start p) (preStepsUp p)\<rparr>"

subsection \<open>Construction\<close>

text \<open>
  \<open>fees\<close> is the registry of fees and tick spacings, \<open>pharaoh\<close> the set of pools with the ERC-7201
  layouts; \<open>order\<close> is the order in which Go's map iteration visits the non-empty bitmap words.
\<close>

record v3_caches =
  layouts :: layout_cache
  slots :: slot_cache

definition empty_v3_pool :: "address \<Rightarrow> 32 word \<Rightarrow> int \<Rightarrow> v3_pool" where
  "empty_v3_pool addr fee spacing =
     \<lparr>v3_addr = addr, v3_fee = fee, tickSpacing = spacing, v3_sqrtPriceX96 = 0, v3_tick = 0,
      v3_liquidity = 0, bitmapWords = Map.empty, bitmapMinWord = 0, bitmapMaxWord = 0,
      tickLiquidityNet = [], preStepsDown = Map.empty, preStepsUp = Map.empty, heavyGas = False\<rparr>"

definition dynamic_fee :: "storage_reader \<Rightarrow> address \<Rightarrow> v3_layout_bytes \<Rightarrow> 32 word \<Rightarrow> 32 word" where
  "dynamic_fee reader addr layout fee =
     (if lb_hasFeeSlot layout then
        (let storageFee = ucast (take_bit 64 (reader addr (lb_feeSlot layout)) AND 0xFFFFFF)
         in if 0 < storageFee then storageFee else fee)
      else fee)"

definition newV3Pool ::
  "(u256 \<Rightarrow> u256 \<Rightarrow> u256 \<Rightarrow> u256) \<Rightarrow> keccak \<Rightarrow> (address \<rightharpoonup> int \<times> int) \<Rightarrow> (address \<Rightarrow> bool)
    \<Rightarrow> ((int \<rightharpoonup> u256) \<Rightarrow> int list) \<Rightarrow> v3_caches \<Rightarrow> address \<Rightarrow> storage_reader
    \<Rightarrow> (fault + v3_pool option) \<times> v3_caches" where
  "newV3Pool md keccak fees pharaoh order caches addr reader =
     (case fees addr of
        None \<Rightarrow> (Inr None, caches)
      | Some (fee0, spacing) \<Rightarrow>
          let fee = word_of_int fee0;
              (lay, lc) = v3GetLayoutBytes keccak pharaoh (layouts caches)
                (\<lambda>a slot. Some (reader a (word_of_int slot))) addr;
              caches1 = caches\<lparr>layouts := lc\<rparr>
          in (case lay of
                Inl Panic \<Rightarrow> (Inl Panic, caches1)
              | Inl (Err _) \<Rightarrow> (Inr (Some (empty_v3_pool addr fee spacing)), caches1)
              | Inr layout \<Rightarrow>
                  let fee' = dynamic_fee reader addr layout fee
                  in (case v3ReadSlot0Bytes reader addr (lb_slot0 layout) of
                        None \<Rightarrow> (Inr None, caches1)
                      | Some (sqrtPriceX96, tick) \<Rightarrow>
                          let liquidity = v3ReadLiquidityBytes reader addr (lb_liquidity layout);
                              (words, minWord, maxWord, sc1) =
                                load_bitmap (v3ReadBitmapWordBytes keccak reader addr (lb_bitmap layout))
                                  tick spacing liquidity (slots caches1);
                              ticks = concat (map (\<lambda>w. word_ticks spacing w (get0 words w)) (order words));
                              (nets, sc2) =
                                load_ticks (v3ReadTickLiquidityNetBytes keccak reader addr (lb_ticks layout))
                                  ticks ([], sc1);
                              pool = \<lparr>v3_addr = addr, v3_fee = fee', tickSpacing = spacing,
                                v3_sqrtPriceX96 = sqrtPriceX96, v3_tick = tick, v3_liquidity = liquidity,
                                bitmapWords = words, bitmapMinWord = minWord, bitmapMaxWord = maxWord,
                                tickLiquidityNet = nets, preStepsDown = Map.empty, preStepsUp = Map.empty,
                                heavyGas = lb_heavyGas layout\<rparr>
                          in (Inr (Some (precomputeSteps md pool)), caches1\<lparr>slots := sc2\<rparr>))))"

subsection \<open>Quoting\<close>

definition evmWouldComplete :: "v3_pool \<Rightarrow> bool \<Rightarrow> bool" where
  "evmWouldComplete p zeroForOne =
     (let (gasPerTick, overheadGas) = (if heavyGas p then (55000, 400000) else (15000, 200000));
          rangeWords =
            (if zeroForOne then go_quot (go_quot (v3_tick p + algebraMaxTick) (tickSpacing p)) 256
             else go_quot (go_quot (algebraMaxTick - v3_tick p) (tickSpacing p)) 256);
          rangeWords' = (if rangeWords < 0 then 0 else rangeWords);
          tickGas = int (length (tickLiquidityNet p)) * gasPerTick;
          wordGas = rangeWords' * 7000
      in tickGas + wordGas + overheadGas < 5000000)"

record v3_swap =
  s_price :: u256
  s_liq :: u256
  s_rem :: u256
  s_out :: u256
  s_tick :: int
  s_gas :: int

definition price_limit :: "bool \<Rightarrow> u256" where
  "price_limit zeroForOne = (if zeroForOne then u256MinSqr + 1 else u256MaxSqr - 1)"

definition step_target :: "bool \<Rightarrow> u256 \<Rightarrow> u256" where
  "step_target zeroForOne nextPrice =
     (if zeroForOne then (if nextPrice < price_limit True then price_limit True else nextPrice)
      else (if price_limit False < nextPrice then price_limit False else nextPrice))"

text \<open>One computed step; \<open>tickOf\<close> is \<open>getTickAtSqrtRatioU256\<close> in the code.\<close>

definition v3_std_step ::
  "(u256 \<Rightarrow> int) \<Rightarrow> (u256 \<Rightarrow> u256 \<Rightarrow> u256 \<Rightarrow> u256) \<Rightarrow> v3_pool \<Rightarrow> bool \<Rightarrow> int \<Rightarrow> bool \<Rightarrow> v3_swap \<Rightarrow> v3_swap" where
  "v3_std_step tickOf md p z nextTick initialized s =
     (let sqrtPriceNextTickX96 = getSqrtRatioAtTickU256Compute nextTick;
          (newPrice, ain, aout, fee) =
            computeSwapStepU256 md (s_price s) (step_target z sqrtPriceNextTickX96) (s_liq s) (s_rem s) (v3_fee p);
          s1 = s\<lparr>s_rem := s_rem s - ain - fee, s_out := s_out s + aout, s_price := newPrice\<rparr>
      in if newPrice = sqrtPriceNextTickX96 then
           s1\<lparr>s_liq := cross_liquidity p z initialized nextTick (s_liq s),
              s_tick := (if z then nextTick - 1 else nextTick)\<rparr>
         else s1\<lparr>s_tick := tickOf newPrice\<rparr>)"

definition v3_pre_step :: "bool \<Rightarrow> int \<Rightarrow> v3_prestep \<Rightarrow> v3_swap \<Rightarrow> v3_swap" where
  "v3_pre_step z nextTick ps s =
     s\<lparr>s_rem := s_rem s - ps_amountIn ps - ps_feeAmount ps, s_out := s_out s + ps_amountOut ps,
       s_price := sqrtPriceTarget ps, s_tick := (if z then nextTick - 1 else nextTick)\<rparr>"

definition v3_iter ::
  "(u256 \<Rightarrow> int) \<Rightarrow> (u256 \<Rightarrow> u256 \<Rightarrow> u256 \<Rightarrow> u256) \<Rightarrow> v3_pool \<Rightarrow> bool \<Rightarrow> v3_swap \<Rightarrow> u256 + v3_swap" where
  "v3_iter tickOf md p z s =
     (case v3_nextInitializedTick p (s_tick s) z of (next, initialized, outOfRange) \<Rightarrow>
        if outOfRange then
          Inl (if s_liq s = 0 \<and> evmWouldComplete p z then s_out s else 0)
        else
          let gasPerInit = (if heavyGas p then 55000 else 25000);
              gas = s_gas s + (if initialized then gasPerInit else 7000)
          in if 4800000 < gas then Inl 0
             else
               let nextTick = clamp_tick next;
                   s1 = s\<lparr>s_gas := gas\<rparr>;
                   pre = (if z then preStepsDown p else preStepsUp p) nextTick
               in (case (initialized, pre) of
                     (False, Some ps) \<Rightarrow>
                       if \<not> s_rem s < totalCost ps then Inr (v3_pre_step z nextTick ps s1)
                       else Inr (v3_std_step tickOf md p z nextTick initialized s1)
                   | _ \<Rightarrow> Inr (v3_std_step tickOf md p z nextTick initialized s1)))"

fun v3_loop ::
  "(u256 \<Rightarrow> int) \<Rightarrow> (u256 \<Rightarrow> u256 \<Rightarrow> u256 \<Rightarrow> u256) \<Rightarrow> v3_pool \<Rightarrow> bool \<Rightarrow> nat \<Rightarrow> v3_swap \<Rightarrow> u256" where
  "v3_loop tickOf md p z 0 s = (if s_rem s = 0 \<or> s_price s = price_limit z then s_out s else 0)"
| "v3_loop tickOf md p z (Suc n) s =
     (if s_rem s = 0 \<or> s_price s = price_limit z then s_out s
      else (case v3_iter tickOf md p z s of Inl v \<Rightarrow> v | Inr s' \<Rightarrow> v3_loop tickOf md p z n s'))"

definition v3_Quote_with ::
  "(u256 \<Rightarrow> int) \<Rightarrow> (u256 \<Rightarrow> u256 \<Rightarrow> u256 \<Rightarrow> u256) \<Rightarrow> v3_pool \<Rightarrow> u256 \<Rightarrow> address \<Rightarrow> address \<Rightarrow> u256" where
  "v3_Quote_with tickOf md p amountIn tokenIn tokenOut =
     (let zeroForOne = tokenIn < tokenOut
      in if amountIn = 0 \<or> v3_sqrtPriceX96 p = 0 then 0
         else v3_loop tickOf md p zeroForOne 500
                \<lparr>s_price = v3_sqrtPriceX96 p, s_liq = v3_liquidity p, s_rem = amountIn, s_out = 0,
                 s_tick = v3_tick p, s_gas = 400000\<rparr>)"

definition v3_Quote ::
  "(u256 \<Rightarrow> u256 \<Rightarrow> u256 \<Rightarrow> u256) \<Rightarrow> v3_pool \<Rightarrow> u256 \<Rightarrow> address \<Rightarrow> address \<Rightarrow> u256" where
  "v3_Quote md = v3_Quote_with (\<lambda>price. fst (getTickAtSqrtRatioU256 Map.empty price)) md"

subsection \<open>The tick recomputed after a partial step is never read\<close>

lemma v3_std_step_ends:
  assumes "s_price (v3_std_step tickOf md p z nextTick ini s) \<noteq> getSqrtRatioAtTickU256Compute nextTick"
  shows "s_rem (v3_std_step tickOf md p z nextTick ini s) = 0
    \<or> s_price (v3_std_step tickOf md p z nextTick ini s) = price_limit z"
proof -
  define np where "np = getSqrtRatioAtTickU256Compute nextTick"
  obtain newPrice ain aout fee where step:
    "computeSwapStepU256 md (s_price s) (step_target z np) (s_liq s) (s_rem s) (v3_fee p)
      = (newPrice, ain, aout, fee)"
    by (metis prod_cases4)
  have ne: "newPrice \<noteq> np"
    using assms step by (simp add: v3_std_step_def Let_def np_def split: if_splits)
  show ?thesis
  proof (cases "newPrice = step_target z np")
    case True
    then show ?thesis
      using ne step by (auto simp: v3_std_step_def Let_def np_def step_target_def split: if_splits)
  next
    case False
    then have "s_rem s - ain - fee = 0" using computeSwapStepU256_partial [OF step] by blast
    then show ?thesis
      using ne step by (simp add: v3_std_step_def Let_def np_def)
  qed
qed

lemma v3_std_step_tickOf:
  "v3_std_step tickOf md p z nextTick ini s = v3_std_step tickOf' md p z nextTick ini s
   \<or> s_price (v3_std_step tickOf md p z nextTick ini s) \<noteq> getSqrtRatioAtTickU256Compute nextTick
     \<and> s_price (v3_std_step tickOf' md p z nextTick ini s) = s_price (v3_std_step tickOf md p z nextTick ini s)
     \<and> s_rem (v3_std_step tickOf' md p z nextTick ini s) = s_rem (v3_std_step tickOf md p z nextTick ini s)
     \<and> s_out (v3_std_step tickOf' md p z nextTick ini s) = s_out (v3_std_step tickOf md p z nextTick ini s)"
  by (simp add: v3_std_step_def Let_def split: prod.splits)

lemma v3_loop_ended:
  "s_rem s = 0 \<or> s_price s = price_limit z \<Longrightarrow> v3_loop tickOf md p z n s = s_out s"
  by (cases n) auto

lemma v3_iter_tickOf:
  "v3_iter tickOf md p z s = v3_iter tickOf' md p z s
   \<or> (\<exists>t u. v3_iter tickOf md p z s = Inr t \<and> v3_iter tickOf' md p z s = Inr u
        \<and> (s_rem t = 0 \<or> s_price t = price_limit z) \<and> s_rem u = s_rem t \<and> s_price u = s_price t
        \<and> s_out u = s_out t)"
proof -
  obtain nx ini oor where nt: "v3_nextInitializedTick p (s_tick s) z = (nx, ini, oor)"
    by (metis prod_cases3)
  define s1 where "s1 = s\<lparr>s_gas := s_gas s + (if ini then if heavyGas p then 55000 else 25000 else 7000)\<rparr>"
  let ?a = "v3_std_step tickOf md p z (clamp_tick nx) ini s1"
  let ?b = "v3_std_step tickOf' md p z (clamp_tick nx) ini s1"
  have "v3_iter tickOf md p z s = v3_iter tickOf' md p z s
    \<or> v3_iter tickOf md p z s = Inr ?a \<and> v3_iter tickOf' md p z s = Inr ?b"
    by (auto simp: v3_iter_def Let_def nt s1_def split: option.splits bool.splits)
  then show ?thesis
    using v3_std_step_tickOf [of tickOf md p z "clamp_tick nx" ini s1 tickOf']
      v3_std_step_ends [of tickOf md p z "clamp_tick nx" ini s1]
    by auto
qed

lemma v3_loop_tickOf: "v3_loop tickOf md p z n s = v3_loop tickOf' md p z n s"
proof (induction n arbitrary: s)
  case 0
  then show ?case by simp
next
  case (Suc n)
  from v3_iter_tickOf [of tickOf md p z s tickOf'] show ?case
  proof
    assume "v3_iter tickOf md p z s = v3_iter tickOf' md p z s"
    with Suc show ?thesis by (simp split: sum.splits)
  next
    assume "\<exists>t u. v3_iter tickOf md p z s = Inr t \<and> v3_iter tickOf' md p z s = Inr u
        \<and> (s_rem t = 0 \<or> s_price t = price_limit z) \<and> s_rem u = s_rem t \<and> s_price u = s_price t
        \<and> s_out u = s_out t"
    then show ?thesis by (auto simp: v3_loop_ended)
  qed
qed

lemma v3_Quote_tickOf: "v3_Quote_with tickOf md p x a b = v3_Quote md p x a b"
  unfolding v3_Quote_def v3_Quote_with_def Let_def by (simp add: v3_loop_tickOf [of tickOf])

end
