(* ===== verification/Tick_Monotone.thy ===== *)
theory Tick_Monotone
  imports Complex_Main Shared_Math
begin

text \<open>
  Monotonicity of the tick table of \<open>formulas/shared.go\<close> and \<open>shared_u256.go\<close>.
  The square-root price grows strictly with the tick.  The table loop computes, with at most one unit of
  error per factor, the exact product of the factors of the set bits; that product falls by a factor
  of at least \<open>0.99996\<close> when the tick distance grows by one, whatever bits the carry changes.
\<close>

subsection \<open>Exact products over the bits of a number\<close>

fun bit_product :: "int list \<Rightarrow> int \<Rightarrow> real" where
  "bit_product [] u = 1"
| "bit_product (m # ms) u = (if odd u then m / 2 ^ 128 else 1) * bit_product ms (u div 2)"

text \<open>\<open>carry_ok ms R\<close>: the bounds \<open>R\<close> on the drop at each bit survive a carry through the bits below.\<close>

fun carry_ok :: "int list \<Rightarrow> int list \<Rightarrow> bool" where
  "carry_ok [m] [R] = (0 < m \<and> m \<le> R)"
| "carry_ok (m # ms) (R # R' # Rs) = (0 < m \<and> m \<le> R \<and> R' * 2 ^ 128 \<le> R * m \<and> carry_ok ms (R' # Rs))"
| "carry_ok _ _ = False"

lemma bit_product_pos: "\<forall>m \<in> set ms. 0 < m \<Longrightarrow> 0 < bit_product ms u"
  by (induction ms arbitrary: u) simp_all

lemma carry_ok_pos: "carry_ok ms Rs \<Longrightarrow> \<forall>m \<in> set ms. 0 < m"
  by (induction ms Rs rule: carry_ok.induct) simp_all

lemma bit_product_drop:
  assumes "carry_ok ms Rs" and "0 \<le> u" and "u + 1 < 2 ^ length ms"
  shows "bit_product ms (u + 1) \<le> real_of_int (hd Rs) / 2 ^ 128 * bit_product ms u"
  using assms
proof (induction ms Rs arbitrary: u rule: carry_ok.induct)
  case (1 m R)
  then have "u = 0" by simp
  with 1 show ?case by simp
next
  case (2 m ms R R' Rs)
  define P where "P = bit_product ms (u div 2)"
  have P: "0 < P" unfolding P_def using 2 carry_ok_pos [of ms "R' # Rs"] by (intro bit_product_pos) simp
  show ?case
  proof (cases "even u")
    case True
    then have h: "(u + 1) div 2 = u div 2" by presburger
    have "real_of_int m * P \<le> real_of_int R * P" using 2 P by (intro mult_right_mono) simp_all
    with True show ?thesis by (simp add: P_def h divide_right_mono)
  next
    case False
    then have h: "(u + 1) div 2 = u div 2 + 1" by presburger
    have "u div 2 + 1 < 2 ^ length ms" using 2(4) False by simp presburger
    then have "bit_product ms (u div 2 + 1) \<le> R' / 2 ^ 128 * P"
      using 2 unfolding P_def by simp
    also have "\<dots> \<le> (R / 2 ^ 128) * (m / 2 ^ 128) * P"
    proof -
      have "real_of_int (R' * 2 ^ 128) \<le> real_of_int (R * m)"
        using 2 by (simp only: carry_ok.simps of_int_le_iff)
      then have "real_of_int R' / 2 ^ 128 \<le> (R / 2 ^ 128) * (m / 2 ^ 128)"
        by (simp add: field_simps)
      then show ?thesis using P by (intro mult_right_mono) simp_all
    qed
    finally show ?thesis using False by (simp add: P_def h)
  qed
qed simp_all

subsection \<open>The rounded loop\<close>

lemma magic_fold_product:
  assumes "\<forall>m \<in> set ms. 0 \<le> m \<and> m \<le> 2 ^ 128"
    and "X - k \<le> real_of_int r" and "real_of_int r \<le> X" and "0 \<le> k"
  shows "X * bit_product ms (t div 2 ^ j) - (k + length ms)
      \<le> real_of_int (foldl (magic_step t) r (zip (map (\<lambda>i. 2 ^ i) [j..<j + length ms]) ms))
    \<and> real_of_int (foldl (magic_step t) r (zip (map (\<lambda>i. 2 ^ i) [j..<j + length ms]) ms))
      \<le> X * bit_product ms (t div 2 ^ j)"
  using assms
proof (induction ms arbitrary: X k r j)
  case Nil
  then show ?case by simp
next
  case (Cons m ms)
  define q where "q = real_of_int m / 2 ^ 128"
  have m: "0 \<le> real_of_int m" "m \<le> 2 ^ 128" using Cons.prems by simp_all
  then have "real_of_int m \<le> 2 ^ 128" by (metis of_int_le_iff of_int_numeral of_int_power)
  then have q: "0 \<le> q" "q \<le> 1" using m by (simp_all add: q_def)
  define c where "c = (if odd (t div 2 ^ j) then q else 1)"
  have c: "0 \<le> c" "c \<le> 1" using q by (simp_all add: c_def)
  define r' where "r' = magic_step t r (2 ^ j, m)"
  have bit: "t AND 2 ^ j \<noteq> 0 \<longleftrightarrow> odd (t div 2 ^ j)"
    by (simp add: and_exp_eq_0_iff_not_bit bit_iff_odd)
  have r': "real_of_int r * c - 1 \<le> real_of_int r'" "real_of_int r' \<le> real_of_int r * c"
  proof -
    have "real_of_int (drop_bit 128 (r * m)) = \<lfloor>real_of_int r * q\<rfloor>"
      using floor_divide_of_int_eq [where ?'a = real, of "r * m" "2 ^ 128"]
      by (simp add: drop_bit_eq_div q_def)
    then have "real_of_int r * q - 1 \<le> real_of_int (drop_bit 128 (r * m))"
      "real_of_int (drop_bit 128 (r * m)) \<le> real_of_int r * q" by linarith+
    then show "real_of_int r * c - 1 \<le> real_of_int r'" "real_of_int r' \<le> real_of_int r * c"
      using bit by (auto simp: r'_def magic_step_def c_def)
  qed
  have "(X - k) * c \<le> real_of_int r * c" "real_of_int r * c \<le> X * c"
    using Cons.prems c by (auto intro: mult_right_mono)
  moreover have "k * c \<le> k" using Cons.prems c by (simp add: mult_left_le)
  ultimately have "X * c - (k + 1) \<le> real_of_int r'" "real_of_int r' \<le> X * c"
    using r' by (auto simp: algebra_simps)
  note IH = Cons.IH [OF _ this, of "Suc j"]
  have e: "X * bit_product (m # ms) (t div 2 ^ j) = X * c * bit_product ms (t div 2 ^ Suc j)"
    by (simp add: c_def q_def zdiv_zmult2_eq mult.commute [of 2 "2 ^ j"])
  have z: "zip (map (\<lambda>i. 2 ^ i) [j..<j + length (m # ms)]) (m # ms)
      = (2 ^ j, m) # zip (map (\<lambda>i. 2 ^ i) [Suc j..<Suc j + length ms]) ms"
    by (simp add: upt_rec [of j] del: upt_Suc)
  from IH Cons.prems show ?case
    unfolding e z by (simp add: r'_def [symmetric] algebra_simps)
qed

subsection \<open>Strict monotonicity\<close>

definition all_magics :: "int list" where
  "all_magics = 0xfffcb933bd6fad37aa2d162d1a594001 # map snd sqrt_magics"

definition drop_bounds :: "int list" where
  "drop_bounds = [0xfffcb933bd6fad37aa2d162d1a5b6358, 0xfff97272373d413259a4699058104488,
    0xfff2e50f5f656932ef12357cf3ca210c, 0xffe5caca7e10e4e61c3624eaa0963ff4,
    0xffcb9843d60f6159c9db58835c94892f, 0xff973b41fa98c081472e6896dfb4773b,
    0xff2ea16466c96a3843ec78b326b749fc, 0xfe5dee046a99a2a811c461f1969e5030,
    0xfcbe86c7900a88aedcffc83b479cc008, 0xf987a7253ac413176f2b074cf78373d8,
    0xf3392b0822b70005940c7a398e4d78fa, 0xe7159475a2c29b7443b29c7fa6ea77eb,
    0xd097f3bdfd2022b8845ad8f792ac1622, 0xa9f746462d870fdf8a65dc1f90e1cd4a,
    0x70d869a156d2a1b890bb3df62bb0243b, 0x31be135f97d08fd981231505543039ff,
    0x9aa508b5b7a84e1c677de54f3e9b073, 0x5d6af8dedb81196699c329225ee6cc,
    0x2216e584f5fa1ea926041bedfe98, 0x48a170391f7dc42444e8fa2]"

lemma magics_carry_ok: "carry_ok all_magics drop_bounds"
  by (simp add: all_magics_def drop_bounds_def sqrt_magics_def)

lemma sqrt_magics_zip: "sqrt_magics = zip (map (\<lambda>i. 2 ^ i) [1..<1 + length (map snd sqrt_magics)]) (map snd sqrt_magics)"
  by (simp add: sqrt_magics_def upt_rec)

lemma tick_ratio_product:
  "2 ^ 128 * bit_product all_magics t - 19 \<le> real_of_int (tick_ratio t)"
  "real_of_int (tick_ratio t) \<le> 2 ^ 128 * bit_product all_magics t"
proof -
  define r0 :: int where "r0 = (if t AND 1 \<noteq> 0 then 0xfffcb933bd6fad37aa2d162d1a594001 else push_bit 128 1)"
  have "t AND 1 \<noteq> 0 \<longleftrightarrow> odd t" by (simp add: and_one_eq odd_iff_mod_2_eq_one)
  then have X: "2 ^ 128 * bit_product all_magics t = real_of_int r0 * bit_product (map snd sqrt_magics) (t div 2 ^ 1)"
    by (simp add: all_magics_def r0_def push_bit_eq_mult)
  have small: "\<forall>m \<in> set (map snd sqrt_magics). 0 \<le> m \<and> m \<le> 2 ^ 128"
    by (simp add: sqrt_magics_def)
  have len: "length sqrt_magics = 19" by (simp add: sqrt_magics_def)
  have "tick_ratio t = foldl (magic_step t) r0
      (zip (map (\<lambda>i. 2 ^ i) [1..<1 + length (map snd sqrt_magics)]) (map snd sqrt_magics))"
    unfolding tick_ratio_def r0_def [symmetric] by (subst sqrt_magics_zip) (rule refl)
  then show "2 ^ 128 * bit_product all_magics t - 19 \<le> real_of_int (tick_ratio t)"
    "real_of_int (tick_ratio t) \<le> 2 ^ 128 * bit_product all_magics t"
    using magic_fold_product [OF small, of "real_of_int r0" 0 r0 t 1] unfolding X by (simp_all add: len)
qed

lemma tick_ratio_drop:
  assumes "0 \<le> t" and "t + 1 < 2 ^ 20"
  shows "tick_ratio (t + 1) + 2 ^ 36 \<le> tick_ratio t"
proof -
  define P where "P = bit_product all_magics t"
  have len: "length all_magics = 20" by (simp add: all_magics_def sqrt_magics_def)
  have "bit_product all_magics (t + 1) \<le> real_of_int (hd drop_bounds) / 2 ^ 128 * P"
    using bit_product_drop [OF magics_carry_ok assms(1)] assms(2) by (simp add: P_def len)
  then have "real_of_int (tick_ratio (t + 1)) \<le> real_of_int (hd drop_bounds) * P"
    using tick_ratio_product(2) [of "t + 1"] by simp
  also have "\<dots> \<le> (2 ^ 128 - 2 ^ 113) * P"
  proof (rule mult_right_mono)
    show "0 \<le> P" unfolding P_def
      using bit_product_pos carry_ok_pos [OF magics_carry_ok] less_imp_le by blast
  qed (simp add: drop_bounds_def)
  finally have "real_of_int (tick_ratio (t + 1)) \<le> 2 ^ 128 * P - (2 ^ 128 * P) / 2 ^ 15"
    by (simp add: algebra_simps)
  moreover have "2 ^ 128 * P - 19 \<le> real_of_int (tick_ratio t)"
    "real_of_int (tick_ratio t) \<le> 2 ^ 128 * P" "2 ^ 52 \<le> real_of_int (tick_ratio t)"
    using tick_ratio_product [of t] tick_ratio_bounds(1) [of t] unfolding P_def by simp_all
  ultimately have "real_of_int (tick_ratio (t + 1) + 2 ^ 36) \<le> real_of_int (tick_ratio t)"
    by simp
  then show ?thesis by (simp only: of_int_le_iff)
qed

lemma ceil_div_gap:
  fixes d p q :: int
  assumes "0 < d" and "p + d \<le> q"
  shows "ceil_div p d < ceil_div q d"
proof -
  have "(- q) div d \<le> (- p - d) div d" using assms by (intro zdiv_mono1) simp_all
  also have "\<dots> = (- p) div d - 1"
    using div_mult_self2 [of d "- p" "- 1"] assms(1) by simp
  finally show ?thesis by (simp add: ceil_div_def)
qed

definition tick_price_base :: "int \<Rightarrow> int" where
  "tick_price_base t = (if 0 < t then maxUint256 div tick_ratio t else tick_ratio (- t))"

lemma uint_sqrtRatio:
  assumes "- (2 ^ 20) < t" and "t < 2 ^ 20"
  shows "uint (getSqrtRatioAtTickU256Compute t) = ceil_div (tick_price_base t) (2 ^ 32)"
proof -
  have a: "abs_tick t = (if 0 < t then t else - t)"
    using assms by (auto simp: abs_tick_def to_int32_def)
  have T: "0 < tick_ratio u" for u using tick_ratio_bounds(1) [of u] by simp
  have "Some (uint (getSqrtRatioAtTickU256Compute t)) = getSqrtRatioAtTick t"
    by (rule getSqrtRatioAtTickU256Compute_refines [symmetric])
  also have "\<dots> = Some (ceil_div (tick_price_base t) (2 ^ 32))"
    using ceil_div_alt [of "2 ^ 32" "tick_price_base t", symmetric] T
    by (simp add: getSqrtRatioAtTick_def Let_def push_bit_eq_mult drop_bit_eq_div
      sgn_0_0 ceil_div_def tick_price_base_def a)
  finally show ?thesis by simp
qed

lemma recip_gap:
  fixes M a b :: int
  assumes "0 < b" and "b + 2 ^ 36 \<le> a" and "a \<le> 2 ^ 128" and "M = maxUint256"
  shows "M div a + 2 ^ 33 \<le> M div b"
proof -
  define q where "q = M div a"
  have a: "0 < a" using assms by simp
  have "q * a = M - M mod a" unfolding q_def by (rule minus_mod_eq_div_mult [symmetric])
  then have q: "q * a \<le> M" using pos_mod_sign [OF a, of M] by linarith
  have "2 ^ 128 - 1 \<le> q"
  proof -
    have "M div 2 ^ 128 \<le> q" unfolding q_def using assms a by (intro zdiv_mono2) (simp_all add: maxUint256_def)
    then show ?thesis using assms by (simp add: maxUint256_def)
  qed
  have "(q + 2 ^ 33) * b \<le> (q + 2 ^ 33) * (a - 2 ^ 36)"
    using assms \<open>2 ^ 128 - 1 \<le> q\<close> by (intro mult_left_mono) simp_all
  also have "\<dots> \<le> q * a"
    using assms \<open>2 ^ 128 - 1 \<le> q\<close> by (simp add: algebra_simps)
  finally have "(q + 2 ^ 33) * b \<le> M" using q by linarith
  then have "(q + 2 ^ 33) * b div b \<le> M div b" using assms by (intro zdiv_mono1) simp_all
  then show ?thesis using assms by (simp add: q_def)
qed

theorem sqrtRatio_step:
  assumes "- (2 ^ 20) < t" and "t + 1 < 2 ^ 20"
  shows "getSqrtRatioAtTickU256Compute t < getSqrtRatioAtTickU256Compute (t + 1)"
proof -
  have gap: "tick_price_base t + 2 ^ 32 \<le> tick_price_base (t + 1)"
  proof -
    consider "t < 0" | "t = 0" | "0 < t" by linarith
    then show ?thesis
    proof cases
      case 1
      then show ?thesis using assms tick_ratio_drop [of "- (t + 1)"] by (simp add: tick_price_base_def)
    next
      case 2
      have "tick_ratio 0 = 2 ^ 128"
        by (simp add: tick_ratio_def sqrt_magics_def magic_step_def push_bit_eq_mult)
      with 2 show ?thesis
        using tick_ratio_drop [of 0] tick_ratio_bounds(1) [of 1] recip_gap [of "tick_ratio 1" "2 ^ 128" maxUint256]
        by (simp add: tick_price_base_def maxUint256_def)
    next
      case 3
      then show ?thesis
        using assms tick_ratio_drop [of t] tick_ratio_bounds(1) [of "t + 1"] tick_ratio_bounds(2) [of t]
          recip_gap [of "tick_ratio (t + 1)" "tick_ratio t" maxUint256]
        by (simp add: tick_price_base_def)
    qed
  qed
  then show ?thesis
    using assms ceil_div_gap [OF _ gap] by (simp add: word_less_def uint_sqrtRatio)
qed

lemma sqrtRatio_strict_mono:
  assumes "- (2 ^ 20) < t" and "t < u" and "u < 2 ^ 20"
  shows "getSqrtRatioAtTickU256Compute t < getSqrtRatioAtTickU256Compute u"
proof -
  have "getSqrtRatioAtTickU256Compute t < getSqrtRatioAtTickU256Compute (t + int (Suc n))"
    if "t + int (Suc n) < 2 ^ 20" for n
    using that
  proof (induction n)
    case 0
    then show ?case using assms sqrtRatio_step [of t] by simp
  next
    case (Suc n)
    have "getSqrtRatioAtTickU256Compute (t + int (Suc n)) < getSqrtRatioAtTickU256Compute (t + int (Suc n) + 1)"
      using Suc.prems assms by (intro sqrtRatio_step) simp_all
    with Suc show ?case by (simp add: algebra_simps)
  qed
  from this [of "nat (u - t - 1)"] assms show ?thesis by simp
qed

lemma sqrtRatio_le_iff:
  assumes "- (2 ^ 20) < t" "t < 2 ^ 20" "- (2 ^ 20) < u" "u < 2 ^ 20"
  shows "getSqrtRatioAtTickU256Compute t \<le> getSqrtRatioAtTickU256Compute u \<longleftrightarrow> t \<le> u"
  using assms sqrtRatio_strict_mono [of t u] sqrtRatio_strict_mono [of u t]
  by (metis linorder_not_less order.strict_iff_order linorder_neqE)
end
