(* ===== verification/V3_Lossless.thy ===== *)
theory V3_Lossless
  imports V3_Pool Tick_Monotone
begin

text \<open>
  What \<open>nextInitializedTick\<close> of \<open>formulas/pool_v3.go\<close> finds, and the claim of its comments that the
  pre-computed crossings are lossless: with them a quote is the number it is without them.
\<close>

subsection \<open>The scan for the next initialized tick\<close>

lemma v3FloorDiv_div: "0 < b \<Longrightarrow> v3FloorDiv a b = a div b"
proof -
  assume b: "0 < b"
  have "a XOR b < 0 \<longleftrightarrow> a < 0" using b by (simp add: xor_negative_int_iff)
  moreover have "go_quot a b * b \<noteq> a \<longleftrightarrow> go_rem a b \<noteq> 0"
    by (auto simp: go_rem_def mult.commute)
  ultimately show ?thesis using go_quot_floor [OF b, of a] by (simp add: v3FloorDiv_def Let_def)
qed

lemma bit_lt_256: "bit (w :: u256) i \<Longrightarrow> i < 256"
  using bit_imp_le_length [of w i] by simp

lemma word_has_bit: "(w :: u256) \<noteq> 0 \<Longrightarrow> \<exists>i. bit w i"
  by (auto simp: bit_eq_iff)

lemma top_bit_in: "w \<noteq> 0 \<Longrightarrow> bit w (top_bit w) \<and> top_bit w < 256"
proof -
  assume "w \<noteq> 0"
  then obtain i where "bit w i" "i < 256" using word_has_bit bit_lt_256 by blast
  then have "filter (bit w) (rev [0..<256]) \<noteq> []"
    by (simp only: filter_empty_conv set_rev set_upt) auto
  from hd_in_set [OF this] show ?thesis unfolding top_bit_def by simp
qed

lemma low_bit_in: "w \<noteq> 0 \<Longrightarrow> bit w (low_bit w) \<and> low_bit w < 256"
proof -
  assume "w \<noteq> 0"
  then obtain i where "bit w i" "i < 256" using word_has_bit bit_lt_256 by blast
  then have "filter (bit w) [0..<256] \<noteq> []"
    by (simp only: filter_empty_conv set_upt) auto
  from hd_in_set [OF this] show ?thesis unfolding low_bit_def by simp
qed

lemma hd_filter_least:
  assumes "sorted xs" and "x \<in> set xs" and "P x"
  shows "hd (filter P xs) \<le> x"
  using assms by (induction xs) auto

lemma low_bit_least: "bit w i \<Longrightarrow> i < 256 \<Longrightarrow> low_bit w \<le> i"
  unfolding low_bit_def by (rule hd_filter_least) simp_all

lemma hd_filter_greatest:
  assumes "sorted xs" and "x \<in> set xs" and "P x"
  shows "x \<le> hd (filter P (rev xs))"
  using assms
proof (induction xs rule: rev_induct)
  case (snoc y ys)
  then show ?case by (auto simp: sorted_append)
qed simp

lemma top_bit_greatest: "bit w i \<Longrightarrow> i < 256 \<Longrightarrow> i \<le> top_bit w"
  unfolding top_bit_def by (rule hd_filter_greatest) simp_all

lemma bit_below_mask: "bit ((w :: u256) AND (push_bit n 1 - 1)) i \<longleftrightarrow> bit w i \<and> i < n"
  using bit_lt_256 [of w i]
  by (auto simp: push_bit_eq_mult mask_eq_exp_minus_1 [symmetric] bit_simps)

lemma bit_above_mask:
  "bit ((w :: u256) AND (NOT (push_bit n 1 - 1) AND u256MaxU)) i \<longleftrightarrow> bit w i \<and> n \<le> i"
proof -
  have "u256MaxU = - 1" by (simp add: u256MaxU_def)
  show ?thesis
    unfolding \<open>u256MaxU = - 1\<close> using bit_lt_256 [of w i]
    by (auto simp: push_bit_eq_mult mask_eq_exp_minus_1 [symmetric] bit_simps)
qed

definition tick_set :: "v3_pool \<Rightarrow> int \<Rightarrow> bool" where
  "tick_set p c = (case v3Position c of (w, b) \<Rightarrow> bit (get0 (bitmapWords p) w) b)"

lemma v3Position_split:
  assumes "- (2 ^ 22) \<le> c" and "c < 2 ^ 22"
  shows "v3Position c = (c div 256, nat (c mod 256))"
proof -
  have "to_int16 (c div 256) = c div 256"
    using assms by (intro to_int16_id) simp_all
  moreover have "c - c div 256 * 256 = c mod 256" by (simp add: minus_div_mult_eq_mod)
  ultimately show ?thesis by (simp add: v3Position_def drop_bit_eq_div Let_def)
qed

lemma tick_set_word:
  assumes "- (2 ^ 22) \<le> 256 * w + int b" and "256 * w + int b < 2 ^ 22" and "b < 256"
  shows "tick_set p (256 * w + int b) \<longleftrightarrow> bit (get0 (bitmapWords p) w) b"
  using assms by (simp add: tick_set_def v3Position_split)

lemma next_down:
  assumes ts: "0 < tickSpacing p" "tickSpacing p \<le> 2 ^ 20" and t: "- (2 ^ 20) < t" "t < 2 ^ 20"
    and r: "v3_nextInitializedTick p t True = (nx, ini, False)"
  shows "\<exists>c. nx = c * tickSpacing p \<and> c \<le> t div tickSpacing p \<and> t div tickSpacing p - 255 \<le> c
    \<and> (ini \<longrightarrow> tick_set p c) \<and> (\<forall>d. c < d \<and> d \<le> t div tickSpacing p \<longrightarrow> \<not> tick_set p d)
    \<and> (\<not> ini \<longrightarrow> \<not> tick_set p c)"
proof -
  define S c0 w b where "S = tickSpacing p" and "c0 = t div S" and "w = c0 div 256" and "b = nat (c0 mod 256)"
  have S: "1 \<le> S" "S \<le> 2 ^ 20" using ts by (simp_all add: S_def)
  have eq: "c0 * S = t - t mod S" unfolding c0_def by (rule minus_mod_eq_div_mult [symmetric])
  have md: "0 \<le> t mod S" "t mod S < S" using S by simp_all
  have c0: "- (2 ^ 20) \<le> c0" "c0 < 2 ^ 20"
  proof -
    have "- (2 ^ 20) * S \<le> t" using S t mult_left_mono [of 1 S "2 ^ 20"] by simp
    then have "- (2 ^ 20) * S div S \<le> c0" unfolding c0_def using S by (intro zdiv_mono1) simp_all
    moreover have "- (2 ^ 20) * S div S = - (2 ^ 20)" using S by (intro nonzero_mult_div_cancel_right) simp
    ultimately show "- (2 ^ 20) \<le> c0" by linarith
    have "t < 2 ^ 20 * S" using S t mult_left_mono [of 1 S "2 ^ 20"] by simp
    then show "c0 < 2 ^ 20" unfolding c0_def using S by (intro div_lt_when) simp_all
  qed
  have b: "b < 256" "c0 = 256 * w + int b" by (simp_all add: b_def w_def)
  define m where "m = get0 (bitmapWords p) w AND (push_bit (b + 1) 1 - 1)"
  have pos: "v3Position c0 = (w, b)" using c0 by (simp add: v3Position_split w_def b_def)
  have fd: "v3FloorDiv t S = c0" using ts by (simp add: v3FloorDiv_div S_def c0_def)
  define c where "c = (if m \<noteq> 0 then c0 - (int b - int (top_bit m)) else c0 - int b)"
  have mb: "bit m i \<longleftrightarrow> bit (get0 (bitmapWords p) w) i \<and> i < b + 1" for i
    unfolding m_def by (rule bit_below_mask)
  have top: "m \<noteq> 0 \<Longrightarrow> top_bit m \<le> b" using top_bit_in [of m] mb by fastforce
  have cw: "c = 256 * w + int (if m \<noteq> 0 then top_bit m else 0)" using b by (simp add: c_def)
  have cr: "c \<le> c0" "c0 - 255 \<le> c" using top b by (auto simp: c_def)
  have i32: "to_int32 (c * S) = c * S"
  proof (rule to_int32_id)
    have "(c0 - 255) * S \<le> c * S" "c * S \<le> c0 * S" using cr S by (simp_all add: mult_right_mono)
    moreover have "(c0 - 255) * S = c0 * S - 255 * S" by (simp add: algebra_simps)
    ultimately have "t - 256 * S \<le> c * S" "c * S \<le> t" using eq md by linarith+
    then show "- (2 ^ 31) \<le> c * S" "c * S < 2 ^ 31" using S t by simp_all
  qed
  have "nx = to_int32 (c * S)" and ini: "ini \<longleftrightarrow> m \<noteq> 0"
    using r unfolding v3_nextInitializedTick_def Let_def S_def [symmetric] fd if_True pos prod.case
      m_def [symmetric] c_def by (auto split: if_splits)
  then have nx: "nx = c * S" using i32 by simp
  have set_in: "tick_set p (256 * w + int i) \<longleftrightarrow> bit (get0 (bitmapWords p) w) i" if "i \<le> b" for i
    using that b c0 by (intro tick_set_word) simp_all
  have none: "\<not> tick_set p d" if dd: "c < d" "d \<le> c0" for d
  proof -
    obtain i where i: "d = 256 * w + int i" "i \<le> b"
      using dd b cw by (intro that [of "nat (d - 256 * w)"]) auto
    have "\<not> bit m i"
    proof
      assume "bit m i"
      then have "m \<noteq> 0" "i \<le> top_bit m" using top_bit_greatest [of m i] bit_lt_256 [of m i] by auto
      with dd(1) cw i show False by simp
    qed
    then show ?thesis using i set_in mb by simp
  qed
  have "tick_set p c" if "m \<noteq> 0"
    using that top top_bit_in [of m] mb cw set_in by simp
  moreover have "\<not> tick_set p c" if "m = 0"
    using that cw set_in [of 0] mb [of 0] b by simp
  ultimately show ?thesis
    using nx cr none ini unfolding S_def c0_def by blast
qed

lemma next_up:
  assumes ts: "0 < tickSpacing p" "tickSpacing p \<le> 2 ^ 20" and t: "- (2 ^ 20) < t" "t < 2 ^ 20"
    and r: "v3_nextInitializedTick p t False = (nx, ini, False)"
  shows "\<exists>c. nx = c * tickSpacing p \<and> t div tickSpacing p < c \<and> c \<le> t div tickSpacing p + 256
    \<and> (ini \<longrightarrow> tick_set p c) \<and> (\<forall>d. t div tickSpacing p < d \<and> d < c \<longrightarrow> \<not> tick_set p d)
    \<and> (\<not> ini \<longrightarrow> \<not> tick_set p c)"
proof -
  define S c0 w b where "S = tickSpacing p" and "c0 = t div S + 1" and "w = c0 div 256" and "b = nat (c0 mod 256)"
  have S: "1 \<le> S" "S \<le> 2 ^ 20" using ts by (simp_all add: S_def)
  have eq: "(c0 - 1) * S = t - t mod S" unfolding c0_def by (simp add: minus_mod_eq_div_mult)
  have md: "0 \<le> t mod S" "t mod S < S" using S by simp_all
  have c0: "- (2 ^ 20) \<le> c0" "c0 \<le> 2 ^ 20"
  proof -
    have "- (2 ^ 20) * S \<le> t" using S t mult_left_mono [of 1 S "2 ^ 20"] by simp
    then have "- (2 ^ 20) * S div S \<le> t div S" using S by (intro zdiv_mono1) simp_all
    moreover have "- (2 ^ 20) * S div S = - (2 ^ 20)" using S by (intro nonzero_mult_div_cancel_right) simp
    ultimately show "- (2 ^ 20) \<le> c0" unfolding c0_def by linarith
    have "t < 2 ^ 20 * S" using S t mult_left_mono [of 1 S "2 ^ 20"] by simp
    then have "t div S < 2 ^ 20" using S by (intro div_lt_when) simp_all
    then show "c0 \<le> 2 ^ 20" unfolding c0_def by linarith
  qed
  have b: "b < 256" "c0 = 256 * w + int b" by (simp_all add: b_def w_def)
  define m where "m = get0 (bitmapWords p) w AND (NOT (push_bit b 1 - 1) AND u256MaxU)"
  have pos: "v3Position c0 = (w, b)" using c0 by (simp add: v3Position_split w_def b_def)
  have fd: "v3FloorDiv t S + 1 = c0" using ts by (simp add: v3FloorDiv_div S_def c0_def)
  define c where "c = (if m \<noteq> 0 then c0 + (int (low_bit m) - int b) else c0 + (255 - int b))"
  have mb: "bit m i \<longleftrightarrow> bit (get0 (bitmapWords p) w) i \<and> b \<le> i" for i
    unfolding m_def by (rule bit_above_mask)
  have low: "m \<noteq> 0 \<Longrightarrow> b \<le> low_bit m \<and> low_bit m < 256" using low_bit_in [of m] mb by blast
  have cw: "c = 256 * w + int (if m \<noteq> 0 then low_bit m else 255)" using b by (simp add: c_def)
  have cr: "c0 \<le> c" "c \<le> c0 + 255" using low b by (auto simp: c_def)
  have i32: "to_int32 (c * S) = c * S"
  proof (rule to_int32_id)
    have "c0 * S \<le> c * S" "c * S \<le> (c0 + 255) * S" using cr S by (simp_all add: mult_right_mono)
    moreover have "(c0 + 255) * S = (c0 - 1) * S + 256 * S" "c0 * S = (c0 - 1) * S + S"
      by (simp_all add: algebra_simps)
    ultimately have "t \<le> c * S" "c * S \<le> t + 256 * S" using eq md by linarith+
    then show "- (2 ^ 31) \<le> c * S" "c * S < 2 ^ 31" using S t by simp_all
  qed
  have "nx = to_int32 (c * S)" and ini: "ini \<longleftrightarrow> m \<noteq> 0"
    using r unfolding v3_nextInitializedTick_def Let_def S_def [symmetric] fd if_False pos prod.case
      m_def [symmetric] c_def by (auto split: if_splits)
  then have nx: "nx = c * S" using i32 by simp
  have set_in: "tick_set p (256 * w + int i) \<longleftrightarrow> bit (get0 (bitmapWords p) w) i" if "b \<le> i" "i < 256" for i
    using that b c0 by (intro tick_set_word) simp_all
  have none: "\<not> tick_set p d" if dd: "c0 \<le> d" "d < c" for d
  proof -
    have "d < 256 * w + 256" using dd cw low by (auto split: if_splits)
    then obtain i where i: "d = 256 * w + int i" "b \<le> i" "i < 256"
      using dd b by (intro that [of "nat (d - 256 * w)"]) auto
    have "\<not> bit m i"
    proof
      assume "bit m i"
      then have "m \<noteq> 0" "low_bit m \<le> i" using low_bit_least [of m i] bit_lt_256 [of m i] by auto
      with dd(2) cw i show False by simp
    qed
    then show ?thesis using i set_in mb by simp
  qed
  have "tick_set p c" if "m \<noteq> 0"
    using that low low_bit_in [of m] mb cw set_in by simp
  moreover have "\<not> tick_set p c" if "m = 0"
    using that cw set_in [of 255] mb [of 255] b by simp
  ultimately show ?thesis
    using nx cr none ini unfolding S_def c0_def by (intro exI [of _ c]) auto
qed

subsection \<open>Size of the amounts of one crossing\<close>

lemma tick_ratio_pos: "0 < tick_ratio t"
  using tick_ratio_bounds(1) [of t] by simp

lemma sqrtRatio_bounds: "0 < uint (getSqrtRatioAtTickU256Compute t) \<and> uint (getSqrtRatioAtTickU256Compute t) \<le> 2 ^ 173"
proof -
  obtain p where p: "getSqrtRatioAtTick t = Some p" "0 < p" using getSqrtRatioAtTick_total by blast
  then have u: "p = uint (getSqrtRatioAtTickU256Compute t)"
    using getSqrtRatioAtTickU256Compute_refines [of t] by simp
  define r where "r = (if 0 < t then maxUint256 div tick_ratio (abs_tick t) else tick_ratio (abs_tick t))"
  have "r \<le> 2 ^ 204"
  proof -
    have "maxUint256 div tick_ratio (abs_tick t) \<le> maxUint256 div 2 ^ 52"
      using tick_ratio_bounds(1) [of "abs_tick t"] by (intro zdiv_mono2) (simp_all add: maxUint256_def)
    then show ?thesis using tick_ratio_bounds(2) [of "abs_tick t"] by (auto simp: r_def maxUint256_def)
  qed
  moreover have "Some p = Some (ceil_div r (2 ^ 32))"
    unfolding p(1) [symmetric] using ceil_div_alt [of "2 ^ 32" r, symmetric] tick_ratio_pos
    by (simp add: getSqrtRatioAtTick_def Let_def push_bit_eq_mult drop_bit_eq_div
      sgn_0_0 ceil_div_def r_def)
  ultimately show ?thesis
    using p u ceil_div_le_iff' [of "2 ^ 32" r "2 ^ 173"] by simp
qed

lemma unsafeDiv_le: "d \<noteq> 0 \<Longrightarrow> uint (unsafeDivRoundingUpU256 a d) \<le> uint a"
proof -
  assume d: "d \<noteq> 0"
  then have "1 \<le> uint d" using uint_pos_iff [of d] by simp
  then have "uint a \<le> uint a * uint d" using mult_left_mono [of 1 "uint d" "uint a"] by simp
  then show ?thesis using d \<open>1 \<le> uint d\<close> by (simp add: unsafeDivRoundingUpU256_uint ceil_div_le_iff')
qed

lemma amount0_bound:
  assumes "muldiv_lib md" and "uint l < 2 ^ 128" and "a \<noteq> 0" and "b \<noteq> 0"
  shows "uint (sGetAmount0DeltaU256 md a b l True) \<le> 2 ^ 224"
proof -
  define lo hi where "lo = (if b < a then b else a)" and "hi = (if b < a then a else b)"
  have nz: "lo \<noteq> 0" "hi \<noteq> 0" and le: "uint lo \<le> uint hi" using assms by (auto simp: lo_def hi_def word_less_def)
  then have pos: "0 < uint hi" by (simp add: uint_pos_iff)
  have n: "uint (push_bit 96 l) < 2 ^ 224" using assms(2) by (simp add: shift96)
  have d: "uint (hi - lo) \<le> uint hi" using le by (simp add: uint_minus_256)
  have "uint (push_bit 96 l) * uint (hi - lo) div uint hi \<le> uint (push_bit 96 l)"
    using d by (intro div_le_when [OF pos] mult_left_mono) simp_all
  then have "uint (mulDivRoundingUpU256 md (push_bit 96 l) (hi - lo) hi) \<le> 2 ^ 224"
    using mulDivRoundingUpU256_near(2) [OF assms(1) nz(2), of "push_bit 96 l" "hi - lo"] n by simp
  then have "uint (unsafeDivRoundingUpU256 (mulDivRoundingUpU256 md (push_bit 96 l) (hi - lo) hi) lo) \<le> 2 ^ 224"
    using unsafeDiv_le [OF nz(1)] order_trans by blast
  then show ?thesis by (simp add: sGetAmount0DeltaU256_def lo_def hi_def Let_def split: if_splits)
qed

lemma uint_diff_le: "uint y \<le> uint x \<Longrightarrow> uint (x - y :: u256) \<le> uint x"
  using uint_minus_256 [of y x] uint_ge_0 [of y] by linarith

lemma amount1_bound:
  assumes "muldiv_lib md" and "uint l < 2 ^ 128" and "uint a \<le> 2 ^ 173" and "uint b \<le> 2 ^ 173"
  shows "uint (sGetAmount1DeltaU256 md a b l True) \<le> 2 ^ 224"
proof -
  define d where "d = (if b < a then a - b else b - a)"
  have d: "uint d \<le> 2 ^ 173" using assms(3,4) uint_diff_le [of a b] uint_diff_le [of b a]
    by (auto simp: d_def word_less_def)
  have "uint l * uint d \<le> 2 ^ 128 * 2 ^ 173" using assms(2) d by (intro mult_mono) simp_all
  then have "uint l * uint d div 2 ^ 96 \<le> 2 ^ 128 * 2 ^ 173 div 2 ^ 96" by (intro zdiv_mono1) simp_all
  then have "uint (mulDivRoundingUpU256 md l d u256Q96) \<le> 2 ^ 224"
    using mulDivRoundingUpU256_near(2) [OF assms(1) q96_nz, of l d] by (simp add: q96_uint)
  then show ?thesis by (simp add: sGetAmount1DeltaU256_def d_def Let_def split: if_splits)
qed

lemma amount_in_bound:
  assumes "muldiv_lib md" and "uint l < 2 ^ 128" and "a \<noteq> 0" and "b \<noteq> 0"
    and "uint a \<le> 2 ^ 173" and "uint b \<le> 2 ^ 173"
  shows "uint (amount_in_to md a b l z) < 2 ^ 225"
  using amount0_bound [OF assms(1-2), of b a] amount1_bound [OF assms(1,2,5,6)] assms(3,4)
  by (cases z) (simp_all add: amount_in_to_def)

subsection \<open>A pre-computed crossing is the computed one\<close>

lemma prestep_is_step:
  assumes lib: "muldiv_lib md" and f: "uint (v3_fee p) < 1000000" and l: "uint l < 2 ^ 128"
    and nz: "price \<noteq> 0" "target \<noteq> 0" and small: "uint price \<le> 2 ^ 173" "uint target \<le> 2 ^ 173"
    and dir: "z = (\<not> price < target)"
    and ps: "ps = make_prestep md p z price target l"
  shows "uint (totalCost ps) = total_cost md price target l (v3_fee p)"
    and "uint (totalCost ps) \<le> uint R \<Longrightarrow>
      computeSwapStepU256 md price target l R (v3_fee p) = (target, ps_amountIn ps, ps_amountOut ps, ps_feeAmount ps)"
proof -
  define A where "A = amount_in_to md price target l z"
  have A: "uint A < 2 ^ 225" unfolding A_def by (rule amount_in_bound [OF lib l nz small])
  have fee: "uint (mulDivRoundingUpU256 md A (ucast (v3_fee p)) (fee_complement (v3_fee p)))
      = ceil_div (uint A * uint (v3_fee p)) (1000000 - uint (v3_fee p))"
    using A by (intro full_fee_uint [OF lib f]) simp
  have "ceil_div (uint A * uint (v3_fee p)) (1000000 - uint (v3_fee p)) \<le> uint A * uint (v3_fee p)"
    using f mult_left_mono [of 1 "1000000 - uint (v3_fee p)" "uint A * uint (v3_fee p)"]
    by (simp add: ceil_div_le_iff')
  also have "\<dots> \<le> 2 ^ 225 * 2 ^ 20" using A f by (intro mult_mono) simp_all
  finally have sum: "uint A + uint (mulDivRoundingUpU256 md A (ucast (v3_fee p)) (fee_complement (v3_fee p))) < 2 ^ 256"
    using A fee by simp
  show tc: "uint (totalCost ps) = total_cost md price target l (v3_fee p)"
    using uint_plus_256 [OF sum] fee unfolding ps make_prestep_def Let_def A_def [symmetric]
    by (simp add: total_cost_def Let_def A_def dir)
  show "computeSwapStepU256 md price target l R (v3_fee p) = (target, ps_amountIn ps, ps_amountOut ps, ps_feeAmount ps)"
    if "uint (totalCost ps) \<le> uint R"
    using that lessFee_reaches_iff [OF lib f, of R price target l] unfolding tc
    by (simp add: computeSwapStepU256_def Let_def ps make_prestep_def dir)
qed


subsection \<open>The walk of the pre-computation\<close>

definition end_tick :: "bool \<Rightarrow> int" where
  "end_tick z = (if z then algebraMinTick else algebraMaxTick)"

definition inside :: "int \<Rightarrow> bool" where
  "inside k = (algebraMinTick \<le> k \<and> k \<le> algebraMaxTick)"

text \<open>\<open>behind z t k\<close>: a walk at tick \<open>t\<close> has already passed the boundary \<open>k\<close>.\<close>

definition behind :: "bool \<Rightarrow> int \<Rightarrow> int \<Rightarrow> bool" where
  "behind z t k = (if z then t < k else k \<le> t)"

definition spacing_ok :: "v3_pool \<Rightarrow> bool" where
  "spacing_ok p = (0 < tickSpacing p \<and> tickSpacing p \<le> 2 ^ 20)"

text \<open>A position of the walk: the tick in range and the price within the tick.\<close>

definition at_tick :: "bool \<Rightarrow> int \<Rightarrow> u256 \<Rightarrow> bool" where
  "at_tick z t price =
     (algebraMinTick - 1 \<le> t \<and> t \<le> algebraMaxTick \<and> price \<noteq> 0 \<and> uint price \<le> 2 ^ 173
      \<and> (if z then getSqrtRatioAtTickU256Compute t \<le> price
         else price < getSqrtRatioAtTickU256Compute (t + 1)))"

lemmas tick_consts = algebraMinTick_def algebraMaxTick_def

lemma clamp_inside: "inside (clamp_tick t)"
  by (simp add: inside_def clamp_tick_def tick_consts Let_def)

lemma next_ahead:
  assumes "spacing_ok p" and "algebraMinTick - 1 \<le> t" and "t \<le> algebraMaxTick"
    and "v3_nextInitializedTick p t z = (nx, ini, False)"
  shows "\<not> behind z t (clamp_tick nx) \<or> clamp_tick nx = end_tick z"
proof (cases z)
  case True
  then obtain c where c: "nx = c * tickSpacing p" "c \<le> t div tickSpacing p"
    using next_down [of p t nx ini] assms by (auto simp: spacing_ok_def tick_consts)
  have "nx \<le> t div tickSpacing p * tickSpacing p"
    using c assms(1) by (simp add: mult_right_mono spacing_ok_def)
  also have "\<dots> \<le> t"
    using minus_mod_eq_div_mult [of t "tickSpacing p"] pos_mod_sign [of "tickSpacing p" t] assms(1)
    unfolding spacing_ok_def by linarith
  finally show ?thesis
    using True assms(3) by (auto simp: behind_def clamp_tick_def end_tick_def tick_consts Let_def)
next
  case False
  then obtain c where c: "nx = c * tickSpacing p" "t div tickSpacing p + 1 \<le> c"
    using next_up [of p t nx ini] assms by (auto simp: spacing_ok_def tick_consts)
  have "(t div tickSpacing p + 1) * tickSpacing p \<le> nx"
    using c assms(1) by (simp add: mult_right_mono spacing_ok_def)
  moreover have "t < (t div tickSpacing p + 1) * tickSpacing p"
    using minus_mod_eq_div_mult [of t "tickSpacing p"] pos_mod_bound [of "tickSpacing p" t] assms(1)
    unfolding spacing_ok_def distrib_right mult_1_left by linarith
  ultimately show ?thesis
    using False assms(2) by (auto simp: behind_def clamp_tick_def end_tick_def tick_consts Let_def)
qed

lemma sqrtRatio_nz: "getSqrtRatioAtTickU256Compute t \<noteq> 0"
  using sqrtRatio_bounds [of t] by (metis uint_pos_iff)

lemma walk_next_at:
  "at_tick z (w_tick (walk_next p z w (clamp_tick nx) ini)) (w_price (walk_next p z w (clamp_tick nx) ini))"
  using clamp_inside [of nx] sqrtRatio_bounds [of "clamp_tick nx"] sqrtRatio_nz [of "clamp_tick nx"]
    sqrtRatio_strict_mono [of "clamp_tick nx - 1" "clamp_tick nx"]
    sqrtRatio_strict_mono [of "clamp_tick nx" "clamp_tick nx + 1"]
  by (auto simp: at_tick_def walk_next_def inside_def tick_consts)

lemma walk_next_behind:
  assumes "\<not> behind z t nx \<or> nx = end_tick z" and "inside k" and "inside nx"
  shows "behind z (w_tick (walk_next p z w nx ini)) nx"
    and "behind z t k \<Longrightarrow> k \<noteq> end_tick z \<Longrightarrow> behind z (w_tick (walk_next p z w nx ini)) k"
  using assms by (auto simp: behind_def walk_next_def end_tick_def inside_def tick_consts)

text \<open>Boundaries the walk has passed are not stored again.\<close>

lemma pre_loop_behind:
  assumes "spacing_ok p" and "at_tick z (w_tick w) (w_price w)" and "behind z (w_tick w) k"
    and "inside k" and "k \<noteq> end_tick z"
  shows "pre_loop md p z n w steps k = steps k"
  using assms
proof (induction n arbitrary: w steps)
  case 0
  then show ?case by simp
next
  case (Suc n)
  obtain nx ini oor where nt: "v3_nextInitializedTick p (w_tick w) z = (nx, ini, oor)"
    by (metis prod_cases3)
  show ?case
  proof (cases oor)
    case True
    with nt show ?thesis by simp
  next
    case False
    with nt have nt: "v3_nextInitializedTick p (w_tick w) z = (nx, ini, False)" by simp
    have ah: "\<not> behind z (w_tick w) (clamp_tick nx) \<or> clamp_tick nx = end_tick z"
      using Suc.prems nt by (intro next_ahead) (auto simp: at_tick_def)
    then have "k \<noteq> clamp_tick nx" using Suc.prems by auto
    moreover have "behind z (w_tick (walk_next p z w (clamp_tick nx) ini)) k"
      using walk_next_behind(2) [OF ah Suc.prems(4) clamp_inside] Suc.prems by blast
    ultimately show ?thesis
      using Suc.IH [OF Suc.prems(1) walk_next_at _ Suc.prems(4,5)] nt by (simp add: Let_def)
  qed
qed

text \<open>The positions the walk reaches.\<close>

inductive walk_reach :: "v3_pool \<Rightarrow> bool \<Rightarrow> v3_walk \<Rightarrow> bool" for p z where
  start: "walk_reach p z (walk_start p)"
| step: "walk_reach p z w \<Longrightarrow> v3_nextInitializedTick p (w_tick w) z = (nx, ini, False)
    \<Longrightarrow> walk_reach p z (walk_next p z w (clamp_tick nx) ini)"

definition agrees :: "v3_swap \<Rightarrow> v3_walk \<Rightarrow> bool" where
  "agrees s w = (s_tick s = w_tick w \<and> s_liq s = w_liq w \<and> s_price s = w_price w)"

definition bare :: "v3_pool \<Rightarrow> v3_pool" where
  "bare p = p\<lparr>preStepsDown := Map.empty, preStepsUp := Map.empty\<rparr>"

lemma bare_fields:
  "tickSpacing (bare p) = tickSpacing p" "bitmapMinWord (bare p) = bitmapMinWord p"
  "bitmapMaxWord (bare p) = bitmapMaxWord p" "bitmapWords (bare p) = bitmapWords p"
  "v3_fee (bare p) = v3_fee p" "tickLiquidityNet (bare p) = tickLiquidityNet p"
  "heavyGas (bare p) = heavyGas p" "v3_tick (bare p) = v3_tick p"
  "preStepsDown (bare p) = Map.empty" "preStepsUp (bare p) = Map.empty"
  "v3_sqrtPriceX96 (bare p) = v3_sqrtPriceX96 p" "v3_liquidity (bare p) = v3_liquidity p"
  by (simp_all add: bare_def)

lemma next_bare: "v3_nextInitializedTick (bare p) t z = v3_nextInitializedTick p t z"
  unfolding v3_nextInitializedTick_def bare_fields by (rule refl)

lemma std_bare: "v3_std_step tk md (bare p) z nx ini s = v3_std_step tk md p z nx ini s"
  unfolding v3_std_step_def cross_liquidity_def bare_fields by (rule refl)

lemma complete_bare: "evmWouldComplete (bare p) z = evmWouldComplete p z"
  unfolding evmWouldComplete_def bare_fields by (rule refl)

lemma iter_in:
  assumes "v3_nextInitializedTick p (s_tick s) z = (nx, ini, False)"
    and "gas = s_gas s + (if ini then (if heavyGas p then 55000 else 25000) else 7000)"
  shows "v3_iter tk md p z s =
     (if 4800000 < gas then Inl 0
      else Inr (case (ini, (if z then preStepsDown p else preStepsUp p) (clamp_tick nx)) of
             (False, Some ps) \<Rightarrow>
               if \<not> s_rem s < totalCost ps then v3_pre_step z (clamp_tick nx) ps (s\<lparr>s_gas := gas\<rparr>)
               else v3_std_step tk md p z (clamp_tick nx) ini (s\<lparr>s_gas := gas\<rparr>)
           | _ \<Rightarrow> v3_std_step tk md p z (clamp_tick nx) ini (s\<lparr>s_gas := gas\<rparr>)))"
  unfolding v3_iter_def Let_def assms by (simp split: bool.split option.split)

lemma iter_out:
  assumes "v3_nextInitializedTick p (s_tick s) z = (nx, ini, True)"
  shows "v3_iter tk md p z s = Inl (if s_liq s = 0 \<and> evmWouldComplete p z then s_out s else 0)"
  unfolding v3_iter_def Let_def assms by simp

lemma iter_bare_in:
  assumes "v3_nextInitializedTick p (s_tick s) z = (nx, ini, False)"
    and "gas = s_gas s + (if ini then (if heavyGas p then 55000 else 25000) else 7000)"
  shows "v3_iter tk md (bare p) z s =
     (if 4800000 < gas then Inl 0
      else Inr (v3_std_step tk md p z (clamp_tick nx) ini (s\<lparr>s_gas := gas\<rparr>)))"
  using iter_in [of "bare p" s z nx ini gas tk md] assms
  by (simp add: next_bare bare_fields std_bare split: bool.split)

lemma iter_bare_out:
  assumes "v3_nextInitializedTick p (s_tick s) z = (nx, ini, True)"
  shows "v3_iter tk md (bare p) z s = v3_iter tk md p z s"
  using iter_out [of "bare p" s z nx ini tk md] iter_out [OF assms] assms
  by (simp add: next_bare complete_bare)


subsection \<open>The loops in step\<close>

lemma step_target_inside:
  assumes "inside nt" and "nt \<noteq> end_tick z"
  shows "step_target z (getSqrtRatioAtTickU256Compute nt) = getSqrtRatioAtTickU256Compute nt"
proof (cases z)
  case True
  then have "getSqrtRatioAtTickU256Compute algebraMinTick < getSqrtRatioAtTickU256Compute nt"
    using assms by (intro sqrtRatio_strict_mono) (auto simp: inside_def end_tick_def tick_consts)
  moreover have "uint (getSqrtRatioAtTickU256Compute algebraMinTick) = 4295128739"
    using sqrt_ratio_min getSqrtRatioAtTickU256Compute_refines [of "- 887272"] by (simp add: tick_consts)
  moreover have "uint (price_limit True) = 4295128740"
    by (simp add: price_limit_def u256MinSqr_def)
  ultimately show ?thesis using True by (auto simp: step_target_def word_less_def)
next
  case False
  then have "getSqrtRatioAtTickU256Compute nt < getSqrtRatioAtTickU256Compute algebraMaxTick"
    using assms by (intro sqrtRatio_strict_mono) (auto simp: inside_def end_tick_def tick_consts)
  moreover have "uint (getSqrtRatioAtTickU256Compute algebraMaxTick)
      = 1461446703485210103287273052203988822378723970342"
    using sqrt_ratio_max getSqrtRatioAtTickU256Compute_refines [of "887272"] by (simp add: tick_consts)
  moreover have "uint (price_limit False) = 1461446703485210103287273052203988822378723970341"
    by (simp add: price_limit_def u256MaxSqr_def)
  ultimately show ?thesis using False by (auto simp: step_target_def word_less_def)
qed

lemma at_tick_dir:
  assumes "at_tick z t price" and "inside nt" and "nt \<noteq> end_tick z" and "\<not> behind z t nt"
  shows "z = (\<not> price < getSqrtRatioAtTickU256Compute nt)"
proof (cases z)
  case True
  then have "getSqrtRatioAtTickU256Compute nt \<le> getSqrtRatioAtTickU256Compute t"
    using assms sqrtRatio_le_iff [of nt t] by (auto simp: at_tick_def behind_def inside_def tick_consts)
  then show ?thesis using True assms(1) by (auto simp: at_tick_def)
next
  case False
  then have "getSqrtRatioAtTickU256Compute (t + 1) \<le> getSqrtRatioAtTickU256Compute nt"
    using assms sqrtRatio_le_iff [of "t + 1" nt] by (auto simp: at_tick_def behind_def inside_def tick_consts)
  then show ?thesis using False assms(1) by (auto simp: at_tick_def)
qed

lemma pre_is_std:
  assumes lib: "muldiv_lib md" and f: "uint (v3_fee p) < 1000000" and l: "uint (w_liq w) < 2 ^ 128"
    and at: "at_tick z (w_tick w) (w_price w)" and ag: "agrees s w"
    and nt: "inside nt" "nt \<noteq> end_tick z" "\<not> behind z (w_tick w) nt"
    and ps: "ps = make_prestep md p z (w_price w) (getSqrtRatioAtTickU256Compute nt) (w_liq w)"
    and enough: "\<not> s_rem s < totalCost ps"
  shows "v3_std_step tk md p z nt False s = v3_pre_step z nt ps s"
proof -
  note pr = prestep_is_step [OF lib f l _ sqrtRatio_nz _ _ at_tick_dir [OF at nt] ps]
  have price: "w_price w \<noteq> 0" "uint (w_price w) \<le> 2 ^ 173" using at by (auto simp: at_tick_def)
  have "computeSwapStepU256 md (w_price w) (getSqrtRatioAtTickU256Compute nt) (w_liq w) (s_rem s) (v3_fee p)
      = (getSqrtRatioAtTickU256Compute nt, ps_amountIn ps, ps_amountOut ps, ps_feeAmount ps)"
    using enough price sqrtRatio_bounds [of nt] by (intro pr(2)) (simp_all add: word_less_def)
  then show ?thesis
    using ag unfolding v3_std_step_def Let_def step_target_inside [OF nt(1,2)] agrees_def
    by (simp add: v3_pre_step_def cross_liquidity_def ps make_prestep_def Let_def)
qed

lemma std_agrees:
  assumes "agrees s w"
    and "s_price (v3_std_step tk md p z nt ini (s\<lparr>s_gas := g\<rparr>)) = getSqrtRatioAtTickU256Compute nt"
  shows "agrees (v3_std_step tk md p z nt ini (s\<lparr>s_gas := g\<rparr>)) (walk_next p z w nt ini)"
  using assms by (auto simp: v3_std_step_def Let_def agrees_def walk_next_def split: prod.splits if_splits)

lemma lockstep:
  assumes sp: "spacing_ok p" and f: "uint (v3_fee p) < 1000000" and lib: "muldiv_lib md"
    and M: "M = (if z then preStepsDown p else preStepsUp p)" and Mend: "M (end_tick z) = None"
    and liq: "\<And>w. walk_reach p z w \<Longrightarrow> uint (w_liq w) < 2 ^ 128"
  shows "walk_reach p z w \<Longrightarrow> at_tick z (w_tick w) (w_price w) \<Longrightarrow> agrees s w
    \<Longrightarrow> M = pre_loop md p z n w steps
    \<Longrightarrow> (\<And>k. inside k \<Longrightarrow> \<not> behind z (w_tick w) k \<Longrightarrow> k \<noteq> end_tick z \<Longrightarrow> steps k = None)
    \<Longrightarrow> v3_loop tk md p z n s = v3_loop tk md (bare p) z n s"
proof (induction n arbitrary: w s steps)
  case 0
  then show ?case by simp
next
  case (Suc n)
  obtain nx ini oor where nx0: "v3_nextInitializedTick p (w_tick w) z = (nx, ini, oor)"
    by (metis prod_cases3)
  then have nx1: "v3_nextInitializedTick p (s_tick s) z = (nx, ini, oor)"
    using Suc.prems(3) by (simp add: agrees_def)
  show ?case
  proof (cases oor)
    case True
    with nx1 show ?thesis using iter_bare_out [of p s z nx ini tk md] iter_out [of p s z nx ini tk md] by simp
  next
    case False
    define nt where "nt = clamp_tick nx"
    define g where "g = s_gas s + (if ini then (if heavyGas p then 55000 else 25000) else 7000)"
    define st where "st = v3_std_step tk md p z nt ini (s\<lparr>s_gas := g\<rparr>)"
    have nx0: "v3_nextInitializedTick p (w_tick w) z = (nx, ini, False)"
      and nx1: "v3_nextInitializedTick p (s_tick s) z = (nx, ini, False)"
      using nx0 nx1 False by simp_all
    define w' where "w' = walk_next p z w nt ini"
    define steps' where "steps' = (if \<not> ini \<and> w_liq w \<noteq> 0
      then steps(nt \<mapsto> make_prestep md p z (w_price w) (getSqrtRatioAtTickU256Compute nt) (w_liq w)) else steps)"
    have M': "M = pre_loop md p z n w' steps'"
      using Suc.prems(4) nx0 by (simp add: Let_def w'_def steps'_def nt_def)
    have ah: "\<not> behind z (w_tick w) nt \<or> nt = end_tick z"
      using next_ahead [OF sp _ _ nx0] Suc.prems(2) by (simp add: nt_def at_tick_def)
    have ins: "inside nt" unfolding nt_def by (rule clamp_inside)
    have at': "at_tick z (w_tick w') (w_price w')" unfolding w'_def nt_def by (rule walk_next_at)
    have same: "v3_iter tk md p z s = (if 4800000 < g then Inl 0 else Inr st)"
    proof (cases "ini \<or> M nt = None")
      case True
      then show ?thesis
        using iter_in [OF nx1 g_def, of tk md] M by (auto simp: st_def nt_def split: bool.splits)
    next
      case False
      then obtain ps where ps: "\<not> ini" "M nt = Some ps" by auto
      then have ne: "nt \<noteq> end_tick z" using Mend by auto
      have "M nt = steps' nt"
        unfolding M' using walk_next_behind(1) [OF ah ins ins, of p w ini] ins ne
        by (intro pre_loop_behind [OF sp at']) (simp_all add: w'_def)
      then have eq: "ps = make_prestep md p z (w_price w) (getSqrtRatioAtTickU256Compute nt) (w_liq w)"
        using ps Suc.prems(5) [OF ins _ ne] ah ne by (auto simp: steps'_def split: if_splits)
      have "agrees (s\<lparr>s_gas := g\<rparr>) w" using Suc.prems(3) by (simp add: agrees_def)
      then have "st = v3_pre_step z nt ps (s\<lparr>s_gas := g\<rparr>)" if "\<not> s_rem s < totalCost ps"
        unfolding st_def using pre_is_std [OF lib f liq [OF Suc.prems(1)] Suc.prems(2) _ ins ne _ eq] that ah ne ps
        by simp
      then show ?thesis
        using iter_in [OF nx1 g_def, of tk md] M ps by (simp add: st_def nt_def)
    qed
    have bareit: "v3_iter tk md (bare p) z s = (if 4800000 < g then Inl 0 else Inr st)"
      using iter_bare_in [OF nx1 g_def, of tk md] by (simp add: st_def nt_def)
    have rest: "v3_loop tk md p z n st = v3_loop tk md (bare p) z n st"
    proof (cases "s_price st = getSqrtRatioAtTickU256Compute nt")
      case True
      then have "agrees st w'" unfolding st_def w'_def by (intro std_agrees Suc.prems(3))
      moreover have "walk_reach p z w'"
        unfolding w'_def nt_def by (rule walk_reach.step [OF Suc.prems(1) nx0])
      moreover have "steps' k = None" if "inside k" "\<not> behind z (w_tick w') k" "k \<noteq> end_tick z" for k
      proof -
        have "\<not> behind z (w_tick w) k"
          using walk_next_behind(2) [OF ah that(1) ins, of p w ini] that by (auto simp: w'_def)
        moreover have "k \<noteq> nt"
          using walk_next_behind(1) [OF ah ins ins, of p w ini] that by (auto simp: w'_def)
        ultimately show ?thesis using Suc.prems(5) that by (simp add: steps'_def)
      qed
      ultimately show ?thesis using Suc.IH [OF _ at' _ M'] by blast
    next
      case False
      then show ?thesis
        using v3_std_step_ends [of tk md p z nt ini "s\<lparr>s_gas := g\<rparr>"] unfolding st_def
        by (simp add: v3_loop_ended)
    qed
    then show ?thesis using same bareit by simp
  qed
qed

lemma pre_loop_bare: "pre_loop md (bare p) z n w steps = pre_loop md p z n w steps"
proof (induction n arbitrary: w steps)
  case (Suc n)
  have mk: "make_prestep md (bare p) z a b c = make_prestep md p z a b c" for a b c
    unfolding make_prestep_def bare_fields by (rule refl)
  have wn: "walk_next (bare p) z w nx ini = walk_next p z w nx ini" for w nx ini
    unfolding walk_next_def cross_liquidity_def bare_fields by (rule refl)
  show ?case
    unfolding pre_loop.simps next_bare mk wn Suc.IH by (rule refl)
qed simp

definition v3_pool_ok :: "v3_pool \<Rightarrow> bool" where
  "v3_pool_ok p = (spacing_ok p \<and> uint (v3_fee p) < 1000000
     \<and> algebraMinTick \<le> v3_tick p \<and> v3_tick p \<le> algebraMaxTick
     \<and> getSqrtRatioAtTickU256Compute (v3_tick p) \<le> v3_sqrtPriceX96 p
     \<and> v3_sqrtPriceX96 p < getSqrtRatioAtTickU256Compute (v3_tick p + 1))"

lemma pool_ok_start: "v3_pool_ok p \<Longrightarrow> at_tick z (v3_tick p) (v3_sqrtPriceX96 p)"
  using sqrtRatio_bounds [of "v3_tick p"] sqrtRatio_bounds [of "v3_tick p + 1"] sqrtRatio_nz [of "v3_tick p"]
  by (auto simp: at_tick_def v3_pool_ok_def word_less_def word_le_def word_eq_iff_uint)

lemma walk_reach_bare: "walk_reach (bare p) z w \<Longrightarrow> walk_reach p z w"
proof (induction rule: walk_reach.induct)
  case start
  have "walk_start (bare p) = walk_start p" unfolding walk_start_def bare_fields by (rule refl)
  then show ?case by (simp add: walk_reach.start)
next
  case (step w nx ini)
  have "walk_next (bare p) z w nx ini = walk_next p z w nx ini" for w nx ini
    unfolding walk_next_def cross_liquidity_def bare_fields by (rule refl)
  then show ?case using walk_reach.step [OF step.IH] step.hyps by (simp add: next_bare)
qed

lemma bare_bare: "bare (bare p) = bare p"
  by (simp add: bare_def)

lemma bare_precompute: "bare (precomputeSteps md p) = bare p"
  by (simp add: bare_def precomputeSteps_def)

theorem precompute_lossless:
  assumes lib: "muldiv_lib md" and ok: "v3_pool_ok p"
    and fresh: "preStepsDown p = Map.empty" "preStepsUp p = Map.empty"
    and ends: "preStepsDown (precomputeSteps md p) algebraMinTick = None"
      "preStepsUp (precomputeSteps md p) algebraMaxTick = None"
    and liq: "\<And>z w. walk_reach p z w \<Longrightarrow> uint (w_liq w) < 2 ^ 128"
  shows "v3_Quote md (precomputeSteps md p) x a b = v3_Quote md p x a b"
proof -
  define q where "q = precomputeSteps md p"
  have q: "bare q = bare p" unfolding q_def by (rule bare_precompute)
  have bare: "bare p = p" using fresh by (simp add: bare_def)
  have fld: "v3_tick q = v3_tick p" "v3_sqrtPriceX96 q = v3_sqrtPriceX96 p" "v3_liquidity q = v3_liquidity p"
    "v3_fee q = v3_fee p" "tickSpacing q = tickSpacing p"
    by (simp_all add: q_def precomputeSteps_def)
  have okq: "spacing_ok q" "uint (v3_fee q) < 1000000"
    using ok fld by (simp_all add: v3_pool_ok_def spacing_ok_def)
  have start: "walk_start q = walk_start p" by (simp add: walk_start_def fld)
  have liqq: "uint (w_liq w) < 2 ^ 128" if "walk_reach q z w" for z w
  proof -
    have "walk_reach p z w" using that
    proof (induction rule: walk_reach.induct)
      case start
      show ?case unfolding \<open>walk_start q = walk_start p\<close> by (rule walk_reach.start)
    next
      case (step w nx ini)
      have "walk_next q z w nx ini = walk_next p z w nx ini" for w nx ini
        by (simp add: walk_next_def cross_liquidity_def q_def precomputeSteps_def)
      moreover have "v3_nextInitializedTick p (w_tick w) z = (nx, ini, False)"
        using step.hyps(2) next_bare [of p "w_tick w" z] next_bare [of q "w_tick w" z] q by simp
      ultimately show ?case using walk_reach.step [OF step.IH] by simp
    qed
    then show ?thesis by (rule liq)
  qed
  have pl: "pre_loop md p z n w st = pre_loop md q z n w st" for z n w st
    using pre_loop_bare [of md p z n w st] pre_loop_bare [of md q z n w st] q by simp
  have loop: "v3_loop tk md q z 500 s = v3_loop tk md p z 500 s"
    if s: "s = \<lparr>s_price = v3_sqrtPriceX96 p, s_liq = v3_liquidity p, s_rem = x, s_out = 0,
                 s_tick = v3_tick p, s_gas = 400000\<rparr>" for tk z s
  proof -
    define M where "M = (if z then preStepsDown q else preStepsUp q)"
    have "pre_loop md q z 500 (walk_start q) Map.empty = pre_loop md p z 500 (walk_start p) Map.empty"
      by (simp only: pl start)
    moreover have "M = pre_loop md p z 500 (walk_start p) Map.empty"
      by (simp add: M_def q_def precomputeSteps_def fresh)
    ultimately have "M = pre_loop md q z 500 (walk_start q) Map.empty" by simp
    moreover have "M (end_tick z) = None" using ends by (simp add: M_def q_def end_tick_def)
    moreover have "at_tick z (w_tick (walk_start q)) (w_price (walk_start q))"
      unfolding start using pool_ok_start [OF ok] by (simp add: walk_start_def)
    moreover have "agrees s (walk_start q)" unfolding start by (simp add: agrees_def walk_start_def s)
    ultimately have "v3_loop tk md q z 500 s = v3_loop tk md (bare q) z 500 s"
      by (intro lockstep [OF okq lib M_def, where w = "walk_start q" and steps = Map.empty])
        (assumption | erule liqq | rule walk_reach.start | simp)+
    then show ?thesis using q bare by simp
  qed
  show ?thesis
    unfolding v3_Quote_def v3_Quote_with_def Let_def q_def [symmetric] fld using loop by simp
qed

end
