(* ===== verification/V2_Pool.thy ===== *)
theory V2_Pool
  imports Go_Prelude
begin

text \<open>
  Models \<open>formulas/pool_v2.go\<close> and the constants of \<open>formulas/v2.go\<close>: constant-product pools, built
  from one packed storage slot, with the directions a broken token makes unusable and the balances
  that bound the output.
\<close>

subsection \<open>Data\<close>

record v2_pool =
  v2_addr :: address
  reserve0 :: u256
  reserve1 :: u256
  factor :: "u256 option"
  balance0 :: u256
  balance1 :: u256
  deadDir0 :: bool
  deadDir1 :: bool

definition reservesSlot :: hash where "reservesSlot = 8"
definition v2_factor :: u256 where "v2_factor = 9970"
definition tenK :: u256 where "tenK = 10000"
definition fraxswapReservesSlot :: hash where "fraxswapReservesSlot = 0x1c"
definition fraxswapFeeSlot :: hash where "fraxswapFeeSlot = 0x18"

definition brokenTokens :: "address list" where
  "brokenTokens = [
    0x704eae6d452ca63ce479c59727177c5f3ba0d90c, 0x4596ab7aab0362f743ae934792b827febfe3a3e3]"

definition inputDeadTokens :: "address list" where
  "inputDeadTokens = [
    0xe80772eaf6e2e18b651f160bc9158b2a5cafca65, 0xf7d9281e8e363584973f946201b82ba72c965d27,
    0xb2a85c5ecea99187a977ac34303b80acbddfa208, 0x90842eb834cfd2a1db0b1512b254a18e4d396215,
    0x440abbf18c54b2782a4917b80a1746d3a2c2cce1, 0x6e7f5c0b9f4432716bdd0a77a3601291b9d9e985,
    0x1f1fe1ef06ab30a791d6357fdf0a7361b39b1537, 0xf16f18c155ef8fc46f980b23868d208db59cad9c,
    0xba515304d8153c4b162dc79f867e152df9c127eb, 0x556b959d952085405e7c630bc45a34ace73854eb,
    0xa3d68b74bf0528fdd07263c60d6488749044914b, 0x32f0c28be6a6ac5d3b471278b77f6971a3141348,
    0x27f6c8289550fce67f6b50bed1f519966afe5287, 0x6c6f910a79639dcc94b4feef59ff507c2e843929,
    0x74e422837e88c00c998b63293dfecebb7d6680fc, 0x77146784315ba81904d654466968e3a7c196d1f3,
    0xb57b25851fe2311cc3fe511c8f10e868932e0680, 0x0442ac2450dc0b2b56d7320afad0b63b1ff8b0d0,
    0xfb8a29e67eff2f8ec633771b572b08b7e69c57b4]"

definition balanceOfSelector :: "byte list" where
  "balanceOfSelector = [0x70, 0xa0, 0x82, 0x31]"

subsection \<open>Operations\<close>

definition SetDeadDirs :: "v2_pool \<Rightarrow> address \<Rightarrow> address \<Rightarrow> v2_pool" where
  "SetDeadDirs p token0 token1 =
     (let p1 = (if token0 \<in> set brokenTokens \<or> token0 \<in> set inputDeadTokens
                then p\<lparr>deadDir0 := True\<rparr> else p)
      in if token1 \<in> set brokenTokens \<or> token1 \<in> set inputDeadTokens
         then p1\<lparr>deadDir1 := True\<rparr> else p1)"

definition balance_calldata :: "address \<Rightarrow> byte list" where
  "balance_calldata a = balanceOfSelector @ replicate 12 0 @ be_bytes 20 (uint a)"

definition SetTokenBalances :: "v2_pool \<Rightarrow> evm_caller option \<Rightarrow> address \<Rightarrow> address \<Rightarrow> v2_pool" where
  "SetTokenBalances p caller token0 token1 =
     (case caller of
        None \<Rightarrow> p
      | Some call \<Rightarrow>
          let calldata = balance_calldata (v2_addr p);
              p1 = (case call token0 calldata of
                      Some ret \<Rightarrow> if 32 \<le> length ret then p\<lparr>balance0 := be_word (take 32 ret)\<rparr> else p
                    | None \<Rightarrow> p)
          in (case call token1 calldata of
                Some ret \<Rightarrow> if 32 \<le> length ret then p1\<lparr>balance1 := be_word (take 32 ret)\<rparr> else p1
              | None \<Rightarrow> p1))"

definition newV2PoolWithSlot ::
  "address \<Rightarrow> storage_reader \<Rightarrow> hash \<Rightarrow> u256 option \<Rightarrow> v2_pool option" where
  "newV2PoolWithSlot addr reader slot feeFactor =
     (let raw = reader addr slot;
          r0 = hash_slice raw 18 32;
          r1 = hash_slice raw 4 18
      in if r0 = 0 \<or> r1 = 0 then None
         else Some \<lparr>v2_addr = addr, reserve0 = r0, reserve1 = r1, factor = feeFactor,
                    balance0 = 0, balance1 = 0, deadDir0 = False, deadDir1 = False\<rparr>)"

definition newV2Pool :: "address \<Rightarrow> storage_reader \<Rightarrow> v2_pool option" where
  "newV2Pool addr reader = newV2PoolWithSlot addr reader reservesSlot (Some v2_factor)"

definition newHurricanePool :: "address \<Rightarrow> storage_reader \<Rightarrow> v2_pool option" where
  "newHurricanePool addr reader = None"

definition newFraxswapPool :: "address \<Rightarrow> storage_reader \<Rightarrow> v2_pool option" where
  "newFraxswapPool addr reader =
     (let feeVal = reader addr fraxswapFeeSlot
      in if feeVal = 0 \<or> tenK < feeVal then None
         else newV2PoolWithSlot addr reader fraxswapReservesSlot (Some feeVal))"

definition v2_Quote :: "v2_pool \<Rightarrow> u256 \<Rightarrow> address \<Rightarrow> address \<Rightarrow> u256" where
  "v2_Quote p amountIn tokenIn tokenOut =
     (let zeroForOne = tokenIn < tokenOut
      in if zeroForOne \<and> deadDir0 p then 0
         else if \<not> zeroForOne \<and> deadDir1 p then 0
         else
           let (reserveIn, reserveOut, balanceOut) =
                 (if zeroForOne then (reserve0 p, reserve1 p, balance1 p)
                  else (reserve1 p, reserve0 p, balance0 p));
               f = (case factor p of None \<Rightarrow> v2_factor | Some f \<Rightarrow> f);
               num = amountIn * f * reserveOut;
               den = reserveIn * tenK + amountIn * f
           in if den = 0 then 0
              else let result = num div den
                   in if balanceOut \<noteq> 0 \<and> balanceOut < result then 0 else result)"

subsection \<open>Well-formed pools\<close>

text \<open>
  Every pool the constructors return has 112-bit, non-zero reserves and a fee factor of at most
  \<open>10000\<close>; the later adjustments keep this.
\<close>

definition v2_ok :: "v2_pool \<Rightarrow> bool" where
  "v2_ok p = (reserve0 p \<noteq> 0 \<and> uint (reserve0 p) < 2 ^ 112 \<and> reserve1 p \<noteq> 0 \<and> uint (reserve1 p) < 2 ^ 112
     \<and> uint (case factor p of None \<Rightarrow> v2_factor | Some f \<Rightarrow> f) \<le> 10000)"

lemma newV2PoolWithSlot_ok:
  assumes "newV2PoolWithSlot a rd s ff = Some p"
    and "uint (case ff of None \<Rightarrow> v2_factor | Some f \<Rightarrow> f) \<le> 10000"
  shows "v2_ok p"
  using assms hash_slice_bound [of 18 32 "rd a s"] hash_slice_bound [of 4 18 "rd a s"]
  by (auto simp: newV2PoolWithSlot_def Let_def v2_ok_def split: if_splits)

lemma newV2Pool_ok: "newV2Pool a rd = Some p \<Longrightarrow> v2_ok p"
  unfolding newV2Pool_def by (rule newV2PoolWithSlot_ok) (auto simp: v2_factor_def)

lemma newFraxswapPool_ok: "newFraxswapPool a rd = Some p \<Longrightarrow> v2_ok p"
  unfolding newFraxswapPool_def Let_def
  by (rule newV2PoolWithSlot_ok [of a rd fraxswapReservesSlot "Some (rd a fraxswapFeeSlot)"])
    (auto simp: tenK_def word_less_def split: if_splits)

lemma SetDeadDirs_ok: "v2_ok p \<Longrightarrow> v2_ok (SetDeadDirs p t0 t1)"
  by (simp add: SetDeadDirs_def Let_def v2_ok_def)

lemma SetTokenBalances_ok: "v2_ok p \<Longrightarrow> v2_ok (SetTokenBalances p c t0 t1)"
  by (auto simp: SetTokenBalances_def Let_def v2_ok_def split: option.splits)

subsection \<open>The quote against the constant-product formula\<close>

definition v2_amount_out :: "int \<Rightarrow> int \<Rightarrow> int \<Rightarrow> int \<Rightarrow> int" where
  "v2_amount_out x f rin rout = x * f * rout div (rin * 10000 + x * f)"

definition v2_dead :: "v2_pool \<Rightarrow> address \<Rightarrow> address \<Rightarrow> bool" where
  "v2_dead p a b = (if a < b then deadDir0 p else deadDir1 p)"

definition v2_in :: "v2_pool \<Rightarrow> address \<Rightarrow> address \<Rightarrow> int" where
  "v2_in p a b = uint (if a < b then reserve0 p else reserve1 p)"

definition v2_out :: "v2_pool \<Rightarrow> address \<Rightarrow> address \<Rightarrow> int" where
  "v2_out p a b = uint (if a < b then reserve1 p else reserve0 p)"

definition v2_bal :: "v2_pool \<Rightarrow> address \<Rightarrow> address \<Rightarrow> int" where
  "v2_bal p a b = uint (if a < b then balance1 p else balance0 p)"

definition v2_fee :: "v2_pool \<Rightarrow> int" where
  "v2_fee p = uint (case factor p of None \<Rightarrow> v2_factor | Some f \<Rightarrow> f)"

lemma v2_ok_bounds:
  assumes "v2_ok p"
  shows "0 < v2_in p a b" "v2_in p a b < 2 ^ 112" "0 < v2_out p a b" "v2_out p a b < 2 ^ 112"
  using assms by (auto simp: v2_ok_def v2_in_def v2_out_def uint_pos_iff)

lemma v2_ok_fee: "v2_ok p \<Longrightarrow> 0 \<le> v2_fee p" "v2_ok p \<Longrightarrow> v2_fee p \<le> 10000"
  by (simp_all add: v2_ok_def v2_fee_def)

lemma v2_Quote_uint:
  assumes "v2_ok p" and "uint x < 2 ^ 128"
  shows "uint (v2_Quote p x a b) =
    (if v2_dead p a b then 0
     else let out = v2_amount_out (uint x) (v2_fee p) (v2_in p a b) (v2_out p a b)
          in if v2_bal p a b \<noteq> 0 \<and> v2_bal p a b < out then 0 else out)"
proof -
  note b = v2_ok_bounds [OF assms(1), of a b] v2_ok_fee [OF assms(1)]
  define rin rout bal where "rin = (if a < b then reserve0 p else reserve1 p)"
    and "rout = (if a < b then reserve1 p else reserve0 p)"
    and "bal = (if a < b then balance1 p else balance0 p)"
  define f where "f = (case factor p of None \<Rightarrow> v2_factor | Some f \<Rightarrow> f)"
  have f: "uint f = v2_fee p" and rin: "uint rin = v2_in p a b" and rout: "uint rout = v2_out p a b"
    and bal: "uint bal = v2_bal p a b"
    by (simp_all add: f_def v2_fee_def rin_def v2_in_def rout_def v2_out_def bal_def v2_bal_def)
  have xf: "uint x * v2_fee p \<le> 2 ^ 128 * 10000" using assms(2) b by (intro mult_mono) simp_all
  then have "uint x * v2_fee p * v2_out p a b \<le> (2 ^ 128 * 10000) * 2 ^ 112"
    using b by (intro mult_mono [OF xf]) simp_all
  then have num: "uint (x * f * rout) = uint x * v2_fee p * v2_out p a b"
    using xf by (simp add: uint_times_256 f rout)
  have den: "uint (rin * tenK + x * f) = v2_in p a b * 10000 + uint x * v2_fee p"
  proof -
    have "uint (rin * tenK) = v2_in p a b * 10000"
      using b by (simp add: uint_times_256 rin tenK_def)
    moreover have "uint (x * f) = uint x * v2_fee p" using xf by (simp add: uint_times_256 f)
    ultimately show ?thesis using b xf by (simp add: uint_plus_256)
  qed
  have pos: "0 < v2_in p a b * 10000 + uint x * v2_fee p"
    using b by (intro add_pos_nonneg) simp_all
  then have nz: "rin * tenK + x * f \<noteq> 0" using den by (metis uint_pos_iff)
  have "v2_Quote p x a b = (if v2_dead p a b then 0
     else let result = x * f * rout div (rin * tenK + x * f)
          in if bal \<noteq> 0 \<and> bal < result then 0 else result)"
    using nz by (auto simp: v2_Quote_def Let_def v2_dead_def rin_def rout_def bal_def f_def)
  then show ?thesis
    by (simp add: Let_def v2_amount_out_def uint_div_distrib num den word_eq_iff_uint word_less_def bal)
qed

lemma v2_amount_out_lt:
  assumes "0 \<le> x" and "0 \<le> f" and "0 < rin" and "0 < rout"
  shows "0 \<le> v2_amount_out x f rin rout" and "v2_amount_out x f rin rout < rout"
proof -
  have xf: "0 \<le> x * f" using assms by simp
  then have pos: "0 < rin * 10000 + x * f" using assms by (intro add_pos_nonneg) simp_all
  then show "0 \<le> v2_amount_out x f rin rout"
    using xf assms pos unfolding v2_amount_out_def
    by (subst pos_imp_zdiv_nonneg_iff) (auto intro: mult_nonneg_nonneg)
  have "x * f * rout < rout * (rin * 10000 + x * f)"
    using assms by (simp add: algebra_simps)
  then show "v2_amount_out x f rin rout < rout"
    unfolding v2_amount_out_def by (rule div_lt_when) (rule pos)
qed

lemma v2_amount_out_product:
  assumes "0 \<le> x" and "0 \<le> f" and "0 < rin" and "0 < rout"
  shows "rin * 10000 * rout \<le> (rin * 10000 + x * f) * (rout - v2_amount_out x f rin rout)"
proof -
  define d where "d = rin * 10000 + x * f"
  have d: "0 < d" unfolding d_def using assms by (intro add_pos_nonneg) simp_all
  have "v2_amount_out x f rin rout * d \<le> x * f * rout"
    using minus_mod_eq_div_mult [of "x * f * rout" d] pos_mod_sign [OF d, of "x * f * rout"]
    unfolding v2_amount_out_def d_def by linarith
  then show ?thesis unfolding d_def by (simp add: algebra_simps)
qed

lemma v2_amount_out_mono:
  assumes "0 \<le> x" and "x \<le> y" and "0 \<le> f" and "0 < rin" and "0 < rout"
  shows "v2_amount_out x f rin rout \<le> v2_amount_out y f rin rout"
proof -
  define dx dy q where "dx = rin * 10000 + x * f" and "dy = rin * 10000 + y * f"
    and "q = v2_amount_out x f rin rout"
  have le: "x * f \<le> y * f" "0 \<le> x * f" using assms by (simp_all add: mult_right_mono)
  then have dx: "0 < dx" and dy: "0 < dy"
    unfolding dx_def dy_def using assms by (auto intro!: add_pos_nonneg)
  have q: "0 \<le> q" "q < rout" unfolding q_def using assms v2_amount_out_lt [of x f rin rout] by auto
  have "q * dx \<le> x * f * rout"
    using minus_mod_eq_div_mult [of "x * f * rout" dx] pos_mod_sign [OF dx, of "x * f * rout"]
    unfolding q_def v2_amount_out_def dx_def by linarith
  moreover have "q * (y * f - x * f) \<le> rout * (y * f - x * f)"
    using q le by (intro mult_right_mono) simp_all
  ultimately have "q * dy \<le> y * f * rout" by (simp add: dx_def dy_def algebra_simps)
  then have "q * dy div dy \<le> y * f * rout div dy" using dy by (intro zdiv_mono1) simp_all
  then show ?thesis using dy by (simp add: q_def v2_amount_out_def dy_def)
qed

theorem v2_Quote_safe:
  assumes "v2_ok p" and "uint x < 2 ^ 128"
  shows "uint (v2_Quote p x a b) < v2_out p a b"
    and "v2_in p a b * 10000 * v2_out p a b
      \<le> (v2_in p a b * 10000 + uint x * v2_fee p) * (v2_out p a b - uint (v2_Quote p x a b))"
proof -
  note b = v2_ok_bounds [OF assms(1), of a b] v2_ok_fee [OF assms(1)]
  have x: "0 \<le> uint x" by simp
  note l = v2_amount_out_lt [OF x b(5,1,3)] v2_amount_out_product [OF x b(5,1,3)]
  have zero: "v2_in p a b * 10000 * v2_out p a b
      \<le> (v2_in p a b * 10000 + uint x * v2_fee p) * v2_out p a b"
    using b by (intro mult_right_mono) simp_all
  show "uint (v2_Quote p x a b) < v2_out p a b"
    using l b by (simp add: v2_Quote_uint [OF assms] Let_def)
  show "v2_in p a b * 10000 * v2_out p a b
      \<le> (v2_in p a b * 10000 + uint x * v2_fee p) * (v2_out p a b - uint (v2_Quote p x a b))"
    using l zero by (simp add: v2_Quote_uint [OF assms] Let_def)
qed

end
