(* ===== verification/Go_Strings.thy ===== *)
theory Go_Strings
  imports Go_Prelude
begin

text \<open>
  The string functions of Go's standard library that the program uses: prefixes and splitting, and the
  hexadecimal conversions of \<open>encoding/hex\<close>, \<open>strconv\<close>, \<open>fmt\<close> and \<open>math/big\<close>, with their round trips.
  Strings are bytes; only ASCII letters change case.
\<close>

definition HasPrefix :: "string \<Rightarrow> string \<Rightarrow> bool" where
  "HasPrefix s p = (take (length p) s = p)"

definition TrimPrefix :: "string \<Rightarrow> string \<Rightarrow> string" where
  "TrimPrefix s p = (if HasPrefix s p then drop (length p) s else s)"

text \<open>\<open>strings.SplitN(s, sep, n)\<close> for a separator of one character: at most \<open>n\<close> parts.\<close>

fun SplitN :: "string \<Rightarrow> char \<Rightarrow> nat \<Rightarrow> string list" where
  "SplitN s c 0 = []"
| "SplitN s c (Suc 0) = [s]"
| "SplitN s c (Suc (Suc n)) =
     (if c \<in> set s then takeWhile (\<lambda>x. x \<noteq> c) s # SplitN (tl (dropWhile (\<lambda>x. x \<noteq> c) s)) c (Suc n) else [s])"

definition to_lower :: "char \<Rightarrow> char" where
  "to_lower c = (let n = (of_char c :: nat) in if 65 \<le> n \<and> n \<le> 90 then char_of (n + 32) else c)"

definition ToLower :: "string \<Rightarrow> string" where
  "ToLower s = map to_lower s"

subsection \<open>Hexadecimal digits\<close>

definition hex_char :: "int \<Rightarrow> char" where
  "hex_char n = (if n < 10 then char_of (nat (48 + n)) else char_of (nat (87 + n)))"

definition hex_value :: "char \<Rightarrow> int option" where
  "hex_value c = (let n = int (of_char c) in
     if 48 \<le> n \<and> n \<le> 57 then Some (n - 48) else if 97 \<le> n \<and> n \<le> 102 then Some (n - 87)
     else if 65 \<le> n \<and> n \<le> 70 then Some (n - 55) else None)"

fun digits16 :: "int \<Rightarrow> string \<Rightarrow> int option" where
  "digits16 acc [] = Some acc"
| "digits16 acc (c # cs) = (case hex_value c of None \<Rightarrow> None | Some d \<Rightarrow> digits16 (acc * 16 + d) cs)"

text \<open>\<open>big.Int.SetString(s, 16)\<close>: an optional sign, then digits to the end of the string.\<close>

definition SetString16 :: "string \<Rightarrow> int option" where
  "SetString16 s =
     (case s of
        [] \<Rightarrow> None
      | c # cs \<Rightarrow>
          if c = CHR ''-'' then (if cs = [] then None else map_option uminus (digits16 0 cs))
          else if c = CHR ''+'' then (if cs = [] then None else digits16 0 cs)
          else digits16 0 s)"

text \<open>\<open>strconv.ParseUint(s, 16, 64)\<close>.\<close>

definition ParseUint16 :: "string \<Rightarrow> 64 word option" where
  "ParseUint16 s =
     (if s = [] then None
      else case digits16 0 s of None \<Rightarrow> None | Some n \<Rightarrow> if n < 2 ^ 64 then Some (word_of_int n) else None)"

text \<open>\<open>hex.DecodeString\<close> without its error: the bytes of the pairs before the first malformed one.\<close>

fun DecodeHex :: "string \<Rightarrow> byte list" where
  "DecodeHex (c # d # cs) =
     (case (hex_value c, hex_value d) of (Some h, Some l) \<Rightarrow> word_of_int (16 * h + l) # DecodeHex cs | _ \<Rightarrow> [])"
| "DecodeHex _ = []"

definition EncodeHex :: "byte list \<Rightarrow> string" where
  "EncodeHex bs = concat (map (\<lambda>b. [hex_char (uint b div 16), hex_char (uint b mod 16)]) bs)"

text \<open>\<open>fmt.Sprintf("%x", n)\<close> of a natural number.\<close>

fun hex_of :: "nat \<Rightarrow> string" where
  "hex_of n = (if n < 16 then [hex_char (int n)] else hex_of (n div 16) @ [hex_char (int (n mod 16))])"

declare hex_of.simps [simp del]

subsection \<open>Round trips\<close>

lemma hex_char_code: "0 \<le> d \<Longrightarrow> d < 16 \<Longrightarrow> (of_char (hex_char d) :: nat) = nat (if d < 10 then 48 + d else 87 + d)"
  by (simp add: hex_char_def)

lemma hex_value_char [simp]:
  assumes "0 \<le> d" and "d < 16"
  shows "hex_value (hex_char d) = Some d"
proof -
  have "int (of_char (hex_char d)) = (if d < 10 then 48 + d else 87 + d)"
    using hex_char_code [OF assms] assms by simp
  then show ?thesis using assms by (simp add: hex_value_def Let_def)
qed

lemma byte_digits:
  "0 \<le> uint (b :: byte) div 16" "uint (b :: byte) div 16 < 16" "0 \<le> uint (b :: byte) mod 16" "uint (b :: byte) mod 16 < 16"
  using uint_bounded [of b] by (simp_all add: div_less_iff_less_mult pos_imp_zdiv_nonneg_iff)

lemma DecodeHex_Encode [simp]: "DecodeHex (EncodeHex bs) = bs"
proof (induction bs)
  case (Cons b bs)
  have "word_of_int (16 * (uint b div 16) + uint b mod 16) = b"
    by (simp only: mult.commute [of 16] div_mult_mod_eq word_of_int_uint)
  with Cons show ?case by (simp add: EncodeHex_def byte_digits)
qed (simp add: EncodeHex_def)

lemma digits16_append:
  "digits16 acc (xs @ ys) = (case digits16 acc xs of None \<Rightarrow> None | Some v \<Rightarrow> digits16 v ys)"
  by (induction xs arbitrary: acc) (auto split: option.split)

lemma digits16_Encode: "digits16 acc (EncodeHex bs) = Some (acc * 256 ^ length bs + be_int bs)"
proof (induction bs arbitrary: acc)
  case (Cons b bs)
  have "(acc * 16 + uint b div 16) * 16 + uint b mod 16 = acc * 256 + uint b"
    using div_mult_mod_eq [of "uint b" 16] by (simp add: algebra_simps)
  then have "digits16 acc (EncodeHex (b # bs)) = digits16 (acc * 256 + uint b) (EncodeHex bs)"
    by (simp add: EncodeHex_def byte_digits add.commute mult.commute)
  also have "\<dots> = Some (acc * 256 ^ length (b # bs) + be_int (b # bs))"
    using Cons.IH by (simp add: be_int_Cons algebra_simps)
  finally show ?case .
qed (simp add: EncodeHex_def be_int_def)

lemma hex_char_not_sign: "0 \<le> d \<Longrightarrow> d < 16 \<Longrightarrow> hex_char d \<noteq> CHR ''-'' \<and> hex_char d \<noteq> CHR ''+'' \<and> hex_char d \<noteq> CHR '':''"
  using hex_char_code [of d] by (auto split: if_splits)

lemma SetString16_Encode:
  assumes "bs \<noteq> []"
  shows "SetString16 (EncodeHex bs) = Some (be_int bs)"
proof -
  obtain b bs' where bs: "bs = b # bs'" using assms by (cases bs) auto
  have "SetString16 (EncodeHex bs) = digits16 0 (EncodeHex bs)"
    using hex_char_not_sign [OF byte_digits(1,2), of b] by (simp add: bs EncodeHex_def SetString16_def)
  then show ?thesis by (simp add: digits16_Encode)
qed

lemma digits16_hex_of: "digits16 0 (hex_of n) = Some (int n)"
proof (induction n rule: hex_of.induct)
  case (1 n)
  show ?case
  proof (cases "n < 16")
    case True
    then show ?thesis by (simp add: hex_of.simps)
  next
    case False
    have "int (n div 16) * 16 + int (n mod 16) = int n"
      by (metis div_mult_mod_eq of_nat_add of_nat_mult of_nat_numeral)
    with False 1 show ?thesis by (subst hex_of.simps) (simp add: digits16_append)
  qed
qed

lemma hex_of_not_nil [simp]: "hex_of n \<noteq> []"
  by (subst hex_of.simps) simp

lemma ParseUint16_hex_of: "n < 2 ^ 64 \<Longrightarrow> ParseUint16 (hex_of n) = Some (of_nat n)"
  by (simp add: ParseUint16_def digits16_hex_of)

lemma SetString16_hex_of: "SetString16 (hex_of n) = Some (int n)"
proof -
  have "\<exists>d cs. 0 \<le> d \<and> d < 16 \<and> hex_of n = hex_char d # cs"
  proof (induction n rule: hex_of.induct)
    case (1 n)
    then show ?case
      by (cases "n < 16") (auto simp: hex_of.simps [of n] intro: exI [of _ "int n"])
  qed
  then obtain d cs where "0 \<le> d" "d < 16" "hex_of n = hex_char d # cs" by blast
  then have "SetString16 (hex_of n) = digits16 0 (hex_of n)"
    using hex_char_not_sign [of d] by (simp add: SetString16_def)
  then show ?thesis by (simp add: digits16_hex_of)
qed

lemma TrimPrefix_append [simp]: "TrimPrefix (p @ s) p = s"
  by (simp add: TrimPrefix_def HasPrefix_def)

end
