(* ===== verification/V4_Pool.thy ===== *)
theory V4_Pool
  imports V3_Lossless Go_Strings
begin

text \<open>
  Models \<open>formulas/v4.go\<close>, \<open>formulas/pool_v4.go\<close> and the slot helper of \<open>formulas/v4_u256.go\<close>:
  pools of the V4 singleton, read from the storage of the pool manager contract, and their quote.  The
  loop of the quote has no bound of its own, so it is a partial function here, and it is proved to end.
  The tick spacing of a registered pool is not checked by the code; a spacing of zero panics.
\<close>

subsection \<open>Data\<close>

record v4_state =
  st_sqrtPriceX96 :: int
  st_tick :: int
  st_protocolFee :: "32 word"
  st_lpFee :: "32 word"
  st_liquidity :: int
  st_tickSpacing :: int
  st_poolId :: hash
  st_hookFeePpm :: "32 word"

record v4_pool =
  v4_addr :: address
  v4_poolId :: hash
  v4_tickSpacing :: int
  v4_hookFeePpm :: "32 word"
  v4_lpFee :: "32 word"
  v4_protocolFee :: "32 word"
  v4_sqrtPriceX96 :: u256
  v4_tick :: int
  v4_liquidity :: u256
  v4_bitmapWords :: "int \<rightharpoonup> u256"
  v4_tickLiquidityNet :: "(int \<times> u256) list"

record v4_pool_info =
  pi_poolId :: hash
  pi_tickSpacing :: int
  pi_hookFeePpm :: "32 word"
  pi_lpFee :: "32 word"
  pi_hooks :: address

definition v4PoolManagerAddr :: address where
  "v4PoolManagerAddr = 0x06380C0e0912312B5150364B9DC4542BA0DbBc85"

definition arenaHookAddress :: address where
  "arenaHookAddress = 0xe32a5d788c568fc5a671255d17b618e70552e044"

definition arenaFeeHelperAddr :: address where
  "arenaFeeHelperAddr = 0x537505da49b4249b576fc8d00028bfddf6189077"

subsection \<open>Storage layout\<close>

definition v4GetPoolStateSlot :: "keccak \<Rightarrow> hash \<Rightarrow> hash" where
  "v4GetPoolStateSlot keccak poolId = keccak (be_bytes 32 (uint poolId) @ be_bytes 32 6)"

definition v4AddOffset32 :: "hash \<Rightarrow> int \<Rightarrow> fault + hash" where
  "v4AddOffset32 stateSlot offset = slot32 (uint stateSlot + offset)"

text \<open>\<open>int32\<close> of the low 24 bits, as a signed number.\<close>

definition v4SignExtend24 :: "int \<Rightarrow> int" where
  "v4SignExtend24 v =
     (let val = v AND 0xFFFFFF in if 0x800000 \<le> val then val - 0x1000000 else val)"

type_synonym bytes_reader = "address \<Rightarrow> hash \<Rightarrow> hash option"

definition FetchV4StateFromBytes ::
  "keccak \<Rightarrow> bytes_reader \<Rightarrow> hash \<Rightarrow> int \<Rightarrow> 32 word \<Rightarrow> fault + v4_state" where
  "FetchV4StateFromBytes keccak reader poolId spacing hookFeePpm =
     (let stateSlot = v4GetPoolStateSlot keccak poolId
      in case slot32 (uint stateSlot) of
           Inl e \<Rightarrow> Inl e
         | Inr slot0Key \<Rightarrow>
             (case reader v4PoolManagerAddr slot0Key of
                None \<Rightarrow> Inl (Err ''read slot0'')
              | Some slot0Data \<Rightarrow>
                  (case slot32 (uint stateSlot + 3) of
                     Inl e \<Rightarrow> Inl e
                   | Inr liqSlot \<Rightarrow>
                       (case reader v4PoolManagerAddr liqSlot of
                          None \<Rightarrow> Inl (Err ''read liquidity'')
                        | Some liqData \<Rightarrow>
                            let slot0Big = uint slot0Data
                            in Inr \<lparr>st_sqrtPriceX96 = slot0Big AND (push_bit 160 1 - 1),
                                    st_tick = v4SignExtend24 (drop_bit 160 slot0Big AND 0xFFFFFF),
                                    st_protocolFee = word_of_int (drop_bit 184 slot0Big AND 0xFFFFFF),
                                    st_lpFee = word_of_int (drop_bit 208 slot0Big AND 0xFFFFFF),
                                    st_liquidity = uint liqData AND (push_bit 128 1 - 1),
                                    st_tickSpacing = spacing, st_poolId = poolId,
                                    st_hookFeePpm = hookFeePpm\<rparr>))))"

subsection \<open>The registry and the hook's fee\<close>

definition poolHex :: "address \<Rightarrow> string" where
  "poolHex addr = ''0x'' @ EncodeHex (be_bytes 20 (uint addr))"

type_synonym v4_registry = "string \<rightharpoonup> v4_pool_info"

definition RegisterV4Pool ::
  "string \<Rightarrow> hash \<Rightarrow> int \<Rightarrow> 32 word \<Rightarrow> 32 word \<Rightarrow> address \<Rightarrow> v4_registry \<Rightarrow> v4_registry" where
  "RegisterV4Pool poolAddress poolId spacing lpFee hookFeePpm hooks v4PoolIds =
     v4PoolIds(poolAddress \<mapsto> \<lparr>pi_poolId = poolId, pi_tickSpacing = spacing, pi_hookFeePpm = hookFeePpm,
       pi_lpFee = lpFee, pi_hooks = hooks\<rparr>)"

definition readArenaHookFee :: "keccak \<Rightarrow> storage_reader \<Rightarrow> hash \<Rightarrow> 32 word" where
  "readArenaHookFee keccak reader poolId =
     (let mappingSlot = keccak (be_bytes 32 (uint poolId) @ be_bytes 32 3);
          poolFeePpm = (ucast (reader arenaFeeHelperAddr mappingSlot) :: 64 word);
          settingsVal = uint (reader arenaFeeHelperAddr 6);
          protocolFeePpm = drop_bit 160 settingsVal AND 0xFFFF
      in ucast (poolFeePpm + word_of_int protocolFeePpm))"

subsection \<open>Construction\<close>

text \<open>The scan over the words from -200 to 200 and over their ticks is the one of V3 pools.\<close>

definition v4_words :: "int list" where
  "v4_words = [-200..200]"

definition newV4Pool ::
  "keccak \<Rightarrow> v4_registry \<Rightarrow> ((int \<rightharpoonup> u256) \<Rightarrow> int list) \<Rightarrow> slot_cache \<Rightarrow> address \<Rightarrow> storage_reader
    \<Rightarrow> (fault + v4_pool option) \<times> slot_cache" where
  "newV4Pool keccak v4PoolIds order cache addr reader =
     (case v4PoolIds (poolHex addr) of
        None \<Rightarrow> (Inr None, cache)
      | Some info \<Rightarrow>
          let hookFeePpm = (if pi_hookFeePpm info = 0 \<and> pi_hooks info = arenaHookAddress
                            then readArenaHookFee keccak reader (pi_poolId info) else pi_hookFeePpm info);
              state = FetchV4StateFromBytes keccak (\<lambda>a slot. Some (reader a slot)) (pi_poolId info)
                (pi_tickSpacing info) hookFeePpm;
              empty = \<lparr>v4_addr = addr, v4_poolId = pi_poolId info, v4_tickSpacing = pi_tickSpacing info,
                v4_hookFeePpm = hookFeePpm, v4_lpFee = 0, v4_protocolFee = 0, v4_sqrtPriceX96 = 0,
                v4_tick = 0, v4_liquidity = 0, v4_bitmapWords = Map.empty, v4_tickLiquidityNet = []\<rparr>
          in (case state of
                Inl Panic \<Rightarrow> (Inl Panic, cache)
              | Inl (Err _) \<Rightarrow> (Inr (Some empty), cache)
              | Inr s \<Rightarrow>
                  if sgn (st_sqrtPriceX96 s) = 0 then (Inr (Some empty), cache)
                  else
                    let stateSlot = v4GetPoolStateSlot keccak (pi_poolId info)
                    in (case (v4AddOffset32 stateSlot 5, v4AddOffset32 stateSlot 4) of
                          (Inr bitmapSlotBase, Inr ticksSlotBase) \<Rightarrow>
                            let (words, cache1) =
                                  load_words (v3ReadBitmapWordBytes keccak reader v4PoolManagerAddr bitmapSlotBase)
                                    v4_words (Map.empty, cache);
                                ticks = concat (map (\<lambda>w. word_ticks (pi_tickSpacing info) w (get0 words w))
                                  (order words));
                                (nets, cache2) =
                                  load_ticks (v3ReadTickLiquidityNetBytes keccak reader v4PoolManagerAddr ticksSlotBase)
                                    ticks ([], cache1)
                            in (Inr (Some (empty\<lparr>v4_lpFee := st_lpFee s, v4_protocolFee := st_protocolFee s,
                                  v4_bitmapWords := words, v4_tickLiquidityNet := nets,
                                  v4_sqrtPriceX96 := word_of_int (st_sqrtPriceX96 s), v4_tick := st_tick s,
                                  v4_liquidity := word_of_int (st_liquidity s)\<rparr>)), cache2)
                        | _ \<Rightarrow> (Inl Panic, cache))))"

subsection \<open>The next initialized tick\<close>

text \<open>A spacing of zero is a division by zero, the value \<open>None\<close>.\<close>

definition v4Compress :: "int \<Rightarrow> int \<Rightarrow> int option" where
  "v4Compress tick spacing =
     (if spacing = 0 then None
      else let compressed = to_int32 (go_quot tick spacing)
           in Some (if tick < 0 \<and> go_rem tick spacing \<noteq> 0 then to_int32 (compressed - 1) else compressed))"

definition v4Position :: "int \<Rightarrow> int \<times> nat" where
  "v4Position compressed = (to_int16 (drop_bit 8 compressed), nat (compressed AND 0xFF))"

definition v4_nextInitializedTick :: "v4_pool \<Rightarrow> int \<Rightarrow> bool \<Rightarrow> (int \<times> bool) option" where
  "v4_nextInitializedTick p tick zeroForOne =
     (case v4Compress tick (v4_tickSpacing p) of
        None \<Rightarrow> None
      | Some compressed0 \<Rightarrow>
          if zeroForOne then
            (case v4Position compressed0 of (wordPos, bitPos) \<Rightarrow>
               let masked = get0 (v4_bitmapWords p) wordPos AND (push_bit (bitPos + 1) 1 - 1)
               in if masked \<noteq> 0 then
                    Some (to_int32 ((compressed0 - (int bitPos - int (top_bit masked))) * v4_tickSpacing p), True)
                  else Some (to_int32 ((compressed0 - int bitPos) * v4_tickSpacing p), False))
          else
            let compressed = to_int32 (compressed0 + 1)
            in (case v4Position compressed of (wordPos, bitPos) \<Rightarrow>
                  let masked = get0 (v4_bitmapWords p) wordPos AND (NOT (push_bit bitPos 1 - 1) AND u256MaxU)
                  in if masked \<noteq> 0 then
                       Some (to_int32 ((compressed + (int (low_bit masked) - int bitPos)) * v4_tickSpacing p), True)
                     else Some (to_int32 ((compressed + (255 - int bitPos)) * v4_tickSpacing p), False)))"

subsection \<open>Quoting\<close>

definition direction_fee :: "v4_pool \<Rightarrow> bool \<Rightarrow> 32 word" where
  "direction_fee p zeroForOne =
     (if zeroForOne then v4_protocolFee p AND 0xFFF else drop_bit 12 (v4_protocolFee p) AND 0xFFF)"

definition v4_swapFee :: "v4_pool \<Rightarrow> bool \<Rightarrow> 32 word" where
  "v4_swapFee p zeroForOne =
     (let protocolFee = direction_fee p zeroForOne
      in if protocolFee = 0 then v4_lpFee p
         else protocolFee + v4_lpFee p - (protocolFee * v4_lpFee p) div 1000000)"

record v4_swap =
  q_price :: u256
  q_liq :: u256
  q_rem :: u256
  q_out :: u256
  q_tick :: int

definition v4_step ::
  "(u256 \<Rightarrow> int) \<Rightarrow> (u256 \<Rightarrow> u256 \<Rightarrow> u256 \<Rightarrow> u256) \<Rightarrow> v4_pool \<Rightarrow> bool \<Rightarrow> int \<Rightarrow> bool \<Rightarrow> v4_swap \<Rightarrow> v4_swap" where
  "v4_step tickOf md p z nextTick initialized s =
     (let sqrtPriceNextX96 = getSqrtRatioAtTickU256Compute nextTick;
          (newPrice, ain, aout, fee) =
            v4ComputeSwapStepU256 md (q_price s) (step_target z sqrtPriceNextX96) (q_liq s) (q_rem s) (v4_swapFee p z);
          s1 = s\<lparr>q_price := newPrice, q_rem := q_rem s - (ain + fee), q_out := q_out s + aout\<rparr>
      in if newPrice = sqrtPriceNextX96 then
           s1\<lparr>q_liq := (if initialized then
                          (let liquidityNet = get0 (map_of (v4_tickLiquidityNet p)) nextTick
                           in if z then q_liq s - liquidityNet else q_liq s + liquidityNet)
                        else q_liq s),
              q_tick := (if z then to_int32 (nextTick - 1) else nextTick)\<rparr>
         else s1\<lparr>q_tick := tickOf newPrice\<rparr>)"

partial_function (option) v4_loop ::
  "(u256 \<Rightarrow> int) \<Rightarrow> (u256 \<Rightarrow> u256 \<Rightarrow> u256 \<Rightarrow> u256) \<Rightarrow> v4_pool \<Rightarrow> bool \<Rightarrow> v4_swap \<Rightarrow> (fault + v4_swap) option" where
  "v4_loop tickOf md p z s =
     (if q_rem s = 0 \<or> q_price s = price_limit z then Some (Inr s)
      else (case v4_nextInitializedTick p (q_tick s) z of
              None \<Rightarrow> Some (Inl Panic)
            | Some (next, initialized) \<Rightarrow>
                v4_loop tickOf md p z (v4_step tickOf md p z (clamp_tick next) initialized s)))"

definition v4_hook_cut :: "(u256 \<Rightarrow> u256 \<Rightarrow> u256 \<Rightarrow> u256) \<Rightarrow> v4_pool \<Rightarrow> u256 \<Rightarrow> u256" where
  "v4_hook_cut md p amountOut =
     (if 0 < v4_hookFeePpm p \<and> amountOut \<noteq> 0
      then amountOut - mulDivU256 md amountOut (ucast (v4_hookFeePpm p)) 1000000
      else amountOut)"

definition v4_swap_start :: "v4_pool \<Rightarrow> u256 \<Rightarrow> v4_swap" where
  "v4_swap_start p amountIn =
     \<lparr>q_price = v4_sqrtPriceX96 p, q_liq = v4_liquidity p, q_rem = amountIn, q_out = 0, q_tick = v4_tick p\<rparr>"

definition v4_Quote ::
  "(u256 \<Rightarrow> u256 \<Rightarrow> u256 \<Rightarrow> u256) \<Rightarrow> v4_pool \<Rightarrow> u256 \<Rightarrow> address \<Rightarrow> address \<Rightarrow> (fault + u256) option" where
  "v4_Quote md p amountIn tokenIn tokenOut =
     (let zeroForOne = tokenIn < tokenOut
      in if amountIn = 0 \<or> v4_sqrtPriceX96 p = 0 then Some (Inr 0)
         else (case v4_loop (\<lambda>price. fst (getTickAtSqrtRatioU256 Map.empty price)) md p zeroForOne
                      (v4_swap_start p amountIn) of
                 None \<Rightarrow> None
               | Some (Inl e) \<Rightarrow> Some (Inl e)
               | Some (Inr s) \<Rightarrow> Some (Inr (v4_hook_cut md p (q_out s)))))"

subsection \<open>Every quote returns\<close>

lemma land_255: "(c :: int) AND 0xFF = c mod 256"
proof -
  have "(0xFF :: int) = mask 8" by (simp add: mask_eq_exp_minus_1)
  then show ?thesis by (simp only: take_bit_eq_mask [symmetric] take_bit_eq_mod) simp
qed

lemma land_24: "(c :: int) AND 0xFFFFFF = c mod 2 ^ 24"
proof -
  have "(0xFFFFFF :: int) = mask 24" by (simp add: mask_eq_exp_minus_1)
  then show ?thesis by (simp only: take_bit_eq_mask [symmetric] take_bit_eq_mod)
qed

lemma v4SignExtend24_range: "- (2 ^ 23) \<le> v4SignExtend24 v \<and> v4SignExtend24 v < 2 ^ 23"
  using pos_mod_bound [of "2 ^ 24" v] pos_mod_sign [of "2 ^ 24" v]
  by (auto simp: v4SignExtend24_def land_24 Let_def)

lemma v4Position_bit: "v4Position c = (w, b) \<Longrightarrow> b < 256"
  by (auto simp: v4Position_def land_255)

definition v4_ok :: "v4_pool \<Rightarrow> bool" where
  "v4_ok p \<longleftrightarrow> 0 < v4_tickSpacing p \<and> v4_tickSpacing p \<le> 2 ^ 22
     \<and> - (2 ^ 23) \<le> v4_tick p \<and> v4_tick p < 2 ^ 23"

lemma v4Compress_floor:
  assumes "0 < sp" and "- (2 ^ 23) \<le> t" and "t < 2 ^ 23"
  shows "v4Compress t sp = Some (t div sp)"
    and "- (2 ^ 23) \<le> t div sp" and "t div sp < 2 ^ 23"
proof -
  have "- (2 ^ 23) * sp \<le> - (2 ^ 23) * 1" using assms(1) by (intro mult_left_mono_neg) simp_all
  then have "- (2 ^ 23) * sp div sp \<le> t div sp" using assms by (intro zdiv_mono1) simp_all
  moreover have "- (2 ^ 23) * sp div sp = - (2 ^ 23)" using assms(1) by (intro nonzero_mult_div_cancel_right) simp
  ultimately show lo: "- (2 ^ 23) \<le> t div sp" by linarith
  have "t < 2 ^ 23 * sp" using assms mult_left_mono [of 1 sp "2 ^ 23"] by simp
  then show hi: "t div sp < 2 ^ 23" using assms(1) by (intro div_lt_when) simp_all
  note f = go_quot_floor [OF assms(1), of t]
  have "go_quot t sp = t div sp \<or> go_quot t sp = t div sp + 1" using f by (auto split: if_splits)
  then have "to_int32 (go_quot t sp) = go_quot t sp" using lo hi by (intro to_int32_id) auto
  moreover have "to_int32 (t div sp) = t div sp" using lo hi by (intro to_int32_id) auto
  ultimately show "v4Compress t sp = Some (t div sp)"
    using f assms(1) by (auto simp: v4Compress_def Let_def split: if_splits)
qed

lemma tick_in_32:
  fixes c k S t :: int
  assumes "0 < S" and "S \<le> 2 ^ 22" and "- (2 ^ 23) \<le> t" and "t < 2 ^ 23"
    and "t div S - 255 \<le> c" and "c \<le> t div S + 256"
  shows "to_int32 (c * S) = c * S"
proof (rule to_int32_id)
  have eq: "t div S * S = t - t mod S" by (simp add: minus_mod_eq_div_mult)
  have m: "0 \<le> t mod S" "t mod S < S" using assms(1) by simp_all
  have "(t div S - 255) * S \<le> c * S" "c * S \<le> (t div S + 256) * S"
    using assms by (simp_all add: mult_right_mono)
  then have "t - t mod S - 255 * S \<le> c * S" "c * S \<le> t - t mod S + 256 * S"
    by (simp_all add: eq [symmetric] algebra_simps)
  then show "- (2 ^ 31) \<le> c * S" "c * S < 2 ^ 31" using m assms(2-4) by simp_all
qed

lemma v4_next_ahead:
  assumes "0 < v4_tickSpacing p" and "v4_tickSpacing p \<le> 2 ^ 22" and "- (2 ^ 23) \<le> t" and "t < 2 ^ 23"
  shows "\<exists>nx ini. v4_nextInitializedTick p t z = Some (nx, ini) \<and> (if z then nx \<le> t else t < nx)"
proof -
  define S c where "S = v4_tickSpacing p" and "c = t div S"
  have S: "0 < S" "S \<le> 2 ^ 22" using assms by (simp_all add: S_def)
  note cf = v4Compress_floor [OF S(1) assms(3,4), folded c_def]
  have eq: "c * S = t - t mod S" by (simp add: c_def minus_mod_eq_div_mult)
  have m: "0 \<le> t mod S" "t mod S < S" using S(1) by simp_all
  have down: "to_int32 ((c - k) * S) = (c - k) * S \<and> (c - k) * S \<le> t" if "0 \<le> k" "k \<le> 255" for k
  proof -
    have "(c - k) * S \<le> c * S" using that S(1) by simp
    then have "(c - k) * S \<le> t" using eq m by linarith
    moreover have "to_int32 ((c - k) * S) = (c - k) * S"
      using that by (intro tick_in_32 [OF S assms(3,4)]) (simp_all add: c_def)
    ultimately show ?thesis by blast
  qed
  have up: "to_int32 ((c + 1 + k) * S) = (c + 1 + k) * S \<and> t < (c + 1 + k) * S" if "0 \<le> k" "k \<le> 255" for k
  proof -
    have "(c + 1) * S \<le> (c + 1 + k) * S" using that S(1) by simp
    moreover have "(c + 1) * S = c * S + S" by (simp add: algebra_simps)
    ultimately have "t < (c + 1 + k) * S" using eq m by linarith
    moreover have "to_int32 ((c + 1 + k) * S) = (c + 1 + k) * S"
      using that by (intro tick_in_32 [OF S assms(3,4)]) (simp_all add: c_def)
    ultimately show ?thesis by blast
  qed
  show ?thesis
  proof (cases z)
    case True
    obtain w b where pos: "v4Position c = (w, b)" by fastforce
    define k where "k = get0 (v4_bitmapWords p) w AND (push_bit (b + 1) 1 - 1)"
    have b: "b \<le> 255" using v4Position_bit [OF pos] by simp
    note nx = v4_nextInitializedTick_def [of p t True, unfolded S_def [symmetric] cf(1) option.case if_True pos
        prod.case Let_def k_def [symmetric]]
    have mb: "bit k i \<longleftrightarrow> bit (get0 (v4_bitmapWords p) w) i \<and> i < b + 1" for i
      unfolding k_def by (rule bit_below_mask)
    have "top_bit k \<le> b" if "k \<noteq> 0"
      using top_bit_in [OF that] mb [of "top_bit k"] by simp
    then have "\<exists>j. 0 \<le> j \<and> j \<le> 255 \<and> v4_nextInitializedTick p t z = Some (to_int32 ((c - j) * S), k \<noteq> 0)"
      using b by (intro exI [of _ "if k \<noteq> 0 then int b - int (top_bit k) else int b"])
        (simp add: True nx)
    then show ?thesis using down True by auto
  next
    case False
    have one: "to_int32 (c + 1) = c + 1" using cf(2,3) by (intro to_int32_id) simp_all
    obtain w b where pos: "v4Position (c + 1) = (w, b)" by fastforce
    define k where "k = get0 (v4_bitmapWords p) w AND (NOT (push_bit b 1 - 1) AND u256MaxU)"
    have b: "b \<le> 255" using v4Position_bit [OF pos] by simp
    note nx = v4_nextInitializedTick_def [of p t False, unfolded S_def [symmetric] cf(1) option.case if_False Let_def
        one pos prod.case k_def [symmetric]]
    have mb: "bit k i \<longleftrightarrow> bit (get0 (v4_bitmapWords p) w) i \<and> b \<le> i" for i
      unfolding k_def by (rule bit_above_mask)
    have "b \<le> low_bit k \<and> low_bit k < 256" if "k \<noteq> 0"
      using low_bit_in [OF that] mb [of "low_bit k"] by simp
    then have "\<exists>j. 0 \<le> j \<and> j \<le> 255 \<and> v4_nextInitializedTick p t z = Some (to_int32 ((c + 1 + j) * S), k \<noteq> 0)"
      using b by (intro exI [of _ "if k \<noteq> 0 then int (low_bit k) - int b else 255 - int b"])
        (auto simp: False nx)
    then show ?thesis using up False by auto
  qed
qed

text \<open>A step that does not arrive at the price of the next tick is the last one.\<close>

lemma v4_step_ends:
  assumes "\<not> (q_rem (v4_step tickOf md p z nt ini s) = 0
    \<or> q_price (v4_step tickOf md p z nt ini s) = price_limit z)"
  shows "q_price (v4_step tickOf md p z nt ini s) = getSqrtRatioAtTickU256Compute nt"
    and "step_target z (getSqrtRatioAtTickU256Compute nt) = getSqrtRatioAtTickU256Compute nt"
    and "q_tick (v4_step tickOf md p z nt ini s) = (if z then to_int32 (nt - 1) else nt)"
proof -
  define np where "np = getSqrtRatioAtTickU256Compute nt"
  obtain newPrice ain aout fee where step:
    "v4ComputeSwapStepU256 md (q_price s) (step_target z np) (q_liq s) (q_rem s) (v4_swapFee p z)
      = (newPrice, ain, aout, fee)"
    by (metis prod_cases4)
  have fields: "q_rem (v4_step tickOf md p z nt ini s) = q_rem s - (ain + fee)"
    "q_price (v4_step tickOf md p z nt ini s) = newPrice"
    "newPrice = np \<Longrightarrow> q_tick (v4_step tickOf md p z nt ini s) = (if z then to_int32 (nt - 1) else nt)"
    using step by (simp_all add: v4_step_def Let_def np_def)
  have "newPrice = step_target z np"
    using assms v4ComputeSwapStepU256_partial [OF step] fields(1) by auto
  moreover have "step_target z np = np \<or> step_target z np = price_limit z"
    by (auto simp: step_target_def)
  ultimately have "newPrice = np" "step_target z np = np" using assms fields(2) by auto
  with fields show "q_price (v4_step tickOf md p z nt ini s) = getSqrtRatioAtTickU256Compute nt"
    and "step_target z (getSqrtRatioAtTickU256Compute nt) = getSqrtRatioAtTickU256Compute nt"
    and "q_tick (v4_step tickOf md p z nt ini s) = (if z then to_int32 (nt - 1) else nt)"
    by (simp_all add: np_def)
qed

lemma sqrt_ratio_bounds_u256:
  "getSqrtRatioAtTickU256Compute algebraMinTick = u256MinSqr"
  "getSqrtRatioAtTickU256Compute algebraMaxTick = u256MaxSqr"
  using sqrt_ratio_min sqrt_ratio_max
    getSqrtRatioAtTickU256Compute_refines [of "- 887272"] getSqrtRatioAtTickU256Compute_refines [of 887272]
  by (simp_all add: algebraMinTick_def algebraMaxTick_def u256MinSqr_def u256MaxSqr_def word_eq_iff_uint)

lemma target_at_bound:
  "step_target True (getSqrtRatioAtTickU256Compute algebraMinTick) \<noteq> getSqrtRatioAtTickU256Compute algebraMinTick"
  "step_target False (getSqrtRatioAtTickU256Compute algebraMaxTick) \<noteq> getSqrtRatioAtTickU256Compute algebraMaxTick"
  by (simp_all add: sqrt_ratio_bounds_u256 step_target_def price_limit_def u256MinSqr_def u256MaxSqr_def)

text \<open>How many ticks are left before the bound in the direction of the swap.\<close>

definition ticks_left :: "bool \<Rightarrow> int \<Rightarrow> nat" where
  "ticks_left z t = nat (if z then t - algebraMinTick else algebraMaxTick - t)"

lemma v4_step_advances:
  assumes "0 < v4_tickSpacing p" and "v4_tickSpacing p \<le> 2 ^ 22"
    and "- (2 ^ 23) \<le> q_tick s" and "q_tick s < 2 ^ 23"
    and "v4_nextInitializedTick p (q_tick s) z = Some (nx, ini)"
    and "\<not> (q_rem (v4_step tickOf md p z (clamp_tick nx) ini s) = 0
      \<or> q_price (v4_step tickOf md p z (clamp_tick nx) ini s) = price_limit z)"
  shows "ticks_left z (q_tick (v4_step tickOf md p z (clamp_tick nx) ini s)) < ticks_left z (q_tick s)"
    and "- (2 ^ 23) \<le> q_tick (v4_step tickOf md p z (clamp_tick nx) ini s)"
    and "q_tick (v4_step tickOf md p z (clamp_tick nx) ini s) < 2 ^ 23"
proof -
  define nt where "nt = clamp_tick nx"
  note e = v4_step_ends [OF assms(6)]
  have nt: "algebraMinTick \<le> nt" "nt \<le> algebraMaxTick"
    by (auto simp: nt_def clamp_tick_def Let_def algebraMinTick_def algebraMaxTick_def)
  have "if z then nx \<le> q_tick s else q_tick s < nx"
    using v4_next_ahead [OF assms(1-4), of z] assms(5) by auto
  moreover have "if z then nt \<noteq> algebraMinTick else nt \<noteq> algebraMaxTick"
    using e(2) target_at_bound by (auto simp: nt_def)
  ultimately have ord: "if z then algebraMinTick < nt \<and> nt \<le> q_tick s else q_tick s < nt \<and> nt < algebraMaxTick"
    using nt by (auto simp: nt_def clamp_tick_def Let_def split: if_splits)
  have t': "q_tick (v4_step tickOf md p z nt ini s) = (if z then nt - 1 else nt)"
    using e(3) nt to_int32_id [of "nt - 1"] by (simp add: nt_def algebraMinTick_def algebraMaxTick_def)
  show "ticks_left z (q_tick (v4_step tickOf md p z (clamp_tick nx) ini s)) < ticks_left z (q_tick s)"
    using ord t' by (auto simp: ticks_left_def nt_def split: if_splits)
  show "- (2 ^ 23) \<le> q_tick (v4_step tickOf md p z (clamp_tick nx) ini s)"
    "q_tick (v4_step tickOf md p z (clamp_tick nx) ini s) < 2 ^ 23"
    using nt t' by (auto simp: nt_def algebraMinTick_def algebraMaxTick_def split: if_splits)
qed

lemma v4_loop_ended: "q_rem s = 0 \<or> q_price s = price_limit z \<Longrightarrow> v4_loop tickOf md p z s = Some (Inr s)"
  by (simp add: v4_loop.simps)

lemma v4_loop_returns:
  assumes "0 < v4_tickSpacing p" and "v4_tickSpacing p \<le> 2 ^ 22"
    and "- (2 ^ 23) \<le> q_tick s" and "q_tick s < 2 ^ 23"
  shows "\<exists>s'. v4_loop tickOf md p z s = Some (Inr s') \<and> (q_rem s' = 0 \<or> q_price s' = price_limit z)"
  using assms(3,4)
proof (induction "ticks_left z (q_tick s)" arbitrary: s rule: less_induct)
  case less
  show ?case
  proof (cases "q_rem s = 0 \<or> q_price s = price_limit z")
    case True
    then show ?thesis by (auto simp: v4_loop_ended)
  next
    case False
    obtain nx ini where nx: "v4_nextInitializedTick p (q_tick s) z = Some (nx, ini)"
      using v4_next_ahead [OF assms(1,2) less.prems, of z] by blast
    define u where "u = v4_step tickOf md p z (clamp_tick nx) ini s"
    have unf: "v4_loop tickOf md p z s = v4_loop tickOf md p z u"
      by (subst v4_loop.simps) (simp add: False nx u_def)
    show ?thesis
    proof (cases "q_rem u = 0 \<or> q_price u = price_limit z")
      case True
      then show ?thesis by (auto simp: unf v4_loop_ended)
    next
      case False
      from v4_step_advances [OF assms(1,2) less.prems nx False [unfolded u_def]]
      show ?thesis unfolding unf u_def by (rule less.hyps)
    qed
  qed
qed

lemma v4_Quote_returns: "v4_ok p \<Longrightarrow> \<exists>out. v4_Quote md p x a b = Some (Inr out)"
  using v4_loop_returns [of p "v4_swap_start p x" "\<lambda>price. fst (getTickAtSqrtRatioU256 Map.empty price)" md "a < b"]
  by (auto simp: v4_ok_def v4_Quote_def v4_swap_start_def Let_def)

lemma FetchV4StateFromBytes_tick:
  "FetchV4StateFromBytes keccak r i sp f = Inr s \<Longrightarrow> - (2 ^ 23) \<le> st_tick s \<and> st_tick s < 2 ^ 23"
  using v4SignExtend24_range
  by (auto simp: FetchV4StateFromBytes_def Let_def split: sum.splits option.splits)

lemma newV4Pool_ok:
  assumes "newV4Pool keccak ids order cache addr reader = (Inr (Some p), cache')"
    and "ids (poolHex addr) = Some info" and "0 < pi_tickSpacing info" and "pi_tickSpacing info \<le> 2 ^ 22"
  shows "v4_ok p"
proof -
  note r = assms(1) [unfolded newV4Pool_def assms(2) option.case Let_def]
  have "v4_tickSpacing p = pi_tickSpacing info \<and> - (2 ^ 23) \<le> v4_tick p \<and> v4_tick p < 2 ^ 23"
  proof (cases "FetchV4StateFromBytes keccak (\<lambda>a slot. Some (reader a slot)) (pi_poolId info)
      (pi_tickSpacing info) (if pi_hookFeePpm info = 0 \<and> pi_hooks info = arenaHookAddress
        then readArenaHookFee keccak reader (pi_poolId info) else pi_hookFeePpm info)")
    case (Inl e)
    with r show ?thesis by (cases e) auto
  next
    case (Inr s)
    then show ?thesis
      using r FetchV4StateFromBytes_tick [OF Inr]
      by (auto simp: case_prod_beta split: if_splits sum.splits)
  qed
  with assms(3,4) show ?thesis by (simp add: v4_ok_def)
qed

subsection \<open>Fees\<close>

lemma mask_12: "(w :: 32 word) AND 0xFFF = take_bit 12 w"
proof -
  have "(0xFFF :: 32 word) = mask 12" by (simp add: mask_eq_exp_minus_1)
  then show ?thesis by (simp only: take_bit_eq_mask)
qed

lemma direction_fee_uint:
  "uint (direction_fee p z) = (if z then uint (v4_protocolFee p) mod 4096
     else uint (v4_protocolFee p) div 4096 mod 4096)"
  by (simp add: direction_fee_def mask_12 unsigned_take_bit_eq take_bit_eq_mod
      unsigned_drop_bit_eq drop_bit_eq_div uint_mod uint_div)

lemma v4_swapFee_uint:
  assumes "uint (v4_lpFee p) \<le> 1000000"
  shows "uint (v4_swapFee p z) = uint (direction_fee p z) + uint (v4_lpFee p)
    - uint (direction_fee p z) * uint (v4_lpFee p) div 1000000"
    and "uint (v4_lpFee p) \<le> uint (v4_swapFee p z)" and "uint (v4_swapFee p z) \<le> 1000000"
proof -
  define P L where "P = uint (direction_fee p z)" and "L = uint (v4_lpFee p)"
  have P: "0 \<le> P" "P < 4096" by (simp_all add: P_def direction_fee_uint)
  have L: "0 \<le> L" "L \<le> 1000000" using assms by (simp_all add: L_def)
  have PL: "0 \<le> P * L" "P * L \<le> 4095 * 1000000" using P L mult_mono [of P 4095 L 1000000] by simp_all
  have dL: "P * L div 1000000 \<le> P" "P + L - 1000000 \<le> P * L div 1000000"
  proof -
    have "P * L \<le> P * 1000000" using P L by (intro mult_left_mono) simp_all
    then show "P * L div 1000000 \<le> P" using zdiv_mono1 [of "P * L" "P * 1000000" 1000000] by simp
    have "0 \<le> (1000000 - P) * (1000000 - L)" using P L by (intro mult_nonneg_nonneg) simp_all
    then have "(P + L - 1000000) * 1000000 \<le> P * L" by (simp add: algebra_simps)
    then show "P + L - 1000000 \<le> P * L div 1000000"
      using zdiv_mono1 [of "(P + L - 1000000) * 1000000" "P * L" 1000000] by simp
  qed
  have nn: "0 \<le> P * L div 1000000" using PL by simp
  have prod: "uint (direction_fee p z * v4_lpFee p) = P * L"
    using PL by (simp add: uint_word_ariths P_def L_def)
  have quot: "uint ((direction_fee p z * v4_lpFee p) div 1000000) = P * L div 1000000"
    by (simp add: uint_div prod)
  have add: "uint (direction_fee p z + v4_lpFee p) = P + L"
    using P L by (simp add: uint_word_ariths P_def L_def)
  have "uint (direction_fee p z + v4_lpFee p - (direction_fee p z * v4_lpFee p) div 1000000)
      = P + L - P * L div 1000000"
    using P L dL nn by (simp add: uint_sub_lem [THEN iffD1] add quot uint_word_ariths(2))
  moreover have "direction_fee p z = 0 \<Longrightarrow> P = 0" by (simp add: P_def)
  ultimately have v: "uint (v4_swapFee p z) = P + L - P * L div 1000000"
    by (auto simp: v4_swapFee_def Let_def L_def)
  then show "uint (v4_swapFee p z) = uint (direction_fee p z) + uint (v4_lpFee p)
    - uint (direction_fee p z) * uint (v4_lpFee p) div 1000000"
    by (simp add: P_def L_def)
  show "uint (v4_lpFee p) \<le> uint (v4_swapFee p z)" "uint (v4_swapFee p z) \<le> 1000000"
    using v dL by (simp_all add: L_def)
qed

end
