(* ===== verification/Pools.thy ===== *)
theory Pools
  imports Go_Prelude
begin

text \<open>
  Models \<open>pathfinder/pools.go\<close> and the data types of \<open>pathfinder/bfs.go\<close> and \<open>encode.go\<close>: the pool
  file, the token graph and the adjacency lists the search runs on.  \<open>HexToAddress\<close> belongs to a
  library and is a parameter.
\<close>

record pool =
  p_address :: address
  p_dex :: string
  p_type :: int
  p_tokens :: "address list"
  p_extra :: string

record route_step =
  rs_pool :: address
  rs_type :: int
  rs_in :: address
  rs_out :: address
  rs_extra :: string

record squish_route =
  sr_steps :: "route_step list"
  sr_volume :: u256

record edge =
  e_pool :: pool
  e_out :: address

record pool_edge =
  pe_idx :: "16 word"
  pe_out :: address
  pe_in :: address

subsection \<open>The string operations of the standard library the parser uses\<close>

fun split_on :: "char \<Rightarrow> string \<Rightarrow> string list" where
  "split_on c [] = [[]]"
| "split_on c (x # xs) =
     (if x = c then [] # split_on c xs
      else (case split_on c xs of [] \<Rightarrow> [[x]] | p # ps \<Rightarrow> (x # p) # ps))"

fun join_with :: "char \<Rightarrow> string list \<Rightarrow> string" where
  "join_with c [] = []"
| "join_with c [p] = p"
| "join_with c (p # q # ps) = p @ [c] @ join_with c (q # ps)"

definition is_space :: "char \<Rightarrow> bool" where
  "is_space c = (c \<in> {CHR '' '', CHR 0x09, CHR 0x0A, CHR 0x0B, CHR 0x0C, CHR 0x0D, CHR 0x85, CHR 0xA0})"

definition trim_space :: "string \<Rightarrow> string" where
  "trim_space s = rev (dropWhile is_space (rev (dropWhile is_space s)))"

definition digit_val :: "char \<Rightarrow> int option" where
  "digit_val c = (let n = int (of_char c) in if 48 \<le> n \<and> n \<le> 57 then Some (n - 48) else None)"

fun digits_val :: "int \<Rightarrow> string \<Rightarrow> int option" where
  "digits_val acc [] = Some acc"
| "digits_val acc (c # cs) =
     (case digit_val c of None \<Rightarrow> None | Some d \<Rightarrow> digits_val (acc * 10 + d) cs)"

text \<open>\<open>strconv.Atoi\<close>: an optional sign, at least one digit, in the range of a 64-bit integer.\<close>

definition atoi :: "string \<Rightarrow> int option" where
  "atoi s =
     (let (neg, ds) = (case s of [] \<Rightarrow> (False, s)
          | c # cs \<Rightarrow> if c = CHR ''-'' then (True, cs) else if c = CHR ''+'' then (False, cs) else (False, s))
      in if ds = [] then None
         else (case digits_val 0 ds of
                 None \<Rightarrow> None
               | Some n \<Rightarrow>
                   let v = (if neg then - n else n)
                   in if - (2 ^ 63) \<le> v \<and> v < 2 ^ 63 then Some v else None))"

subsection \<open>The pool file\<close>

fun parse_tokens :: "(string \<Rightarrow> address) \<Rightarrow> string list \<Rightarrow> address list \<times> string \<Rightarrow> address list \<times> string" where
  "parse_tokens hex [] acc = acc"
| "parse_tokens hex (part # parts) (tokens, extraData) =
     parse_tokens hex parts
       (if take 1 part = ''@'' then (tokens, drop 1 part)
        else if length part = 42 \<and> take 2 part = ''0x'' then (tokens @ [hex part], extraData)
        else (tokens, extraData))"

definition parse_line :: "(string \<Rightarrow> address) \<Rightarrow> string \<Rightarrow> pool option" where
  "parse_line hex line0 =
     (let line = trim_space line0
      in if line = [] then None
         else
           let parts = split_on CHR '':'' line
           in if length parts < 6 then None
              else (case atoi (parts ! 2) of
                      None \<Rightarrow> None
                    | Some poolType \<Rightarrow>
                        let (tokens, extraData) = parse_tokens hex (drop 4 parts) ([], [])
                        in if length tokens < 2 then None
                           else Some \<lparr>p_address = hex (parts ! 0), p_dex = parts ! 1, p_type = poolType,
                                      p_tokens = tokens, p_extra = extraData\<rparr>))"

fun parse_lines :: "(string \<Rightarrow> address) \<Rightarrow> int \<Rightarrow> string list \<Rightarrow> pool list \<Rightarrow> pool list" where
  "parse_lines hex limit [] pools = pools"
| "parse_lines hex limit (line # lines) pools =
     (case parse_line hex line of
        None \<Rightarrow> parse_lines hex limit lines pools
      | Some p \<Rightarrow>
          let pools' = pools @ [p]
          in if 0 < limit \<and> limit \<le> int (length pools') then pools'
             else parse_lines hex limit lines pools')"

definition ParsePools :: "(string \<Rightarrow> address) \<Rightarrow> string \<Rightarrow> int \<Rightarrow> pool list" where
  "ParsePools hex content limit = parse_lines hex limit (tl (split_on CHR 0x0A content)) []"

subsection \<open>The token graph\<close>

text \<open>
  A Go map from tokens to slices, built by appending: reading a missing token gives the empty slice.
\<close>

definition append_edge :: "('k \<Rightarrow> 'e list) \<Rightarrow> 'k \<Rightarrow> 'e \<Rightarrow> 'k \<Rightarrow> 'e list" where
  "append_edge g t e = g(t := g t @ [e])"

definition token_pairs :: "address list \<Rightarrow> (address \<times> address) list" where
  "token_pairs ts =
     [(ts ! i, ts ! j). i \<leftarrow> [0..<length ts], j \<leftarrow> [0..<length ts], i \<noteq> j]"

definition BuildGraph :: "pool list \<Rightarrow> address \<Rightarrow> edge list" where
  "BuildGraph pools =
     fold (\<lambda>p g. fold (\<lambda>(t, u) g. append_edge g t \<lparr>e_pool = p, e_out = u\<rparr>) (token_pairs (p_tokens p)) g)
       pools (\<lambda>_. [])"

text \<open>\<open>known\<close> is \<open>registry.GetFormulaID\<close>; a pool index is cut to 16 bits, as in the code.\<close>

definition BuildAdjacency :: "(address \<Rightarrow> bool) \<Rightarrow> pool list \<Rightarrow> address \<Rightarrow> pool_edge list" where
  "BuildAdjacency known pools =
     fold (\<lambda>(i, p) adj.
         if length (p_tokens p) < 2 then adj
         else if \<not> known (p_address p) then adj
         else fold (\<lambda>(t, u) adj. append_edge adj t \<lparr>pe_idx = word_of_nat i, pe_out = u, pe_in = t\<rparr>)
                (token_pairs (p_tokens p)) adj)
       (zip [0..<length pools] pools) (\<lambda>_. [])"

subsection \<open>Lemmas\<close>

lemma split_on_not_nil [simp]: "split_on c s \<noteq> []"
  by (induction s) (auto split: list.splits)

lemma split_on_plain: "c \<notin> set p \<Longrightarrow> split_on c p = [p]"
  by (induction p) (auto split: list.splits)

lemma split_on_cons: "c \<notin> set p \<Longrightarrow> split_on c (p @ c # rest) = p # split_on c rest"
  by (induction p) (auto split: list.splits)

lemma split_on_join:
  assumes "ps \<noteq> []" and "\<forall>p \<in> set ps. c \<notin> set p"
  shows "split_on c (join_with c ps) = ps"
  using assms
proof (induction c ps rule: join_with.induct)
  case (3 c p q ps)
  then show ?case using split_on_cons [of c p "join_with c (q # ps)"] by simp
qed (simp_all add: split_on_plain)

lemma parse_line_tokens: "parse_line hex line = Some p \<Longrightarrow> 2 \<le> length (p_tokens p)"
  by (auto simp: parse_line_def Let_def split: if_splits option.splits prod.splits)

lemma parse_lines_tokens:
  "\<forall>p \<in> set acc. 2 \<le> length (p_tokens p) \<Longrightarrow> \<forall>p \<in> set (parse_lines hex limit lines acc). 2 \<le> length (p_tokens p)"
proof (induction lines arbitrary: acc)
  case (Cons l ls)
  show ?case
  proof (cases "parse_line hex l")
    case None
    with Cons show ?thesis by simp
  next
    case (Some p)
    then have all: "\<forall>p \<in> set (acc @ [p]). 2 \<le> length (p_tokens p)"
      using Cons.prems parse_line_tokens by auto
    have "parse_lines hex limit (l # ls) acc = acc @ [p]
        \<or> parse_lines hex limit (l # ls) acc = parse_lines hex limit ls (acc @ [p])"
      using Some by (simp add: Let_def)
    then show ?thesis using all Cons.IH [OF all] by metis
  qed
qed simp

lemma parse_lines_limit:
  "0 < limit \<Longrightarrow> int (length acc) < limit \<Longrightarrow> int (length (parse_lines hex limit lines acc)) \<le> limit"
  by (induction lines arbitrary: acc) (auto simp: Let_def split: option.splits)

lemma set_token_pairs:
  "(t, u) \<in> set (token_pairs ts) \<longleftrightarrow> (\<exists>i j. i < length ts \<and> j < length ts \<and> i \<noteq> j \<and> t = ts ! i \<and> u = ts ! j)"
proof
  assume "(t, u) \<in> set (token_pairs ts)"
  then obtain i j where "i < length ts" "j < length ts" "i \<noteq> j" "t = ts ! i" "u = ts ! j"
    unfolding token_pairs_def by (auto split: if_splits)
  then show "\<exists>i j. i < length ts \<and> j < length ts \<and> i \<noteq> j \<and> t = ts ! i \<and> u = ts ! j"
    by (intro exI conjI)
next
  assume "\<exists>i j. i < length ts \<and> j < length ts \<and> i \<noteq> j \<and> t = ts ! i \<and> u = ts ! j"
  then obtain i j where "i < length ts" "j < length ts" "i \<noteq> j" and eq: "t = ts ! i" "u = ts ! j"
    by blast
  then show "(t, u) \<in> set (token_pairs ts)" unfolding eq token_pairs_def by force
qed

lemma fold_append_edge:
  "set (fold (\<lambda>(t, u) g. append_edge g t (f t u)) ps g k) = set (g k) \<union> {f k u |u. (k, u) \<in> set ps}"
  by (induction ps arbitrary: g) (auto simp: append_edge_def split: if_splits)

lemma BuildGraph_edges:
  "set (BuildGraph pools t) =
     {\<lparr>e_pool = p, e_out = u\<rparr> |p u. p \<in> set pools \<and> (t, u) \<in> set (token_pairs (p_tokens p))}"
proof -
  have "set (fold (\<lambda>p g. fold (\<lambda>(t, u) g. append_edge g t \<lparr>e_pool = p, e_out = u\<rparr>)
        (token_pairs (p_tokens p)) g) pools g t)
      = set (g t) \<union> {\<lparr>e_pool = p, e_out = u\<rparr> |p u. p \<in> set pools \<and> (t, u) \<in> set (token_pairs (p_tokens p))}" for g
    by (induction pools arbitrary: g) (auto simp: fold_append_edge)
  then show ?thesis by (simp add: BuildGraph_def)
qed

lemma BuildAdjacency_edges:
  "e \<in> set (BuildAdjacency known pools t) \<longleftrightarrow>
     (\<exists>i u. i < length pools \<and> known (p_address (pools ! i)) \<and> 2 \<le> length (p_tokens (pools ! i))
        \<and> (t, u) \<in> set (token_pairs (p_tokens (pools ! i)))
        \<and> e = \<lparr>pe_idx = word_of_nat i, pe_out = u, pe_in = t\<rparr>)"
proof -
  define step where "step = (\<lambda>(i :: nat, p :: pool) adj.
         if length (p_tokens p) < 2 then adj
         else if \<not> known (p_address p) then adj
         else fold (\<lambda>(t, u) adj. append_edge adj t (\<lparr>pe_idx = word_of_nat i, pe_out = u, pe_in = t\<rparr> :: pool_edge))
                (token_pairs (p_tokens p)) adj)"
  have "e \<in> set (fold step ips adj t) \<longleftrightarrow> e \<in> set (adj t) \<or>
     (\<exists>i p u. (i, p) \<in> set ips \<and> known (p_address p) \<and> 2 \<le> length (p_tokens p)
        \<and> (t, u) \<in> set (token_pairs (p_tokens p))
        \<and> e = \<lparr>pe_idx = word_of_nat i, pe_out = u, pe_in = t\<rparr>)" for ips adj
  proof (induction ips arbitrary: adj)
    case (Cons ip ips)
    obtain i p where ip: "ip = (i, p)" by force
    show ?case
      unfolding fold_simps comp_def Cons.IH unfolding ip
      by (auto simp: step_def fold_append_edge not_le) blast+
  qed simp
  moreover have "(i, p) \<in> set (zip [0..<length pools] pools) \<longleftrightarrow> i < length pools \<and> p = pools ! i" for i p
    by (force simp: set_zip)
  ultimately show ?thesis
    unfolding BuildAdjacency_def step_def [symmetric] by auto
qed

text \<open>A line of colon-separated fields is read field by field.\<close>

lemma parse_tokens_acc:
  "parse_tokens hex parts (tokens, extra) =
     (tokens @ map hex (filter (\<lambda>p. take 1 p \<noteq> ''@'' \<and> length p = 42 \<and> take 2 p = ''0x'') parts),
      fold (\<lambda>p e. if take 1 p = ''@'' then drop 1 p else e) parts extra)"
  by (induction parts arbitrary: tokens extra) simp_all

lemma parse_line_fields:
  assumes "\<forall>p \<in> set (a # d # ty # blk # rest). CHR '':'' \<notin> set p"
    and "trim_space (join_with CHR '':'' (a # d # ty # blk # rest)) = join_with CHR '':'' (a # d # ty # blk # rest)"
    and "2 \<le> length rest" and "atoi ty = Some n"
    and "tokens = map hex (filter (\<lambda>p. take 1 p \<noteq> ''@'' \<and> length p = 42 \<and> take 2 p = ''0x'') rest)"
    and "2 \<le> length tokens"
  shows "parse_line hex (join_with CHR '':'' (a # d # ty # blk # rest)) =
    Some \<lparr>p_address = hex a, p_dex = d, p_type = n, p_tokens = tokens,
          p_extra = fold (\<lambda>p e. if take 1 p = ''@'' then drop 1 p else e) rest []\<rparr>"
proof -
  have sp: "split_on CHR '':'' (join_with CHR '':'' (a # d # ty # blk # rest)) = a # d # ty # blk # rest"
    using assms(1) by (intro split_on_join) auto
  have ne: "join_with CHR '':'' (a # d # ty # blk # rest) \<noteq> []" by simp
  show ?thesis
    unfolding parse_line_def Let_def assms(2) sp using ne assms(3-6)
    by (simp add: parse_tokens_acc del: join_with.simps One_nat_def)
qed

end
