(* ===== verification/Route_Merge.thy ===== *)
theory Route_Merge
  imports Pools "HOL-Library.Multiset"
begin

text \<open>
  Models \<open>pathfinder/merge.go\<close>: the suffix trie built from the reversed legs of a split route, the
  post-order emission, the merging of shared first hops and the collapsing of duplicate calls.
\<close>

subsection \<open>The suffix trie\<close>

type_synonym merge_key = "address \<times> address \<times> address"

definition stepMergeKey :: "route_step \<Rightarrow> merge_key" where
  "stepMergeKey s = (rs_pool s, rs_in s, rs_out s)"

datatype merge_node = Node (n_step: route_step) (n_children: "merge_node list") (n_volumes: "u256 list")

definition n_key :: "merge_node \<Rightarrow> merge_key" where
  "n_key n = stepMergeKey (n_step n)"

text \<open>
  Insert the rest of a reversed leg below a list of children: follow the first child with the key of
  the step, or append a new one.  The volume lands on the node of the leg's first step.
\<close>

fun insert_rev :: "route_step list \<Rightarrow> u256 \<Rightarrow> merge_node list \<Rightarrow> merge_node list"
and insert_at :: "route_step \<Rightarrow> route_step list \<Rightarrow> u256 \<Rightarrow> merge_node list \<Rightarrow> merge_node list" where
  "insert_rev [] v chs = chs"
| "insert_rev (st # sts) v chs = insert_at st sts v chs"
| "insert_at st [] v [] = [Node st [] [v]]"
| "insert_at st (st' # sts) v [] = [Node st (insert_at st' sts v []) []]"
| "insert_at st [] v (Node s ks vs # chs) =
     (if stepMergeKey s = stepMergeKey st then Node s ks (vs @ [v]) # chs
      else Node s ks vs # insert_at st [] v chs)"
| "insert_at st (st' # sts) v (Node s ks vs # chs) =
     (if stepMergeKey s = stepMergeKey st then Node s (insert_at st' sts v ks) vs # chs
      else Node s ks vs # insert_at st (st' # sts) v chs)"

definition build_trie :: "squish_route list \<Rightarrow> merge_node list" where
  "build_trie routes =
     fold (\<lambda>r root. insert_rev (rev (sr_steps r)) (sr_volume r) root) routes []"

definition rebuildPath :: "merge_node \<Rightarrow> route_step list" where
  "rebuildPath n = [n_step n]"

text \<open>
  Take the volumes off every node that has volumes and children, as one leg of \<open>rebuildPath\<close> each.
\<close>

fun extract_node :: "merge_node \<Rightarrow> merge_node \<times> squish_route list"
and extractMixed :: "merge_node list \<Rightarrow> merge_node list \<times> squish_route list" where
  "extract_node (Node s ks vs) =
     (case extractMixed ks of (ks', out) \<Rightarrow>
        if vs \<noteq> [] \<and> ks \<noteq> [] then
          (Node s ks' [], out @ map (\<lambda>v. \<lparr>sr_steps = rebuildPath (Node s ks vs), sr_volume = v\<rparr>) vs)
        else (Node s ks' vs, out))"
| "extractMixed [] = ([], [])"
| "extractMixed (n # ns) =
     (case extract_node n of (n', out) \<Rightarrow> case extractMixed ns of (ns', out') \<Rightarrow> (n' # ns', out @ out'))"

type_synonym call = "route_step \<times> u256"

fun emitDFS :: "merge_node \<Rightarrow> call list"
and emit_all :: "merge_node list \<Rightarrow> call list" where
  "emitDFS (Node s ks vs) = emit_all ks @ [(s, if vs \<noteq> [] then sum_list vs else 0)]"
| "emit_all [] = []"
| "emit_all (n # ns) = emitDFS n @ emit_all ns"

definition leg_calls :: "squish_route \<Rightarrow> call list" where
  "leg_calls r = (case sr_steps r of [] \<Rightarrow> [] | s # ss \<Rightarrow> (s, sr_volume r) # map (\<lambda>s. (s, 0)) ss)"

subsection \<open>First-hop merging\<close>

text \<open>
  A branch is a call with a non-zero amount and the balance calls after it; calls before the first
  non-zero amount belong to no branch.
\<close>

function split_branches :: "call list \<Rightarrow> call list list" where
  "split_branches [] = []"
| "split_branches (c # cs) =
     (if snd c \<noteq> 0 then (c # takeWhile (\<lambda>c. snd c = 0) cs) # split_branches (dropWhile (\<lambda>c. snd c = 0) cs)
      else split_branches cs)"
  by pat_completeness auto
termination
  by (relation "measure length") (auto simp: le_imp_less_Suc length_dropWhile_le)

definition branch_key :: "call list \<Rightarrow> merge_key" where
  "branch_key b = stepMergeKey (fst (hd b))"

fun key_order :: "call list list \<Rightarrow> merge_key list" where
  "key_order [] = []"
| "key_order (b # bs) = branch_key b # filter (\<lambda>k. k \<noteq> branch_key b) (key_order bs)"

definition group_of :: "call list list \<Rightarrow> merge_key \<Rightarrow> call list list" where
  "group_of branches k = filter (\<lambda>b. branch_key b = k) branches"

definition mergeable :: "call list list \<Rightarrow> bool" where
  "mergeable g = (1 < length g \<and> (\<forall>b \<in> set g. 2 \<le> length b))"

definition emit_tail :: "(route_step \<Rightarrow> u256 \<Rightarrow> u256) \<Rightarrow> route_step \<Rightarrow> call list \<Rightarrow> call list" where
  "emit_tail quoter step b =
     (case b of
        (s0, v) # (s1, _) # rest \<Rightarrow> (s1, quoter step v) # rest
      | _ \<Rightarrow> [])"

definition emit_group :: "(route_step \<Rightarrow> u256 \<Rightarrow> u256) \<Rightarrow> call list list \<Rightarrow> call list" where
  "emit_group quoter g =
     (if mergeable g then
        (let step = fst (hd (hd g))
         in (step, sum_list (map (\<lambda>b. snd (hd b)) g)) # concat (map (emit_tail quoter step) g))
      else concat g)"

definition mergeFirstHops :: "(route_step \<Rightarrow> u256 \<Rightarrow> u256) \<Rightarrow> call list \<Rightarrow> call list" where
  "mergeFirstHops quoter calls =
     (let branches = split_branches calls;
          groups = map (group_of branches) (key_order branches)
      in if length branches < 2 then calls
         else if \<not> (\<exists>g \<in> set groups. mergeable g) then calls
         else concat (map (emit_group quoter) groups))"

subsection \<open>Collapsing duplicate calls\<close>

text \<open>The inner loop: the first later call that may be merged into call \<open>i\<close>.\<close>

definition collapse_safe :: "call list \<Rightarrow> nat \<Rightarrow> nat \<Rightarrow> bool" where
  "collapse_safe calls i j =
     (\<forall>k \<in> set [i + 1..<j]. snd (calls ! k) \<noteq> 0 \<or>
        (rs_in (fst (calls ! k)) \<noteq> rs_in (fst (calls ! i)) \<and> rs_in (fst (calls ! k)) \<noteq> rs_out (fst (calls ! i))))"

definition collapse_pair :: "call list \<Rightarrow> (nat \<times> nat) option" where
  "collapse_pair calls =
     List.find (\<lambda>(i, j). snd (calls ! i) \<noteq> 0 \<and> snd (calls ! j) \<noteq> 0
         \<and> stepMergeKey (fst (calls ! j)) = stepMergeKey (fst (calls ! i)) \<and> collapse_safe calls i j)
       [(i, j). i \<leftarrow> [0..<length calls], j \<leftarrow> [i + 1..<length calls]]"

definition collapse_at :: "call list \<Rightarrow> nat \<Rightarrow> nat \<Rightarrow> call list" where
  "collapse_at calls i j =
     (let calls' = calls[i := (fst (calls ! i), snd (calls ! i) + snd (calls ! j))]
      in take j calls' @ drop (j + 1) calls')"

lemma find_SomeD: "List.find P xs = Some x \<Longrightarrow> P x \<and> x \<in> set xs"
  by (auto simp: find_Some_iff)

lemma collapse_pair_bounds:
  "collapse_pair calls = Some (i, j) \<Longrightarrow> i < j \<and> j < length calls"
  unfolding collapse_pair_def by (drule find_SomeD) auto

function collapse_loop :: "call list \<Rightarrow> call list" where
  "collapse_loop calls =
     (case collapse_pair calls of None \<Rightarrow> calls | Some (i, j) \<Rightarrow> collapse_loop (collapse_at calls i j))"
  by pat_completeness auto
termination
  by (relation "measure length")
    (auto simp: collapse_at_def Let_def dest!: collapse_pair_bounds)

declare collapse_loop.simps [simp del]

definition collapseDuplicates :: "call list \<Rightarrow> call list" where
  "collapseDuplicates calls = (if length calls < 2 then calls else collapse_loop calls)"

subsection \<open>The whole merge\<close>

text \<open>A single leg without steps makes the code index an empty slice, which is \<open>None\<close>.\<close>

definition mergeRoutesInner ::
  "squish_route list \<Rightarrow> (route_step \<Rightarrow> u256 \<Rightarrow> u256) option \<Rightarrow> call list option" where
  "mergeRoutesInner routes quoter =
     (case routes of
        [] \<Rightarrow> Some []
      | [r] \<Rightarrow> if sr_steps r = [] then None else Some (leg_calls r)
      | _ \<Rightarrow>
          let (root, overflow) = extractMixed (build_trie routes);
              calls = emit_all root @ concat (map leg_calls overflow);
              calls' = (case quoter of Some q \<Rightarrow> mergeFirstHops q calls | None \<Rightarrow> calls)
          in Some (collapseDuplicates calls'))"

definition MergeRoutes :: "squish_route list \<Rightarrow> call list option" where
  "MergeRoutes routes = mergeRoutesInner routes None"

definition MergeRoutesWithQuoter ::
  "squish_route list \<Rightarrow> (route_step \<Rightarrow> u256 \<Rightarrow> u256) \<Rightarrow> call list option" where
  "MergeRoutesWithQuoter routes quoter = mergeRoutesInner routes (Some quoter)"

subsection \<open>Volume is conserved\<close>

fun node_volume :: "merge_node \<Rightarrow> u256" and nodes_volume :: "merge_node list \<Rightarrow> u256" where
  "node_volume (Node s ks vs) = nodes_volume ks + sum_list vs"
| "nodes_volume [] = 0"
| "nodes_volume (n # ns) = node_volume n + nodes_volume ns"

definition calls_volume :: "call list \<Rightarrow> u256" where
  "calls_volume cs = sum_list (map snd cs)"

definition legs_volume :: "squish_route list \<Rightarrow> u256" where
  "legs_volume rs = sum_list (map (\<lambda>r. if sr_steps r = [] then 0 else sr_volume r) rs)"

lemma calls_volume_simps [simp]:
  "calls_volume [] = 0" "calls_volume (c # cs) = snd c + calls_volume cs"
  "calls_volume (cs @ ds) = calls_volume cs + calls_volume ds"
  by (simp_all add: calls_volume_def)

lemma insert_volume:
  "nodes_volume (insert_rev sts v chs) = nodes_volume chs + (if sts = [] then 0 else v)"
  "nodes_volume (insert_at st sts v chs) = nodes_volume chs + v"
  by (induction sts v chs and st sts v chs rule: insert_rev_insert_at.induct) auto

lemma build_trie_volume: "nodes_volume (build_trie rs) = legs_volume rs"
proof -
  have "nodes_volume (fold (\<lambda>r root. insert_rev (rev (sr_steps r)) (sr_volume r) root) rs root)
      = nodes_volume root + legs_volume rs" for root
    by (induction rs arbitrary: root) (simp_all add: insert_volume legs_volume_def add.assoc)
  then show ?thesis by (simp add: build_trie_def)
qed

lemma extract_volume:
  "node_volume (fst (extract_node n)) + legs_volume (snd (extract_node n)) = node_volume n"
  "nodes_volume (fst (extractMixed ns)) + legs_volume (snd (extractMixed ns)) = nodes_volume ns"
proof (induction n and ns rule: extract_node_extractMixed.induct)
  case (1 s ks vs)
  obtain ks' out where e: "extractMixed ks = (ks', out)" by force
  have "legs_volume (map (\<lambda>v. \<lparr>sr_steps = rebuildPath (Node s ks vs), sr_volume = v\<rparr>) vs) = sum_list vs"
    by (simp add: legs_volume_def rebuildPath_def comp_def)
  then show ?case using 1 e by (auto simp: legs_volume_def add_ac)
next
  case (3 n ns)
  obtain n' out ns' out' where e: "extract_node n = (n', out)" "extractMixed ns = (ns', out')"
    by (metis surj_pair)
  have n: "node_volume n = node_volume n' + legs_volume out"
    and ns: "nodes_volume ns = nodes_volume ns' + legs_volume out'"
    using 3(1) 3(2) [OF e(1) [symmetric]] e by simp_all
  have "legs_volume (out @ out') = legs_volume out + legs_volume out'" by (simp add: legs_volume_def)
  with n ns e show ?case by (simp add: add_ac)
qed (simp add: legs_volume_def)

lemma emit_volume:
  "calls_volume (emitDFS n) = node_volume n" "calls_volume (emit_all ns) = nodes_volume ns"
  by (induction n and ns rule: emitDFS_emit_all.induct) auto

lemma leg_volume: "calls_volume (leg_calls r) = (if sr_steps r = [] then 0 else sr_volume r)"
  by (auto simp: leg_calls_def calls_volume_def comp_def split: list.splits)

lemma legs_calls_volume: "calls_volume (concat (map leg_calls rs)) = legs_volume rs"
  by (induction rs) (auto simp: leg_volume legs_volume_def)

lemma calls_volume_update:
  "i < length cs \<Longrightarrow> calls_volume (cs[i := (s, snd (cs ! i) + w)]) = calls_volume cs + w"
proof (induction cs arbitrary: i)
  case (Cons c cs)
  then show ?case by (cases i) (simp_all add: add_ac)
qed simp

lemma collapse_at_volume:
  assumes "i < j" and "j < length calls"
  shows "calls_volume (collapse_at calls i j) = calls_volume calls"
proof -
  define a where "a = snd (calls ! i) + snd (calls ! j)"
  define cs where "cs = calls[i := (fst (calls ! i), a)]"
  have "calls_volume calls = calls_volume (take j calls) + snd (calls ! j) + calls_volume (drop (Suc j) calls)"
    using assms(2) by (subst id_take_nth_drop [of j calls]) simp_all
  moreover have "calls_volume (take j cs) = calls_volume (take j calls) + snd (calls ! j)"
    using assms calls_volume_update [of i "take j calls" "fst (calls ! i)" "snd (calls ! j)"]
    by (simp add: cs_def a_def take_update_swap)
  moreover have "drop (Suc j) cs = drop (Suc j) calls" using assms by (simp add: cs_def)
  ultimately show ?thesis by (simp add: collapse_at_def Let_def cs_def [symmetric] a_def [symmetric])
qed

lemma collapse_loop_volume: "calls_volume (collapse_loop calls) = calls_volume calls"
proof (induction calls rule: collapse_loop.induct)
  case (1 calls)
  show ?case
  proof (cases "collapse_pair calls")
    case None
    then show ?thesis by (simp add: collapse_loop.simps [of calls])
  next
    case (Some ij)
    obtain i j where ij: "ij = (i, j)" by force
    with Some have c: "collapse_pair calls = Some (i, j)" by simp
    then show ?thesis
      using 1 [OF c refl] collapse_pair_bounds [OF c] by (simp add: collapse_loop.simps [of calls] collapse_at_volume)
  qed
qed

lemma MergeRoutes_volume:
  assumes "MergeRoutes rs = Some calls"
  shows "calls_volume calls = legs_volume rs"
proof -
  consider "rs = []" | r where "rs = [r]" | r1 r2 rs' where "rs = r1 # r2 # rs'"
    by (metis list.exhaust)
  then show ?thesis
  proof cases
    case 1
    with assms show ?thesis by (simp add: MergeRoutes_def mergeRoutesInner_def legs_volume_def)
  next
    case 2
    with assms show ?thesis
      by (auto simp: MergeRoutes_def mergeRoutesInner_def legs_volume_def leg_volume split: if_splits)
  next
    case 3
    obtain root overflow where e: "extractMixed (build_trie rs) = (root, overflow)" by force
    have "calls = collapseDuplicates (emit_all root @ concat (map leg_calls overflow))"
      using assms 3 e by (simp add: MergeRoutes_def mergeRoutesInner_def)
    moreover have "nodes_volume root + legs_volume overflow = legs_volume rs"
      using extract_volume(2) [of "build_trie rs"] e by (simp add: build_trie_volume)
    ultimately show ?thesis
      by (simp add: collapseDuplicates_def collapse_loop_volume emit_volume legs_calls_volume)
  qed
qed

lemma collapse_loop_done: "collapse_pair (collapse_loop calls) = None"
proof (induction calls rule: collapse_loop.induct)
  case (1 calls)
  then show ?case
    by (subst collapse_loop.simps) (auto split: option.splits prod.splits)
qed

subsection \<open>Every call is fed\<close>

text \<open>
  \<open>fed S outs calls\<close>: every call is the first hop of a leg (its key is in \<open>S\<close>) or takes a token that
  an earlier call has put out.
\<close>

fun fed :: "merge_key set \<Rightarrow> address set \<Rightarrow> route_step list \<Rightarrow> bool" where
  "fed S outs [] = True"
| "fed S outs (s # ss) = ((stepMergeKey s \<in> S \<or> rs_in s \<in> outs) \<and> fed S (insert (rs_out s) outs) ss)"

lemma fed_append: "fed S outs (xs @ ys) \<longleftrightarrow> fed S outs xs \<and> fed S (outs \<union> rs_out ` set xs) ys"
  by (induction xs arbitrary: outs) auto

lemma fed_mono: "fed S outs xs \<Longrightarrow> outs \<subseteq> outs' \<Longrightarrow> fed S outs' xs"
proof (induction xs arbitrary: outs outs')
  case (Cons x xs)
  from Cons.prems(2) have "insert (rs_out x) outs \<subseteq> insert (rs_out x) outs'" by auto
  with Cons show ?case by auto
qed simp

text \<open>Legs whose consecutive steps join, and the trie they leave behind.\<close>

fun joined_rev :: "route_step list \<Rightarrow> bool" where
  "joined_rev (s # s' # ss) = (rs_out s' = rs_in s \<and> joined_rev (s' # ss))"
| "joined_rev _ = True"

definition leg_joined :: "squish_route \<Rightarrow> bool" where
  "leg_joined r = joined_rev (rev (sr_steps r))"

fun node_ok :: "merge_key set \<Rightarrow> merge_node \<Rightarrow> bool" where
  "node_ok S (Node s ks vs) =
     (((ks = [] \<or> vs \<noteq> []) \<longrightarrow> stepMergeKey s \<in> S)
      \<and> (\<forall>c \<in> set ks. rs_out (n_step c) = rs_in s \<and> node_ok S c))"

lemma key_in: "stepMergeKey s = stepMergeKey t \<Longrightarrow> rs_in s = rs_in t \<and> rs_out s = rs_out t"
  by (simp add: stepMergeKey_def)

lemma insert_at_not_nil: "insert_at st sts v chs \<noteq> []"
  by (cases chs; cases sts) (auto split: merge_node.splits, (metis insert_at.simps(3,4) list.distinct(1) merge_node.exhaust)+)

lemma insert_steps: "n_step ` set (insert_at st sts v chs) \<subseteq> insert st (n_step ` set chs)"
proof (induction chs)
  case Nil
  then show ?case by (cases sts) auto
next
  case (Cons n chs)
  then show ?case by (cases n; cases sts) auto
qed

lemma insert_ok:
  "(\<forall>n \<in> set chs. node_ok S n) \<Longrightarrow> joined_rev (st # sts) \<Longrightarrow> stepMergeKey (last (st # sts)) \<in> S
    \<Longrightarrow> \<forall>n \<in> set (insert_at st sts v chs). node_ok S n"
proof (induction sts arbitrary: st chs)
  case Nil
  show ?case using Nil.prems
  proof (induction chs)
    case (Cons n chs)
    then show ?case by (cases n) (auto simp: stepMergeKey_def)
  qed simp
next
  case (Cons st' sts)
  have below: "node_ok S (Node s (insert_at st' sts v ks) vs)"
    if "rs_in s = rs_in st" "\<forall>c \<in> set ks. rs_out (n_step c) = rs_in s \<and> node_ok S c"
      "vs \<noteq> [] \<longrightarrow> stepMergeKey s \<in> S" for s ks vs
  proof -
    have "\<forall>n \<in> set (insert_at st' sts v ks). node_ok S n"
      using Cons.prems that(2) by (intro Cons.IH) auto
    moreover have "rs_out (n_step c) = rs_in s" if "c \<in> set (insert_at st' sts v ks)" for c
    proof -
      have "n_step c = st' \<or> n_step c \<in> n_step ` set ks"
        using insert_steps [of st' sts v ks] \<open>c \<in> _\<close> by auto
      then show ?thesis using Cons.prems(2) \<open>rs_in s = rs_in st\<close> \<open>\<forall>c \<in> set ks. _\<close> by auto
    qed
    ultimately show ?thesis using that(3) by (simp add: insert_at_not_nil)
  qed
  show ?case using Cons.prems(1)
  proof (induction chs)
    case Nil
    then show ?case using below [of st "[]" "[]"] by simp
  next
    case (Cons n chs)
    obtain s ks vs where n: "n = Node s ks vs" by (cases n)
    with Cons show ?case using below [of s ks vs] key_in [of s st] by auto
  qed
qed

lemma build_trie_ok:
  assumes "\<forall>r \<in> set rs. leg_joined r"
  shows "\<forall>n \<in> set (build_trie rs). node_ok {stepMergeKey (hd (sr_steps r)) |r. r \<in> set rs \<and> sr_steps r \<noteq> []} n"
proof -
  let ?S = "{stepMergeKey (hd (sr_steps r)) |r. r \<in> set rs \<and> sr_steps r \<noteq> []}"
  have "\<forall>n \<in> set (fold (\<lambda>r root. insert_rev (rev (sr_steps r)) (sr_volume r) root) rs' root). node_ok ?S n"
    if "set rs' \<subseteq> set rs" "\<forall>n \<in> set root. node_ok ?S n" for rs' root
    using that
  proof (induction rs' arbitrary: root)
    case (Cons r rs')
    have "\<forall>n \<in> set (insert_rev (rev (sr_steps r)) (sr_volume r) root). node_ok ?S n"
    proof (cases "rev (sr_steps r)")
      case Nil
      with Cons show ?thesis by simp
    next
      case (Cons st sts)
      have last: "last (st # sts) = hd (sr_steps r)" using Cons by (metis last_rev)
      have "r \<in> set rs" "sr_steps r \<noteq> []" using Cons \<open>set (r # rs') \<subseteq> set rs\<close> by auto
      then have "stepMergeKey (last (st # sts)) \<in> ?S" unfolding last by blast
      moreover have "joined_rev (st # sts)"
        using assms Cons \<open>set (r # rs') \<subseteq> set rs\<close> by (auto simp: leg_joined_def)
      ultimately show ?thesis
        using insert_ok [of root ?S st sts] \<open>\<forall>n \<in> set root. node_ok ?S n\<close> Cons by simp
    qed
    with Cons show ?case by simp
  qed simp
  from this [of rs "[]"] show ?thesis by (simp add: build_trie_def)
qed

lemma extract_ok:
  "node_ok S n \<Longrightarrow> node_ok S (fst (extract_node n)) \<and> n_step (fst (extract_node n)) = n_step n
     \<and> (\<forall>r \<in> set (snd (extract_node n)). \<exists>s. sr_steps r = [s] \<and> stepMergeKey s \<in> S)"
  "\<forall>n \<in> set ns. node_ok S n \<Longrightarrow> (\<forall>n \<in> set (fst (extractMixed ns)). node_ok S n)
     \<and> map n_step (fst (extractMixed ns)) = map n_step ns
     \<and> (\<forall>r \<in> set (snd (extractMixed ns)). \<exists>s. sr_steps r = [s] \<and> stepMergeKey s \<in> S)"
proof (induction n and ns rule: extract_node_extractMixed.induct)
  case (1 s ks vs)
  obtain ks' out where e: "extractMixed ks = (ks', out)" by force
  have ih: "\<forall>n \<in> set ks'. node_ok S n" "map n_step ks' = map n_step ks"
    "\<forall>r \<in> set out. \<exists>s. sr_steps r = [s] \<and> stepMergeKey s \<in> S"
    using 1 e by auto
  have st: "\<forall>c \<in> set ks'. rs_out (n_step c) = rs_in s"
  proof
    fix c assume "c \<in> set ks'"
    then have "n_step c \<in> set (map n_step ks)" unfolding ih(2) [symmetric] by simp
    then show "rs_out (n_step c) = rs_in s" using 1(2) by auto
  qed
  have "ks' = [] \<longleftrightarrow> ks = []" using ih(2) by (metis map_is_Nil_conv)
  then show ?case using ih st e 1(2) by (auto simp: rebuildPath_def)
next
  case (3 n ns)
  obtain n' out ns' out' where e: "extract_node n = (n', out)" "extractMixed ns = (ns', out')"
    by (metis surj_pair)
  from 3(1) 3(2) [OF e(1) [symmetric]] 3(3) e show ?case by auto
qed simp

lemma emit_fed:
  "node_ok S n \<Longrightarrow> fed S outs (map fst (emitDFS n)) \<and> rs_out (n_step n) \<in> rs_out ` set (map fst (emitDFS n))"
  "\<forall>n \<in> set ns. node_ok S n \<Longrightarrow> fed S outs (map fst (emit_all ns))
     \<and> (\<forall>n \<in> set ns. rs_out (n_step n) \<in> rs_out ` set (map fst (emit_all ns)))"
proof (induction n and ns arbitrary: outs and outs rule: emitDFS_emit_all.induct)
  case (1 s ks vs)
  have kids: "fed S outs (map fst (emit_all ks))"
    "\<forall>n \<in> set ks. rs_out (n_step n) \<in> rs_out ` set (map fst (emit_all ks))"
    using 1 by auto
  have "stepMergeKey s \<in> S \<or> rs_in s \<in> rs_out ` set (map fst (emit_all ks))"
  proof (cases ks)
    case Nil
    with 1 show ?thesis by auto
  next
    case (Cons c cs)
    with 1(2) kids(2) show ?thesis by (metis list.set_intros(1) node_ok.simps)
  qed
  then show ?case using kids by (auto simp: fed_append)
next
  case (3 n ns)
  have "fed S outs (map fst (emitDFS n))" "rs_out (n_step n) \<in> rs_out ` set (map fst (emitDFS n))"
    using 3(1) 3(3) by auto
  moreover have "fed S (outs \<union> rs_out ` set (map fst (emitDFS n))) (map fst (emit_all ns))"
    "\<forall>n \<in> set ns. rs_out (n_step n) \<in> rs_out ` set (map fst (emit_all ns))"
    using 3(2) 3(3) by auto
  ultimately show ?case by (simp add: fed_append image_Un)
qed simp

lemma single_legs_fed:
  "\<forall>r \<in> set rs. \<exists>s. sr_steps r = [s] \<and> stepMergeKey s \<in> S \<Longrightarrow> fed S outs (map fst (concat (map leg_calls rs)))"
  by (induction rs arbitrary: outs) (auto simp: leg_calls_def)

lemma collapse_at_fed:
  assumes "fed S outs (map fst calls)" and "collapse_pair calls = Some (i, j)"
  shows "fed S outs (map fst (collapse_at calls i j))"
proof -
  have ij: "i < j" "j < length calls" using collapse_pair_bounds [OF assms(2)] by auto
  have key: "stepMergeKey (fst (calls ! j)) = stepMergeKey (fst (calls ! i))"
    using assms(2) unfolding collapse_pair_def by (auto dest!: find_SomeD)
  define ss where "ss = map fst calls"
  have split: "ss = take j ss @ ss ! j # drop (Suc j) ss" using ij by (intro id_take_nth_drop) (simp add: ss_def)
  have "ss ! i = take j ss ! i" "i < length (take j ss)" using ij by (simp_all add: ss_def)
  then have "ss ! i \<in> set (take j ss)" by (metis nth_mem)
  then have out: "rs_out (ss ! j) \<in> rs_out ` set (take j ss)"
    using key_in [OF key] ij by (force simp: ss_def)
  have "fed S outs (take j ss @ ss ! j # drop (Suc j) ss)" using assms(1) split by (simp add: ss_def)
  then have "fed S outs (take j ss @ drop (Suc j) ss)"
    using out by (simp add: fed_append insert_absorb)
  moreover have "map fst (collapse_at calls i j) = take j ss @ drop (Suc j) ss"
  proof -
    have "map fst (calls[i := (fst (calls ! i), a)]) = ss" for a
      using ij by (simp add: ss_def map_update list_update_same_conv)
    then show ?thesis by (simp add: collapse_at_def Let_def take_map [symmetric] drop_map [symmetric])
  qed
  ultimately show ?thesis by simp
qed

lemma collapse_loop_fed: "fed S outs (map fst calls) \<Longrightarrow> fed S outs (map fst (collapse_loop calls))"
proof (induction calls rule: collapse_loop.induct)
  case (1 calls)
  show ?case
  proof (cases "collapse_pair calls")
    case None
    with 1 show ?thesis by (simp add: collapse_loop.simps [of calls])
  next
    case (Some ij)
    obtain i j where "ij = (i, j)" by force
    with Some have c: "collapse_pair calls = Some (i, j)" by simp
    then show ?thesis
      using 1(1) [OF c refl collapse_at_fed [OF 1(2) c]] by (simp add: collapse_loop.simps [of calls])
  qed
qed

definition first_keys :: "squish_route list \<Rightarrow> merge_key set" where
  "first_keys rs = {stepMergeKey (hd (sr_steps r)) |r. r \<in> set rs \<and> sr_steps r \<noteq> []}"

lemma leg_fed:
  assumes "joined_rev (rev ss)" and "ss \<noteq> []" and "stepMergeKey (hd ss) \<in> S"
  shows "fed S outs ss"
proof -
  have chain: "fed S outs' ss'" if "joined_rev (rev (s # ss'))" "rs_out s \<in> outs'" for s ss' outs'
    using that
  proof (induction ss' arbitrary: s outs')
    case (Cons t ts)
    have j: "joined_rev (xs @ [a, b]) \<Longrightarrow> joined_rev (xs @ [a]) \<and> rs_out b = rs_in a" for xs a b
      by (induction xs rule: joined_rev.induct) auto
    have "joined_rev (rev (t # ts)) \<and> rs_out s = rs_in t"
      using j [of "rev ts" t s] Cons.prems(1) by simp
    with Cons show ?case by auto
  qed simp
  from assms obtain s ss' where "ss = s # ss'" by (cases ss) auto
  with assms chain [of s ss' "insert (rs_out s) outs"] show ?thesis by simp
qed

lemma MergeRoutes_fed:
  assumes "MergeRoutes rs = Some calls" and "\<forall>r \<in> set rs. leg_joined r"
  shows "fed (first_keys rs) {} (map fst calls)"
proof -
  consider "rs = []" | r where "rs = [r]" | r1 r2 rs' where "rs = r1 # r2 # rs'"
    by (metis list.exhaust)
  then show ?thesis
  proof cases
    case 1
    with assms show ?thesis by (simp add: MergeRoutes_def mergeRoutesInner_def)
  next
    case 2
    then have "sr_steps r \<noteq> []" "calls = leg_calls r"
      using assms(1) by (auto simp: MergeRoutes_def mergeRoutesInner_def split: if_splits)
    moreover have "map fst (leg_calls r) = sr_steps r"
      by (simp add: leg_calls_def comp_def split: list.splits)
    ultimately show ?thesis
      using 2 assms(2) by (auto simp: leg_joined_def first_keys_def intro!: leg_fed)
  next
    case 3
    obtain root overflow where e: "extractMixed (build_trie rs) = (root, overflow)" by force
    have calls: "calls = collapseDuplicates (emit_all root @ concat (map leg_calls overflow))"
      using assms 3 e by (simp add: MergeRoutes_def mergeRoutesInner_def)
    have ok: "\<forall>n \<in> set root. node_ok (first_keys rs) n"
      "\<forall>r \<in> set overflow. \<exists>s. sr_steps r = [s] \<and> stepMergeKey s \<in> first_keys rs"
      using extract_ok(2) [of "build_trie rs" "first_keys rs"] build_trie_ok [OF assms(2)] e
      by (simp_all add: first_keys_def)
    have "fed (first_keys rs) {} (map fst (emit_all root @ concat (map leg_calls overflow)))"
      using emit_fed(2) [OF ok(1)] single_legs_fed [OF ok(2)] unfolding map_append fed_append by blast
    then show ?thesis unfolding calls collapseDuplicates_def by (simp add: collapse_loop_fed)
  qed
qed

subsection \<open>First-hop merging keeps what leaves the source token\<close>

definition source_volume :: "address \<Rightarrow> call list \<Rightarrow> u256" where
  "source_volume t calls = sum_list (map (\<lambda>c. if rs_in (fst c) = t then snd c else 0) calls)"

lemma source_volume_simps [simp]:
  "source_volume t [] = 0"
  "source_volume t (c # cs) = (if rs_in (fst c) = t then snd c else 0) + source_volume t cs"
  "source_volume t (cs @ ds) = source_volume t cs + source_volume t ds"
  by (simp_all add: source_volume_def)

lemma source_volume_concat: "source_volume t (concat bs) = sum_list (map (source_volume t) bs)"
  by (induction bs) simp_all

lemma source_volume_zero: "\<forall>c \<in> set cs. rs_in (fst c) \<noteq> t \<Longrightarrow> source_volume t cs = 0"
  by (induction cs) auto

lemma distinct_key_order: "distinct (key_order bs)"
  by (induction bs) auto

lemma set_key_order: "set (key_order bs) = branch_key ` set bs"
  by (induction bs) auto

lemma group_sum:
  "sum_list (map (\<lambda>k. sum_list (map f (group_of bs k))) (key_order bs)) = sum_list (map (f :: _ \<Rightarrow> u256) bs)"
proof -
  have "sum_list (map (\<lambda>k. sum_list (map f (group_of bs k))) (key_order bs))
      = (\<Sum>k \<in> branch_key ` set bs. sum_list (map f (group_of bs k)))"
    using sum_list_distinct_conv_sum_set [OF distinct_key_order] by (simp add: set_key_order)
  also have "\<dots> = sum_list (map f bs)"
  proof -
    have "(\<Sum>k \<in> K. sum_list (map f (group_of xs k))) = sum_list (map f xs)"
      if "finite K" "branch_key ` set xs \<subseteq> K" for K xs
      using that(2)
    proof (induction xs)
      case Nil
      then show ?case by (simp add: group_of_def)
    next
      case (Cons x xs)
      have "(\<Sum>k \<in> K. sum_list (map f (group_of (x # xs) k)))
          = (\<Sum>k \<in> K. (if branch_key x = k then f x else 0) + sum_list (map f (group_of xs k)))"
        by (intro sum.cong) (auto simp: group_of_def)
      also have "\<dots> = f x + sum_list (map f xs)"
        using Cons that(1) by (simp add: sum.distrib)
      finally show ?case by simp
    qed
    then show ?thesis by simp
  qed
  finally show ?thesis .
qed

text \<open>Explicit calls are exactly the ones that spend the source token \<open>t\<close>.\<close>

definition spends_source :: "address \<Rightarrow> call list \<Rightarrow> bool" where
  "spends_source t calls = (\<forall>c \<in> set calls. (snd c \<noteq> 0) = (rs_in (fst c) = t))"

definition source_branch :: "address \<Rightarrow> call list \<Rightarrow> bool" where
  "source_branch t b = (\<exists>s v rest. b = (s, v) # rest \<and> v \<noteq> 0 \<and> rs_in s = t
     \<and> (\<forall>c \<in> set rest. snd c = 0 \<and> rs_in (fst c) \<noteq> t))"

lemma split_branches_source:
  assumes "spends_source t calls"
  shows "(\<forall>b \<in> set (split_branches calls). source_branch t b)
    \<and> sum_list (map (source_volume t) (split_branches calls)) = source_volume t calls"
  using assms
proof (induction calls rule: split_branches.induct)
  case (2 c cs)
  have drop: "spends_source t (dropWhile (\<lambda>c. snd c = 0) cs)"
    using 2(3) by (auto simp: spends_source_def dest: set_dropWhileD)
  have tail: "spends_source t cs" using 2(3) by (simp add: spends_source_def)
  show ?case
  proof (cases "snd c = 0")
    case True
    then have "rs_in (fst c) \<noteq> t" using 2(3) by (auto simp: spends_source_def)
    with True 2(2) tail show ?thesis by simp
  next
    case False
    then have c: "rs_in (fst c) = t" using 2(3) by (auto simp: spends_source_def)
    have zero: "\<forall>d \<in> set (takeWhile (\<lambda>c. snd c = 0) cs). snd d = 0 \<and> rs_in (fst d) \<noteq> t"
      using tail by (auto simp: spends_source_def dest: set_takeWhileD)
    have "source_branch t (c # takeWhile (\<lambda>c. snd c = 0) cs)"
      unfolding source_branch_def using False c zero
      by (intro exI [of _ "fst c"] exI [of _ "snd c"]) simp
    moreover have "source_volume t cs = source_volume t (dropWhile (\<lambda>c. snd c = 0) cs)"
    proof -
      have "source_volume t (takeWhile (\<lambda>c. snd c = 0) cs) = 0"
        using zero by (intro source_volume_zero) blast
      then show ?thesis
        by (metis add_0 source_volume_simps(3) takeWhile_dropWhile_id)
    qed
    moreover have "source_volume t (takeWhile (\<lambda>c. snd c = 0) cs) = 0"
      using zero by (intro source_volume_zero) blast
    ultimately show ?thesis using 2(1) [OF _ drop] False by simp
  qed
qed simp

lemma emit_tail_source:
  assumes "source_branch t b"
  shows "source_volume t (emit_tail q s b) = 0"
  using assms
  by (intro source_volume_zero) (fastforce simp: source_branch_def emit_tail_def split: list.splits)

lemma emit_group_source:
  assumes "\<forall>b \<in> set g. source_branch t b"
  shows "source_volume t (emit_group q g) = sum_list (map (source_volume t) g)"
proof (cases "mergeable g")
  case False
  then show ?thesis by (simp add: emit_group_def source_volume_concat)
next
  case True
  then obtain b bs where g: "g = b # bs" by (cases g) (auto simp: mergeable_def)
  have head: "source_volume t b = snd (hd b) \<and> rs_in (fst (hd b)) = t" if "b \<in> set g" for b
  proof -
    obtain s v rest where b: "b = (s, v) # rest" "rs_in s = t"
      "\<forall>c \<in> set rest. snd c = 0 \<and> rs_in (fst c) \<noteq> t"
      using assms \<open>b \<in> set g\<close> unfolding source_branch_def by blast
    then show ?thesis using source_volume_zero [of rest t] by simp
  qed
  have "sum_list (map (\<lambda>b. snd (hd b)) g) = sum_list (map (source_volume t) g)"
    using head by (intro arg_cong [of _ _ sum_list]) simp
  moreover have "source_volume t (concat (map (emit_tail q (fst (hd (hd g)))) g)) = 0"
  proof -
    have "source_volume t (concat (map (emit_tail q s) xs)) = 0" if "set xs \<subseteq> set g" for s xs
      using that assms by (induction xs) (auto simp: emit_tail_source)
    then show ?thesis by blast
  qed
  ultimately show ?thesis
    using True head [of b] g by (simp add: emit_group_def Let_def del: sum_list.Cons)
qed

lemma mergeFirstHops_source:
  assumes "spends_source t calls"
  shows "source_volume t (mergeFirstHops q calls) = source_volume t calls"
proof -
  define bs where "bs = split_branches calls"
  have b: "\<forall>b \<in> set bs. source_branch t b" "sum_list (map (source_volume t) bs) = source_volume t calls"
    using split_branches_source [OF assms] by (simp_all add: bs_def)
  have "source_volume t (concat (map (emit_group q) (map (group_of bs) (key_order bs))))
      = sum_list (map (\<lambda>k. sum_list (map (source_volume t) (group_of bs k))) (key_order bs))"
  proof -
    have "source_volume t (emit_group q (group_of bs k)) = sum_list (map (source_volume t) (group_of bs k))" for k
      using b(1) by (intro emit_group_source) (auto simp: group_of_def)
    then show ?thesis by (simp add: source_volume_concat comp_def)
  qed
  also have "\<dots> = source_volume t calls" using group_sum [of "source_volume t" bs] b(2) by simp
  finally show ?thesis by (simp add: mergeFirstHops_def Let_def bs_def [symmetric])
qed

subsection \<open>A leg that ends inside another leg's prefix loses its tail\<close>

lemma MergeRoutes_truncates:
  assumes keys: "stepMergeKey o1 \<noteq> stepMergeKey p" "stepMergeKey o1 \<noteq> stepMergeKey q"
      "stepMergeKey p \<noteq> stepMergeKey q" and v: "v \<noteq> 0" "w \<noteq> 0"
  shows "MergeRoutes [\<lparr>sr_steps = [p, q], sr_volume = v\<rparr>, \<lparr>sr_steps = [o1, p, q], sr_volume = w\<rparr>]
    = Some [(o1, w), (p, 0), (q, 0), (p, v)]"
proof -
  have trie: "build_trie [\<lparr>sr_steps = [p, q], sr_volume = v\<rparr>, \<lparr>sr_steps = [o1, p, q], sr_volume = w\<rparr>]
      = [Node q [Node p [Node o1 [] [w]] [v]] []]"
    by (simp add: build_trie_def)
  have "collapse_pair [(o1, w), (p, 0), (q, 0), (p, v)] = None"
    using keys v by (simp add: collapse_pair_def upt_rec)
  then have "collapse_loop [(o1, w), (p, 0), (q, 0), (p, v)] = [(o1, w), (p, 0), (q, 0), (p, v)]"
    by (simp add: collapse_loop.simps)
  then show ?thesis
    by (simp add: MergeRoutes_def mergeRoutesInner_def trie rebuildPath_def leg_calls_def
      collapseDuplicates_def)
qed

end
