(* ===== verification/Abi_Encode.thy ===== *)
theory Abi_Encode
  imports Route_Merge
begin

text \<open>
  Models \<open>pathfinder/encode.go\<close>: the calldata builders of the router.  A buffer is a byte list; a write
  that leaves the buffer panics, which is \<open>None\<close>.  \<open>HexToAddress\<close> is a parameter.
\<close>

subsection \<open>Writes into a buffer\<close>

definition blit :: "nat \<Rightarrow> byte list \<Rightarrow> byte list \<Rightarrow> byte list option" where
  "blit off bs buf =
     (if off + length bs \<le> length buf then Some (take off buf @ bs @ drop (off + length bs) buf) else None)"

definition writeWordU64 :: "byte list \<Rightarrow> nat \<Rightarrow> 64 word \<Rightarrow> byte list option" where
  "writeWordU64 buf offset val = blit (offset + 24) (be_bytes 8 (uint val)) buf"

definition writeAddress :: "byte list \<Rightarrow> nat \<Rightarrow> address \<Rightarrow> byte list option" where
  "writeAddress buf offset addr = blit (offset + 12) (be_bytes 20 (uint addr)) buf"

definition writeUint256 :: "byte list \<Rightarrow> nat \<Rightarrow> u256 \<Rightarrow> byte list option" where
  "writeUint256 buf offset val = blit offset (be_bytes 32 (uint val)) buf"

text \<open>\<open>big.Int.Bytes\<close>: the shortest big-endian encoding of the absolute value.\<close>

function int_bytes :: "int \<Rightarrow> byte list" where
  "int_bytes n = (if n \<le> 0 then [] else int_bytes (n div 256) @ [word_of_int n])"
  by pat_completeness auto
termination by (relation "measure nat") auto

declare int_bytes.simps [simp del]

definition writeWord :: "byte list \<Rightarrow> nat \<Rightarrow> int \<Rightarrow> byte list option" where
  "writeWord buf offset val =
     (let b = int_bytes \<bar>val\<bar>
      in if offset + 32 < length b then None else blit (offset + 32 - length b) b buf)"

fun write_all :: "(byte list \<Rightarrow> nat \<Rightarrow> 'a \<Rightarrow> byte list option) \<Rightarrow> byte list \<Rightarrow> nat \<Rightarrow> 'a list \<Rightarrow> byte list option" where
  "write_all w buf off [] = Some buf"
| "write_all w buf off (x # xs) = do { buf' \<leftarrow> w buf off x; write_all w buf' (off + 32) xs }"

definition u64 :: "nat \<Rightarrow> 64 word" where
  "u64 n = word_of_nat n"

subsection \<open>Extra data of V4 pools\<close>

text \<open>
  \<open>fmt.Sscan\<close> into a \<open>big.Int\<close>: leading spaces, a sign, a base prefix and digits; the value is 0 when
  there is no digit.  Digit separators are not modelled.
\<close>

definition hex_digit :: "char \<Rightarrow> int option" where
  "hex_digit c = (let n = int (of_char c) in
     if 48 \<le> n \<and> n \<le> 57 then Some (n - 48) else if 97 \<le> n \<and> n \<le> 102 then Some (n - 87)
     else if 65 \<le> n \<and> n \<le> 70 then Some (n - 55) else None)"

fun scan_digits :: "int \<Rightarrow> int \<Rightarrow> string \<Rightarrow> int" where
  "scan_digits base acc [] = acc"
| "scan_digits base acc (c # cs) =
     (case hex_digit c of
        Some d \<Rightarrow> if d < base then scan_digits base (acc * base + d) cs else acc
      | None \<Rightarrow> acc)"

definition scan_nat :: "string \<Rightarrow> int" where
  "scan_nat s =
     (if take 2 s \<in> {''0x'', ''0X''} then scan_digits 16 0 (drop 2 s)
      else if take 2 s \<in> {''0b'', ''0B''} then scan_digits 2 0 (drop 2 s)
      else if take 2 s \<in> {''0o'', ''0O''} then scan_digits 8 0 (drop 2 s)
      else if take 1 s = ''0'' then scan_digits 8 0 (drop 1 s)
      else scan_digits 10 0 s)"

definition scan_big :: "string \<Rightarrow> int" where
  "scan_big s0 =
     (let s = dropWhile is_space s0
      in if take 1 s = ''-'' then - scan_nat (drop 1 s)
         else if take 1 s = ''+'' then scan_nat (drop 1 s) else scan_nat s)"

definition kv_parts :: "string \<Rightarrow> string \<Rightarrow> string" where
  "kv_parts extraData =
     fold (\<lambda>kv m. let k = takeWhile (\<lambda>c. c \<noteq> CHR ''='') kv
                  in if length k < length kv \<and> 0 < length k then m(k := drop (length k + 1) kv) else m)
       (split_on CHR '','' extraData) (\<lambda>_. '''')"

definition encodeV4ExtraData :: "(string \<Rightarrow> address) \<Rightarrow> string \<Rightarrow> byte list option" where
  "encodeV4ExtraData hex extraData =
     (let parts = kv_parts extraData;
          fee = scan_big (parts ''fee'');
          tickSpacing = scan_big (parts ''ts'');
          hooks = hex (parts ''hooks'')
      in do {
           buf \<leftarrow> writeWord (replicate 128 0) 0 fee;
           buf \<leftarrow> (if 0 \<le> tickSpacing then writeWord buf 32 tickSpacing
                  else writeWord buf 32 (tickSpacing + 2 ^ 256));
           writeAddress buf 64 hooks
         })"

subsection \<open>A swap through one pool\<close>

definition debugSwapSingleSelector :: "byte list" where
  "debugSwapSingleSelector = [0x51, 0xe1, 0x6d, 0x05]"

definition V4PoolManager :: address where
  "V4PoolManager = 0x06380C0e0912312B5150364B9DC4542BA0DbBc85"

definition padded :: "nat \<Rightarrow> nat" where
  "padded n = ((n + 31) div 32) * 32"

definition encodeSwapSingleInner ::
  "address \<Rightarrow> int \<Rightarrow> address \<Rightarrow> address \<Rightarrow> u256 \<Rightarrow> byte list \<Rightarrow> byte list option" where
  "encodeSwapSingleInner pool poolType tokenIn tokenOut amountIn extraData =
     do {
       let extraLen = length extraData;
       let totalSize = 4 + 6 * 32 + 32 + padded extraLen;
       data \<leftarrow> blit 0 debugSwapSingleSelector (replicate totalSize 0);
       data \<leftarrow> writeAddress data 4 pool;
       data \<leftarrow> writeWordU64 data 36 (word_of_int poolType);
       data \<leftarrow> writeAddress data 68 tokenIn;
       data \<leftarrow> writeAddress data 100 tokenOut;
       data \<leftarrow> writeUint256 data 132 amountIn;
       data \<leftarrow> writeWordU64 data 164 192;
       data \<leftarrow> writeWordU64 data 196 (u64 extraLen);
       if 0 < extraLen then blit 228 extraData data else Some data
     }"

definition EncodeSwapSingle :: "address \<Rightarrow> int \<Rightarrow> address \<Rightarrow> address \<Rightarrow> u256 \<Rightarrow> byte list option" where
  "EncodeSwapSingle pool poolType tokenIn tokenOut amountIn =
     encodeSwapSingleInner pool poolType tokenIn tokenOut amountIn []"

definition EncodeSwapSingleWithExtra ::
  "(string \<Rightarrow> address) \<Rightarrow> address \<Rightarrow> int \<Rightarrow> address \<Rightarrow> address \<Rightarrow> u256 \<Rightarrow> string \<Rightarrow> byte list option" where
  "EncodeSwapSingleWithExtra hex pool poolType tokenIn tokenOut amountIn extraData =
     (if poolType = 9 \<and> extraData \<noteq> [] then
        do { extra \<leftarrow> encodeV4ExtraData hex extraData;
             encodeSwapSingleInner V4PoolManager poolType tokenIn tokenOut amountIn extra }
      else encodeSwapSingleInner pool poolType tokenIn tokenOut amountIn [])"

subsection \<open>A swap through many pools\<close>

definition swapSelector :: "byte list" where
  "swapSelector = [0xf3, 0xb1, 0xb2, 0x3a]"

text \<open>
  The loop over the extra data: for every V4 entry the encoded extra data is stored and the address
  replaced by the pool manager; an index outside a slice panics.
\<close>

fun encode_extras ::
  "(string \<Rightarrow> address) \<Rightarrow> int list \<Rightarrow> nat \<Rightarrow> string list \<Rightarrow> address list \<times> byte list list
    \<Rightarrow> (address list \<times> byte list list) option" where
  "encode_extras hex types i [] acc = Some acc"
| "encode_extras hex types i (ex # exs) (addrs, encs) =
     (if length types \<le> i then None
      else if types ! i = 9 \<and> ex \<noteq> [] then
        (if length encs \<le> i then None
         else do { e \<leftarrow> encodeV4ExtraData hex ex;
                   encode_extras hex types (i + 1) exs (addrs[i := V4PoolManager], encs[i := e]) })
      else encode_extras hex types (i + 1) exs (addrs, encs))"

definition extra_size :: "byte list \<Rightarrow> nat" where
  "extra_size ed = (if 0 < length ed then 32 + padded (length ed) else 32)"

definition swap_sizes :: "nat \<Rightarrow> nat \<Rightarrow> byte list list \<Rightarrow> bool \<Rightarrow> nat \<times> nat \<times> nat \<times> nat \<times> nat \<times> nat" where
  "swap_sizes n nTokenPairs encs hasMinOutput =
     (let headSize = (if hasMinOutput then 6 else 5) * 32;
          poolsOff = headSize;
          typesOff = poolsOff + (32 + n * 32);
          tokensOff = typesOff + (32 + n * 32);
          amountsOff = tokensOff + (32 + nTokenPairs * 32);
          extrasOff = amountsOff + (32 + n * 32);
          total = extrasOff + (32 + n * 32) + sum_list (map extra_size encs)
      in (poolsOff, typesOff, tokensOff, amountsOff, extrasOff, total))"

text \<open>\<open>encodeSwapMultiInner\<close> writes the offsets of all extra data first, then the data.\<close>

fun write_offsets :: "byte list \<Rightarrow> nat \<Rightarrow> nat \<Rightarrow> byte list list \<Rightarrow> byte list option" where
  "write_offsets buf at cur [] = Some buf"
| "write_offsets buf at cur (ed # eds) =
     do { buf' \<leftarrow> writeWordU64 buf at (u64 cur); write_offsets buf' (at + 32) (cur + extra_size ed) eds }"

fun write_datas :: "byte list \<Rightarrow> nat \<Rightarrow> byte list list \<Rightarrow> (byte list \<times> nat) option" where
  "write_datas buf pos [] = Some (buf, pos)"
| "write_datas buf pos (ed # eds) =
     (if 0 < length ed then
        do { buf \<leftarrow> writeWordU64 buf pos (u64 (length ed));
             buf \<leftarrow> blit (pos + 32) ed buf;
             write_datas buf (pos + 32 + padded (length ed)) eds }
      else do { buf \<leftarrow> writeWordU64 buf pos 0; write_datas buf (pos + 32) eds })"

definition encodeSwapMultiInner ::
  "(string \<Rightarrow> address) \<Rightarrow> byte list \<Rightarrow> address list \<Rightarrow> int list \<Rightarrow> address list \<Rightarrow> u256 \<Rightarrow> string list
    \<Rightarrow> u256 option \<Rightarrow> byte list option" where
  "encodeSwapMultiInner hex selector poolAddrs poolTypes tokenPairs amountIn extraDatas minOutput =
     (if poolAddrs = [] then None
      else do {
        let n = length poolAddrs;
        let amounts = amountIn # replicate (n - 1) 0;
        (addrs, encs) \<leftarrow> encode_extras hex poolTypes 0 extraDatas (poolAddrs, replicate n []);
        let (poolsOff, typesOff, tokensOff, amountsOff, extrasOff, total) =
          swap_sizes n (length tokenPairs) encs (minOutput \<noteq> None);
        buf \<leftarrow> blit 0 selector (replicate (4 + total) 0);
        buf \<leftarrow> write_all writeWordU64 buf 4 (map u64 [poolsOff, typesOff, tokensOff, amountsOff, extrasOff]);
        buf \<leftarrow> (case minOutput of Some m \<Rightarrow> blit (4 + 160) (be_bytes 32 (uint m)) buf | None \<Rightarrow> Some buf);
        let pos = 4 + poolsOff;
        buf \<leftarrow> writeWordU64 buf pos (u64 n);
        buf \<leftarrow> write_all writeAddress buf (pos + 32) addrs;
        let pos = pos + 32 + 32 * length addrs;
        buf \<leftarrow> writeWordU64 buf pos (u64 n);
        buf \<leftarrow> write_all writeWordU64 buf (pos + 32) (map word_of_int poolTypes);
        let pos = pos + 32 + 32 * length poolTypes;
        buf \<leftarrow> writeWordU64 buf pos (u64 (length tokenPairs));
        buf \<leftarrow> write_all writeAddress buf (pos + 32) tokenPairs;
        let pos = pos + 32 + 32 * length tokenPairs;
        buf \<leftarrow> writeWordU64 buf pos (u64 n);
        buf \<leftarrow> write_all writeUint256 buf (pos + 32) amounts;
        let pos = pos + 32 + 32 * length amounts;
        buf \<leftarrow> writeWordU64 buf pos (u64 n);
        let offsetBase = pos + 32;
        let offsetDataStart = offsetBase + n * 32;
        buf \<leftarrow> write_offsets buf offsetBase (offsetDataStart - offsetBase) encs;
        (buf, pos) \<leftarrow> write_datas buf offsetDataStart encs;
        Some (take pos buf)
      })"

definition EncodeSwapMulti ::
  "(string \<Rightarrow> address) \<Rightarrow> address list \<Rightarrow> int list \<Rightarrow> address list \<Rightarrow> u256 \<Rightarrow> string list \<Rightarrow> u256 option
    \<Rightarrow> byte list option" where
  "EncodeSwapMulti hex poolAddrs poolTypes tokenPairs amountIn extraDatas minOutput =
     encodeSwapMultiInner hex swapSelector poolAddrs poolTypes tokenPairs amountIn extraDatas minOutput"

text \<open>\<open>encodeSwapRaw\<close> writes each offset and its data together.\<close>

fun write_extras :: "byte list \<Rightarrow> nat \<Rightarrow> nat \<Rightarrow> nat \<Rightarrow> byte list list \<Rightarrow> byte list option" where
  "write_extras buf off i edCursor [] = Some buf"
| "write_extras buf off i edCursor (ed # eds) =
     do {
       buf \<leftarrow> writeWordU64 buf (off + 32 + i * 32) (u64 edCursor);
       let edOff = off + 32 + edCursor;
       buf \<leftarrow> writeWordU64 buf edOff (u64 (length ed));
       if 0 < length ed then
         do { buf \<leftarrow> blit (edOff + 32) ed buf;
              write_extras buf off (i + 1) (edCursor + 32 + padded (length ed)) eds }
       else write_extras buf off (i + 1) (edCursor + 32) eds
     }"

definition encodeSwapRaw ::
  "(string \<Rightarrow> address) \<Rightarrow> byte list \<Rightarrow> address list \<Rightarrow> int list \<Rightarrow> address list \<Rightarrow> u256 list \<Rightarrow> string list
    \<Rightarrow> u256 option \<Rightarrow> byte list option" where
  "encodeSwapRaw hex selector poolAddrs poolTypes tokenPairs amounts extraDatas minOutput =
     do {
       let n = length poolAddrs;
       (addrs, encs) \<leftarrow> encode_extras hex poolTypes 0 extraDatas (poolAddrs, replicate n []);
       let (poolsOff, typesOff, tokensOff, amountsOff, extrasOff, total) =
         swap_sizes n (length tokenPairs) encs (minOutput \<noteq> None);
       buf \<leftarrow> blit 0 selector (replicate (4 + total) 0);
       buf \<leftarrow> write_all writeWordU64 buf 4 (map u64 [poolsOff, typesOff, tokensOff, amountsOff, extrasOff]);
       buf \<leftarrow> (case minOutput of Some m \<Rightarrow> writeUint256 buf (4 + 160) m | None \<Rightarrow> Some buf);
       buf \<leftarrow> writeWordU64 buf (4 + poolsOff) (u64 n);
       buf \<leftarrow> write_all writeAddress buf (4 + poolsOff + 32) addrs;
       buf \<leftarrow> writeWordU64 buf (4 + typesOff) (u64 n);
       buf \<leftarrow> write_all writeWordU64 buf (4 + typesOff + 32) (map word_of_int poolTypes);
       buf \<leftarrow> writeWordU64 buf (4 + tokensOff) (u64 (length tokenPairs));
       buf \<leftarrow> write_all writeAddress buf (4 + tokensOff + 32) tokenPairs;
       buf \<leftarrow> writeWordU64 buf (4 + amountsOff) (u64 n);
       buf \<leftarrow> write_all writeUint256 buf (4 + amountsOff + 32) amounts;
       buf \<leftarrow> writeWordU64 buf (4 + extrasOff) (u64 n);
       write_extras buf (4 + extrasOff) 0 (n * 32) encs
     }"

definition encodeMergedSteps :: "(string \<Rightarrow> address) \<Rightarrow> call list \<Rightarrow> u256 option \<Rightarrow> byte list option" where
  "encodeMergedSteps hex calls minOutput =
     (let steps = map fst calls
      in encodeSwapRaw hex swapSelector (map rs_pool steps) (map rs_type steps)
           (concat (map (\<lambda>s. [rs_in s, rs_out s]) steps)) (map snd calls) (map rs_extra steps) minOutput)"

definition EncodeSquished ::
  "(string \<Rightarrow> address) \<Rightarrow> squish_route list \<Rightarrow> u256 option \<Rightarrow> byte list option" where
  "EncodeSquished hex routes minOutput =
     do { calls \<leftarrow> MergeRoutes routes; encodeMergedSteps hex calls minOutput }"

definition EncodeSquishedWithQuoter ::
  "(string \<Rightarrow> address) \<Rightarrow> squish_route list \<Rightarrow> u256 option \<Rightarrow> (route_step \<Rightarrow> u256 \<Rightarrow> u256) \<Rightarrow> byte list option" where
  "EncodeSquishedWithQuoter hex routes minOutput quoter =
     do { calls \<leftarrow> MergeRoutesWithQuoter routes quoter; encodeMergedSteps hex calls minOutput }"

subsection \<open>The ABI layout\<close>

text \<open>
  The specification: words, arrays of words and arrays of byte strings as Solidity lays them out.
\<close>

definition abi_nat :: "nat \<Rightarrow> byte list" where
  "abi_nat n = be_bytes 32 (uint (u64 n))"

definition abi_array :: "('a \<Rightarrow> byte list) \<Rightarrow> nat \<Rightarrow> 'a list \<Rightarrow> byte list" where
  "abi_array e n xs = abi_nat n @ concat (map e xs)"

definition abi_bytes :: "byte list \<Rightarrow> byte list" where
  "abi_bytes ed = abi_nat (length ed) @ ed @ replicate (padded (length ed) - length ed) 0"

fun abi_offsets :: "nat \<Rightarrow> byte list list \<Rightarrow> byte list" where
  "abi_offsets cur [] = []"
| "abi_offsets cur (ed # eds) = abi_nat cur @ abi_offsets (cur + extra_size ed) eds"

definition enc_u64 :: "64 word \<Rightarrow> byte list" where "enc_u64 v = be_bytes 32 (uint v)"
definition enc_addr :: "address \<Rightarrow> byte list" where "enc_addr a = be_bytes 32 (uint a)"
definition enc_u256 :: "u256 \<Rightarrow> byte list" where "enc_u256 v = be_bytes 32 (uint v)"

definition abi_swap ::
  "byte list \<Rightarrow> address list \<Rightarrow> int list \<Rightarrow> address list \<Rightarrow> u256 list \<Rightarrow> byte list list \<Rightarrow> u256 option \<Rightarrow> byte list" where
  "abi_swap selector addrs types tokens amounts encs minOutput =
     (let n = length addrs;
          (poolsOff, typesOff, tokensOff, amountsOff, extrasOff, total) =
            swap_sizes n (length tokens) encs (minOutput \<noteq> None)
      in selector
         @ concat (map abi_nat [poolsOff, typesOff, tokensOff, amountsOff, extrasOff])
         @ (case minOutput of Some m \<Rightarrow> enc_u256 m | None \<Rightarrow> [])
         @ abi_array enc_addr n addrs
         @ abi_array enc_u64 n (map word_of_int types)
         @ abi_array enc_addr (length tokens) tokens
         @ abi_array enc_u256 n amounts
         @ abi_nat n @ abi_offsets (n * 32) encs @ concat (map abi_bytes encs))"

subsection \<open>Writing into zeroed space\<close>

definition st :: "byte list \<Rightarrow> nat \<Rightarrow> byte list" where
  "st P m = P @ replicate m 0"

lemma blit_at: "off = length P \<Longrightarrow> length Z = length bs \<Longrightarrow> blit off bs (P @ Z @ S) = Some (P @ bs @ S)"
  by (simp add: blit_def)

lemma blit_st: "off = length P \<Longrightarrow> length bs \<le> m \<Longrightarrow> blit off bs (st P m) = Some (st (P @ bs) (m - length bs))"
  by (simp add: blit_def st_def)

lemma st_pad: "k \<le> m \<Longrightarrow> st P m = st (P @ replicate k 0) (m - k)"
  by (simp add: st_def flip: replicate_add)

lemma be_bytes_pad:
  assumes "0 \<le> n" and "n < 256 ^ k"
  shows "be_bytes (j + k) n = replicate j 0 @ be_bytes k n"
proof -
  have "n div 256 ^ k = 0" using assms by (simp add: div_pos_pos_trivial)
  then show ?thesis by (simp add: be_bytes_append be_bytes_const)
qed

locale word_writer =
  fixes w :: "byte list \<Rightarrow> nat \<Rightarrow> 'a \<Rightarrow> byte list option" and e :: "'a \<Rightarrow> byte list"
  assumes len: "length (e x) = 32"
    and puts: "w (P @ replicate 32 0 @ S) (length P) x = Some (P @ e x @ S)"
begin

lemma write_st: "off = length P \<Longrightarrow> 32 \<le> m \<Longrightarrow> w (st P m) off x = Some (st (P @ e x) (m - 32))"
  using puts [of P "replicate (m - 32) 0" x] by (simp add: st_def flip: replicate_add)

lemma write_all_st:
  "off = length P \<Longrightarrow> 32 * length xs \<le> m
    \<Longrightarrow> write_all w (st P m) off xs = Some (st (P @ concat (map e xs)) (m - 32 * length xs))"
proof (induction xs arbitrary: P m off)
  case (Cons x xs)
  have "write_all w (st (P @ e x) (m - 32)) (off + 32) xs
      = Some (st ((P @ e x) @ concat (map e xs)) (m - 32 - 32 * length xs))"
    using Cons.prems by (intro Cons.IH) (simp_all add: len)
  then show ?case using Cons.prems by (simp add: write_st)
qed simp

lemma length_all [simp]: "length (concat (map e xs)) = 32 * length xs"
  by (induction xs) (simp_all add: len)

end

lemma write_low:
  assumes "length bs = k" and "k \<le> 32"
  shows "blit (length P + (32 - k)) bs (P @ replicate 32 0 @ S) = Some (P @ replicate (32 - k) 0 @ bs @ S)"
proof -
  have "replicate 32 (0 :: byte) = replicate (32 - k) 0 @ replicate k 0"
    using assms(2) by (simp flip: replicate_add)
  then show ?thesis
    using blit_at [of "length P + (32 - k)" "P @ replicate (32 - k) 0" "replicate k 0" bs S] assms(1)
    by simp
qed

interpretation u64w: word_writer writeWordU64 enc_u64
proof
  fix P S :: "byte list" and x :: "64 word"
  show "length (enc_u64 x) = 32" by (simp add: enc_u64_def)
  have "uint x < 256 ^ 8" using uint_bounded [of x] by simp
  then show "writeWordU64 (P @ replicate 32 0 @ S) (length P) x = Some (P @ enc_u64 x @ S)"
    using write_low [of "be_bytes 8 (uint x)" 8 P S] be_bytes_pad [of "uint x" 8 24]
    by (simp add: writeWordU64_def enc_u64_def)
qed

interpretation addrw: word_writer writeAddress enc_addr
proof
  fix P S :: "byte list" and x :: address
  show "length (enc_addr x) = 32" by (simp add: enc_addr_def)
  have "uint x < 256 ^ 20" using uint_bounded [of x] by simp
  then show "writeAddress (P @ replicate 32 0 @ S) (length P) x = Some (P @ enc_addr x @ S)"
    using write_low [of "be_bytes 20 (uint x)" 20 P S] be_bytes_pad [of "uint x" 20 12]
    by (simp add: writeAddress_def enc_addr_def)
qed

interpretation u256w: word_writer writeUint256 enc_u256
  by unfold_locales (simp_all add: enc_u256_def writeUint256_def blit_at)

lemma abi_nat_enc: "abi_nat n = enc_u64 (u64 n)"
  by (simp add: abi_nat_def enc_u64_def)

lemma length_abi_nat [simp]: "length (abi_nat n) = 32"
  by (simp add: abi_nat_def)

lemma padded_ge: "n \<le> padded n"
  unfolding padded_def by presburger

lemma length_abi_bytes: "length (abi_bytes ed) = 32 + padded (length ed)"
  using padded_ge [of "length ed"] by (simp add: abi_bytes_def)

lemma extra_size_padded: "extra_size ed = 32 + padded (length ed)"
  by (simp add: extra_size_def padded_def)

lemma length_datas: "length (concat (map abi_bytes encs)) = sum_list (map extra_size encs)"
  by (induction encs) (simp_all add: length_abi_bytes extra_size_padded)

lemma length_offsets [simp]: "length (abi_offsets cur encs) = 32 * length encs"
  by (induction encs arbitrary: cur) simp_all

lemma write_offsets_st:
  "off = length P \<Longrightarrow> 32 * length eds \<le> m
    \<Longrightarrow> write_offsets (st P m) off cur eds = Some (st (P @ abi_offsets cur eds) (m - 32 * length eds))"
proof (induction eds arbitrary: P m off cur)
  case (Cons ed eds)
  have "write_offsets (st (P @ abi_nat cur) (m - 32)) (off + 32) (cur + extra_size ed) eds
      = Some (st ((P @ abi_nat cur) @ abi_offsets (cur + extra_size ed) eds) (m - 32 - 32 * length eds))"
    using Cons.prems by (intro Cons.IH) simp_all
  then show ?case using Cons.prems by (simp add: u64w.write_st flip: abi_nat_enc)
qed simp

lemma write_data_st:
  assumes "pos = length P" and "extra_size ed \<le> m" and "ed \<noteq> []"
  shows "Option.bind (writeWordU64 (st P m) pos (u64 (length ed))) (blit (pos + 32) ed)
    = Some (st (P @ abi_bytes ed) (m - extra_size ed))"
proof -
  have m: "32 + padded (length ed) \<le> m" using assms(2) by (simp add: extra_size_padded)
  have pg: "length ed \<le> padded (length ed)" by (rule padded_ge)
  have "writeWordU64 (st P m) pos (u64 (length ed)) = Some (st (P @ abi_nat (length ed)) (m - 32))"
    using m assms(1) by (simp add: u64w.write_st abi_nat_enc)
  moreover have "blit (pos + 32) ed (st (P @ abi_nat (length ed)) (m - 32))
      = Some (st (P @ abi_nat (length ed) @ ed) (m - 32 - length ed))"
    using m pg assms(1) by (simp add: blit_st)
  moreover have "st (P @ abi_nat (length ed) @ ed) (m - 32 - length ed)
      = st (P @ abi_bytes ed) (m - extra_size ed)"
    using m pg st_pad [of "padded (length ed) - length ed" "m - 32 - length ed" "P @ abi_nat (length ed) @ ed"]
    by (simp add: abi_bytes_def extra_size_padded)
  ultimately show ?thesis by simp
qed

lemma abi_bytes_nil: "abi_bytes [] = abi_nat 0"
  by (simp add: abi_bytes_def padded_def)

lemma write_datas_st:
  "pos = length P \<Longrightarrow> sum_list (map extra_size eds) \<le> m
    \<Longrightarrow> write_datas (st P m) pos eds
      = Some (st (P @ concat (map abi_bytes eds)) (m - sum_list (map extra_size eds)),
              pos + sum_list (map extra_size eds))"
proof (induction eds arbitrary: P m pos)
  case (Cons ed eds)
  have ih: "write_datas (st (P @ abi_bytes ed) (m - extra_size ed)) (pos + extra_size ed) eds
      = Some (st ((P @ abi_bytes ed) @ concat (map abi_bytes eds)) (m - extra_size ed - sum_list (map extra_size eds)),
              pos + extra_size ed + sum_list (map extra_size eds))"
    using Cons.prems by (intro Cons.IH) (simp_all add: length_abi_bytes extra_size_padded)
  show ?case
  proof (cases "ed = []")
    case True
    have sz: "extra_size [] = 32" by (simp add: extra_size_def)
    have "writeWordU64 (st P m) pos 0 = Some (st (P @ abi_nat 0) (m - 32))"
      using Cons.prems True u64w.write_st [of pos P m 0] by (simp add: abi_nat_enc u64_def sz)
    then show ?thesis using ih True by (simp add: abi_bytes_nil sz)
  next
    case False
    then have "Option.bind (writeWordU64 (st P m) pos (u64 (length ed))) (blit (pos + 32) ed)
        = Some (st (P @ abi_bytes ed) (m - extra_size ed))"
      using Cons.prems by (intro write_data_st) simp_all
    then obtain b where "writeWordU64 (st P m) pos (u64 (length ed)) = Some b"
      "blit (pos + 32) ed b = Some (st (P @ abi_bytes ed) (m - extra_size ed))"
      by (auto simp: bind_eq_Some_conv)
    then show ?thesis using ih False by (simp add: extra_size_padded [of ed] add.assoc)
  qed
qed simp

subsection \<open>Both builders produce the ABI layout\<close>

lemma encode_extras_length:
  "encode_extras hex types i exs (addrs, encs) = Some (addrs', encs')
    \<Longrightarrow> length addrs' = length addrs \<and> length encs' = length encs"
  by (induction exs arbitrary: i addrs encs) (auto simp: bind_eq_Some_conv split: if_splits)

lemma replicate_st: "replicate m (0 :: byte) = st [] m"
  by (simp add: st_def)

lemma length_concat_enc [simp]:
  "length (concat (map enc_u64 us)) = 32 * length us"
  "length (concat (map enc_addr as)) = 32 * length as"
  "length (concat (map enc_u256 vs)) = 32 * length vs"
proof -
  show "length (concat (map enc_u64 us)) = 32 * length us" by (induction us) (simp_all add: enc_u64_def)
  show "length (concat (map enc_addr as)) = 32 * length as" by (induction as) (simp_all add: enc_addr_def)
  show "length (concat (map enc_u256 vs)) = 32 * length vs" by (induction vs) (simp_all add: enc_u256_def)
qed

lemmas st_steps = u64w.write_st addrw.write_st u256w.write_st
  u64w.write_all_st addrw.write_all_st u256w.write_all_st write_offsets_st write_datas_st blit_st

lemma st_0: "st P 0 = P"
  by (simp add: st_def)

lemma be_bytes_enc: "be_bytes 32 (uint (m :: u256)) = enc_u256 m"
  by (simp add: enc_u256_def)

lemma encodeSwapMultiInner_abi:
  assumes "poolAddrs \<noteq> []" and "length poolTypes = length poolAddrs" and "length selector = 4"
    and "encode_extras hex poolTypes 0 extraDatas (poolAddrs, replicate (length poolAddrs) []) = Some (addrs, encs)"
  shows "encodeSwapMultiInner hex selector poolAddrs poolTypes tokenPairs amountIn extraDatas minOutput
    = Some (abi_swap selector addrs poolTypes tokenPairs (amountIn # replicate (length poolAddrs - 1) 0) encs minOutput)"
proof -
  define n where "n = length poolAddrs"
  obtain amounts where am: "amounts = amountIn # replicate (n - 1) (0 :: u256)" by blast
  obtain types :: "64 word list" where ty: "types = map word_of_int poolTypes" by blast
  have len: "length addrs = n" "length encs = n" "length amounts = n" "length types = n" "length poolTypes = n"
    using encode_extras_length [OF assms(4)] assms(1,2) by (auto simp: n_def am ty)
  define E where "E = sum_list (map extra_size encs)"
  have ex: "encode_extras hex poolTypes 0 extraDatas (poolAddrs, replicate n []) = Some (addrs, encs)"
    using assms(4) by (simp add: n_def)
  have E: "length (concat (map abi_bytes encs)) = E" by (simp add: length_datas E_def)
  show ?thesis
    unfolding encodeSwapMultiInner_def abi_swap_def abi_array_def Let_def n_def [symmetric] ex am [symmetric] ty [symmetric]
    using assms(1)
    by (cases minOutput)
      (simp_all add: assms(3) swap_sizes_def replicate_st st_steps len E_def [symmetric] abi_nat_enc
        u64w.len u256w.len length_datas st_0 mult.commute [of 32 n] be_bytes_enc
        del: write_all.simps replicate.simps)
qed

lemma write_extras_st:
  "off + 32 + i * 32 = length P \<Longrightarrow> off + 32 + cur = length P + 32 * length eds + length D
    \<Longrightarrow> sum_list (map extra_size eds) \<le> m
    \<Longrightarrow> write_extras (P @ replicate (32 * length eds) 0 @ st D m) off i cur eds
      = Some (P @ abi_offsets cur eds @ st (D @ concat (map abi_bytes eds)) (m - sum_list (map extra_size eds)))"
proof (induction eds arbitrary: P D m i cur)
  case (Cons ed eds)
  let ?P = "P @ abi_nat cur"
  let ?Q = "?P @ replicate (32 * length eds) 0 @ D"
  have st_app: "X @ Y @ st D m' = st (X @ Y @ D) m'" for X Y D m' by (simp add: st_def)
  have w1: "writeWordU64 (P @ replicate (32 * length (ed # eds)) 0 @ st D m) (off + 32 + i * 32) (u64 cur)
      = Some (st ?Q m)"
    using Cons.prems(1) u64w.puts [of P "replicate (32 * length eds) 0 @ st D m" "u64 cur"]
    by (simp add: replicate_add abi_nat_enc st_def)
  have q: "off + 32 + cur = length ?Q" using Cons.prems by simp
  have sz: "extra_size ed \<le> m" using Cons.prems(3) by simp
  have ih: "write_extras (st (?Q @ abi_bytes ed) (m - extra_size ed)) off (i + 1) (cur + extra_size ed) eds
      = Some (P @ abi_offsets cur (ed # eds)
              @ st (D @ concat (map abi_bytes (ed # eds))) (m - sum_list (map extra_size (ed # eds))))"
    using Cons.IH [of "i + 1" ?P "cur + extra_size ed" "D @ abi_bytes ed" "m - extra_size ed"] Cons.prems
    by (simp add: length_abi_bytes st_def flip: extra_size_padded)
  show ?case
  proof (cases "ed = []")
    case True
    have e: "extra_size ed = 32" using True by (simp add: extra_size_def)
    have "writeWordU64 (st ?Q m) (off + 32 + cur) (u64 0) = Some (st (?Q @ abi_bytes ed) (m - 32))"
      using q sz e u64w.write_st [of "off + 32 + cur" ?Q m "u64 0"] True
      by (simp only: abi_bytes_nil abi_nat_enc)
    then show ?thesis using w1 ih True e by simp
  next
    case False
    then have "Option.bind (writeWordU64 (st ?Q m) (off + 32 + cur) (u64 (length ed))) (blit (off + 32 + cur + 32) ed)
        = Some (st (?Q @ abi_bytes ed) (m - extra_size ed))"
      using q sz by (intro write_data_st) simp_all
    then obtain b where "writeWordU64 (st ?Q m) (off + 32 + cur) (u64 (length ed)) = Some b"
      "blit (off + 32 + cur + 32) ed b = Some (st (?Q @ abi_bytes ed) (m - extra_size ed))"
      by (auto simp: bind_eq_Some_conv)
    then show ?thesis using w1 ih False by (simp add: extra_size_padded [of ed] add.assoc)
  qed
qed (simp add: st_def)

lemma encodeSwapRaw_abi:
  assumes "length poolTypes = length poolAddrs" and "length amounts = length poolAddrs" and "length selector = 4"
    and "encode_extras hex poolTypes 0 extraDatas (poolAddrs, replicate (length poolAddrs) []) = Some (addrs, encs)"
  shows "encodeSwapRaw hex selector poolAddrs poolTypes tokenPairs amounts extraDatas minOutput
    = Some (abi_swap selector addrs poolTypes tokenPairs amounts encs minOutput)"
proof -
  define n where "n = length poolAddrs"
  obtain types :: "64 word list" where ty: "types = map word_of_int poolTypes" by blast
  have len: "length addrs = n" "length encs = n" "length amounts = n" "length types = n" "length poolTypes = n"
    using encode_extras_length [OF assms(4)] assms(1,2) by (auto simp: n_def ty)
  define E where "E = sum_list (map extra_size encs)"
  have ex: "encode_extras hex poolTypes 0 extraDatas (poolAddrs, replicate n []) = Some (addrs, encs)"
    using assms(4) by (simp add: n_def)
  have wx: "write_extras (st P (32 * n + E)) off 0 (n * 32) encs
      = Some (P @ abi_offsets (n * 32) encs @ concat (map abi_bytes encs))" if "off + 32 = length P" for P off
    using write_extras_st [of off 0 P "n * 32" encs "[]" E] that len
    by (simp add: st_def E_def mult.commute flip: replicate_add)
  show ?thesis
    unfolding encodeSwapRaw_def abi_swap_def abi_array_def Let_def n_def [symmetric] ex ty [symmetric]
    by (cases minOutput)
      (simp_all add: assms(3) swap_sizes_def replicate_st st_steps len E_def [symmetric] abi_nat_enc
        u64w.len u256w.len length_datas st_0 wx be_bytes_enc
        del: write_all.simps replicate.simps)
qed

lemma encodeSwapMultiInner_raw:
  assumes "poolAddrs \<noteq> []" and "length poolTypes = length poolAddrs" and "length selector = 4"
    and "encode_extras hex poolTypes 0 extraDatas (poolAddrs, replicate (length poolAddrs) []) \<noteq> None"
  shows "encodeSwapMultiInner hex selector poolAddrs poolTypes tokenPairs amountIn extraDatas minOutput
    = encodeSwapRaw hex selector poolAddrs poolTypes tokenPairs (amountIn # replicate (length poolAddrs - 1) 0)
        extraDatas minOutput"
proof -
  obtain addrs encs where "encode_extras hex poolTypes 0 extraDatas (poolAddrs, replicate (length poolAddrs) []) = Some (addrs, encs)"
    using assms(4) by auto
  then show ?thesis
    using assms(1-3) encodeSwapMultiInner_abi [of poolAddrs poolTypes selector]
      encodeSwapRaw_abi [of poolTypes poolAddrs "amountIn # replicate (length poolAddrs - 1) 0" selector]
    by (cases poolAddrs) simp_all
qed

subsection \<open>Reading the calldata back\<close>

definition word_at :: "byte list \<Rightarrow> nat \<Rightarrow> int" where
  "word_at d off = be_int (take 32 (drop off d))"

definition array_at :: "byte list \<Rightarrow> nat \<Rightarrow> int list" where
  "array_at d off = map (\<lambda>k. word_at d (off + 32 + 32 * k)) [0..<nat (word_at d off)]"

text \<open>The array argument whose offset is in head word \<open>i\<close> of the calldata.\<close>

definition array_arg :: "byte list \<Rightarrow> nat \<Rightarrow> int list" where
  "array_arg d i = array_at d (4 + nat (word_at d (4 + 32 * i)))"

definition bytes_at :: "byte list \<Rightarrow> nat \<Rightarrow> byte list" where
  "bytes_at d off = take (nat (word_at d off)) (drop (off + 32) d)"

lemma word_at_skip: "off = length P \<Longrightarrow> length b = 32 \<Longrightarrow> word_at (P @ b @ S) off = be_int b"
  by (simp add: word_at_def)

lemma be_int_enc: "be_int (enc_u64 v) = uint v" "be_int (enc_addr a) = uint a" "be_int (enc_u256 m) = uint m"
proof -
  have b: "x < 256 ^ 32" if "x < 2 ^ 256" for x :: int using that by simp
  show "be_int (enc_u64 v) = uint v" using uint_bounded [of v] by (simp add: enc_u64_def be_int_bytes)
  show "be_int (enc_addr a) = uint a" using uint_bounded [of a] by (simp add: enc_addr_def be_int_bytes)
  show "be_int (enc_u256 m) = uint m" using uint_bounded [of m] by (simp add: enc_u256_def be_int_bytes)
qed

lemma uint_u64: "n < 2 ^ 64 \<Longrightarrow> uint (u64 n) = int n"
  by (simp add: u64_def unsigned_of_nat nat_take_bit_eq take_bit_nat_eq_self_iff)

lemma words_at:
  assumes "\<And>x. length (e x) = 32" and "k < length xs" and "off = length P + 32 * k"
  shows "word_at (P @ concat (map e xs) @ S) off = be_int (e (xs ! k))"
proof -
  have l: "length (concat (map e ys)) = 32 * length ys" for ys by (induction ys) (simp_all add: assms(1))
  have "concat (map e xs) = concat (map e (take k xs)) @ e (xs ! k) @ concat (map e (drop (Suc k) xs))"
    by (subst id_take_nth_drop [OF assms(2)]) (simp only: map_append concat_append list.map concat.simps)
  then show ?thesis
    using word_at_skip [of off "P @ concat (map e (take k xs))" "e (xs ! k)" "concat (map e (drop (Suc k) xs)) @ S"] assms
    by (simp add: l)
qed

lemma array_at_enc:
  assumes "\<And>x. length (e x) = 32" and "length xs < 2 ^ 64" and "off = length P"
  shows "array_at (P @ abi_array e (length xs) xs @ S) off = map (\<lambda>x. be_int (e x)) xs"
proof -
  have n: "word_at (P @ abi_array e (length xs) xs @ S) off = int (length xs)"
    using assms(2,3) word_at_skip [of off P "abi_nat (length xs)" "concat (map e xs) @ S"]
    by (simp add: abi_array_def abi_nat_enc be_int_enc uint_u64 u64w.len)
  have "word_at (P @ abi_array e (length xs) xs @ S) (off + 32 + 32 * k) = be_int (e (xs ! k))"
    if "k < length xs" for k
    using words_at [of e k xs "off + 32 + 32 * k" "P @ abi_nat (length xs)" S] that assms
    by (simp add: abi_array_def)
  then show ?thesis by (intro nth_equalityI) (simp_all add: array_at_def n)
qed

lemma head_at:
  assumes "length selector = 4" and "i < length hs" and "hs ! i < 2 ^ 64"
  shows "word_at (selector @ concat (map abi_nat hs) @ S) (4 + 32 * i) = int (hs ! i)"
  using words_at [of abi_nat i hs "4 + 32 * i" selector S] assms
  by (simp add: abi_nat_enc be_int_enc uint_u64 u64w.len)


lemma be_bytes_word: "be_int (abi_nat n) = uint (u64 n)"
  by (simp add: abi_nat_enc be_int_enc)

lemma in_set_le: "x \<in> set xs \<Longrightarrow> list_all (\<lambda>y. y \<le> b) xs \<Longrightarrow> x \<le> (b :: nat)"
  by (simp add: list_all_iff)

lemmas length_enc = u64w.len addrw.len u256w.len

text \<open>The parts of the calldata, each behind an explicit prefix.\<close>

lemma abi_swap_arrays:
  assumes "length selector = 4" and "length types = length addrs" and "length amounts = length addrs"
    and "length encs = length addrs"
    and "length (abi_swap selector addrs types tokens amounts encs minOutput) < 2 ^ 64"
  shows "array_arg (abi_swap selector addrs types tokens amounts encs minOutput) 0 = map uint addrs"
    and "array_arg (abi_swap selector addrs types tokens amounts encs minOutput) 1 = map (\<lambda>t. uint (word_of_int t :: 64 word)) types"
    and "array_arg (abi_swap selector addrs types tokens amounts encs minOutput) 2 = map uint tokens"
    and "array_arg (abi_swap selector addrs types tokens amounts encs minOutput) 3 = map uint amounts"
    and "word_at (abi_swap selector addrs types tokens amounts encs minOutput) 132 = int (length (
           abi_swap selector addrs types tokens amounts encs minOutput)) - 4 - 32
           - 32 * int (length addrs) - int (sum_list (map extra_size encs))"
proof -
  define n where "n = length addrs"
  define t where "t = length tokens"
  define h where "h = (if minOutput = None then 160 else 192 :: nat)"
  define hs where "hs = [h, h + 32 + 32 * n, h + 64 + 64 * n, h + 96 + 64 * n + 32 * t, h + 128 + 96 * n + 32 * t]"
  define mo where "mo = (case minOutput of Some m \<Rightarrow> enc_u256 m | None \<Rightarrow> [])"
  define D where "D = abi_nat n @ abi_offsets (n * 32) encs @ concat (map abi_bytes encs)"
  let ?A = "abi_array enc_addr n addrs" and ?T = "abi_array enc_u64 n (map word_of_int types)"
    and ?K = "abi_array enc_addr t tokens" and ?M = "abi_array enc_u256 n amounts"
  let ?d = "abi_swap selector addrs types tokens amounts encs minOutput"
  let ?H = "selector @ concat (map abi_nat hs)"
  have d: "?d = ?H @ mo @ ?A @ ?T @ ?K @ ?M @ D"
    by (cases minOutput) (simp_all add: abi_swap_def Let_def swap_sizes_def n_def t_def hs_def h_def mo_def D_def
      ac_simps)
  have mo: "length mo = h - 160" by (cases minOutput) (simp_all add: mo_def h_def u256w.len)
  have h: "160 \<le> h" "h \<le> 192" by (simp_all add: h_def)
  have lh: "length ?H = 164" by (simp add: hs_def assms(1))
  have la: "length ?A = 32 + 32 * n" "length ?T = 32 + 32 * n" "length ?K = 32 + 32 * t" "length ?M = 32 + 32 * n"
    using assms(2,3) length_concat_enc(1) [of "map word_of_int types"]
    by (simp_all add: abi_array_def n_def t_def del: map_map)
  have ld: "length ?d = 164 + (h - 160) + 128 + 96 * n + 32 * t + length D" using la lh mo by (simp add: d)
  have lD: "length D = 32 + 32 * n + sum_list (map extra_size encs)"
    using assms(4) by (simp add: D_def n_def length_datas)
  have word: "word_at ?d (4 + 32 * i) = int (hs ! i)" if "i < 5" for i
  proof -
    have "hs ! i \<in> set hs" using that by (intro nth_mem) (simp add: hs_def)
    then have "hs ! i \<le> h + 128 + 96 * n + 32 * t" by (elim in_set_le) (simp add: hs_def)
    then have "hs ! i < 2 ^ 64" using assms(5) ld h lD by linarith
    then show ?thesis
      using head_at [of selector i hs "mo @ ?A @ ?T @ ?K @ ?M @ D"] that assms(1) unfolding d by (simp add: hs_def)
  qed
  have nt: "n < 2 ^ 64" "t < 2 ^ 64" using assms(5) ld by linarith+
  have arg: "array_arg ?d i = array_at ?d (4 + hs ! i)" if "i < 5" for i
    using word [OF that] by (simp add: array_arg_def)
  have off: "4 + h = length (?H @ mo)" "4 + h + 32 + 32 * n = length (?H @ mo @ ?A)"
    "4 + h + 64 + 64 * n = length (?H @ mo @ ?A @ ?T)"
    "4 + h + 96 + 64 * n + 32 * t = length (?H @ mo @ ?A @ ?T @ ?K)"
    using lh mo h la by simp_all
  have a: "array_at ?d (4 + h) = map uint addrs"
    using array_at_enc [OF _ _ off(1), where e = enc_addr and xs = addrs and S = "?T @ ?K @ ?M @ D"] nt
    by (simp only: d n_def be_int_enc append_assoc length_enc simp_thms)
  have b: "array_at ?d (4 + h + 32 + 32 * n) = map (\<lambda>t. uint (word_of_int t :: 64 word)) types"
    using array_at_enc [OF _ _ off(2), where e = enc_u64 and xs = "map word_of_int types" and S = "?K @ ?M @ D"] nt assms(2)
    by (simp only: d n_def be_int_enc append_assoc length_map map_map o_def length_enc simp_thms)
  have c: "array_at ?d (4 + h + 64 + 64 * n) = map uint tokens"
    using array_at_enc [OF _ _ off(3), where e = enc_addr and xs = tokens and S = "?M @ D"] nt
    by (simp only: d t_def be_int_enc append_assoc length_enc simp_thms)
  have e: "array_at ?d (4 + h + 96 + 64 * n + 32 * t) = map uint amounts"
    using array_at_enc [OF _ _ off(4), where e = enc_u256 and xs = amounts and S = D] nt assms(3)
    by (simp only: d n_def be_int_enc append_assoc length_enc simp_thms)
  show "array_arg ?d 0 = map uint addrs" using a arg [of 0] by (simp add: hs_def)
  show "array_arg ?d 1 = map (\<lambda>t. uint (word_of_int t :: 64 word)) types"
    using b arg [of 1] by (simp add: hs_def ac_simps)
  show "array_arg ?d 2 = map uint tokens" using c arg [of 2] by (simp add: hs_def ac_simps)
  show "array_arg ?d 3 = map uint amounts" using e arg [of 3] by (simp add: hs_def ac_simps numeral_3_eq_3)
  show "word_at ?d 132 = int (length ?d) - 4 - 32 - 32 * int (length addrs) - int (sum_list (map extra_size encs))"
    using word [of 4] h by (simp add: ld lD hs_def n_def numeral_eq_Suc)
qed


subsection \<open>The single swap and the extra data of V4\<close>

lemma encodeSwapSingleInner_abi:
  "encodeSwapSingleInner pool poolType tokenIn tokenOut amountIn extraData
    = Some (debugSwapSingleSelector @ enc_addr pool @ enc_u64 (word_of_int poolType) @ enc_addr tokenIn
        @ enc_addr tokenOut @ enc_u256 amountIn @ abi_nat 192 @ abi_bytes extraData)"
proof -
  define l where "l = length extraData"
  obtain k where p: "padded l = l + k" using padded_ge [of l] le_Suc_ex by blast
  have fin: "st (P @ extraData) k = P @ extraData @ replicate k 0" for P by (simp add: st_def)
  have u: "u64 192 = 192" by (simp add: u64_def)
  have s: "length debugSwapSingleSelector = 4" by (simp add: debugSwapSingleSelector_def)
  have "extraData = [] \<Longrightarrow> k = 0" using p by (simp add: l_def padded_def)
  then show ?thesis
    unfolding encodeSwapSingleInner_def Let_def replicate_st abi_bytes_def l_def [symmetric] p
    by (cases "extraData = []")
      (simp_all add: st_steps s length_enc abi_nat_enc u l_def st_0 fin flip: append_assoc, simp_all add: st_def l_def)
qed

lemma int_bytes_pad:
  "0 \<le> n \<Longrightarrow> n < 256 ^ k \<Longrightarrow> length (int_bytes n) \<le> k \<and> be_bytes k n = replicate (k - length (int_bytes n)) 0 @ int_bytes n"
proof (induction k arbitrary: n)
  case 0
  then show ?case by (simp add: int_bytes.simps [of n])
next
  case (Suc k)
  show ?case
  proof (cases "n = 0")
    case True
    then show ?thesis by (simp add: int_bytes.simps [of 0] be_bytes_const del: be_bytes.simps)
  next
    case False
    have "length (int_bytes (n div 256)) \<le> k \<and>
        be_bytes k (n div 256) = replicate (k - length (int_bytes (n div 256))) 0 @ int_bytes (n div 256)"
      using Suc.prems by (intro Suc.IH) (simp_all add: pos_imp_zdiv_nonneg_iff div_less_iff_less_mult mult.commute)
    then show ?thesis using False Suc.prems(1) by (simp add: int_bytes.simps [of n])
  qed
qed

lemma writeWord_st:
  assumes "off = length P" and "32 \<le> m" and "0 \<le> v" and "v < 2 ^ 256"
  shows "writeWord (st P m) off v = Some (st (P @ be_bytes 32 v) (m - 32))"
proof -
  let ?b = "int_bytes v"
  have b: "length ?b \<le> 32" "be_bytes 32 v = replicate (32 - length ?b) 0 @ ?b"
    using int_bytes_pad [of v 32] assms(3,4) by simp_all
  have "st P m = st (P @ replicate (32 - length ?b) 0) (m - (32 - length ?b))"
    using assms(2) by (intro st_pad) simp
  then show ?thesis using b assms by (simp add: writeWord_def Let_def blit_st)
qed

lemma encodeV4ExtraData_abi:
  assumes "0 \<le> scan_big (kv_parts extraData ''fee'')" and "scan_big (kv_parts extraData ''fee'') < 2 ^ 256"
    and "- (2 ^ 255) \<le> scan_big (kv_parts extraData ''ts'')" and "scan_big (kv_parts extraData ''ts'') < 2 ^ 255"
  shows "encodeV4ExtraData hex extraData
    = Some (be_bytes 32 (scan_big (kv_parts extraData ''fee''))
        @ be_bytes 32 (scan_big (kv_parts extraData ''ts'') mod 2 ^ 256)
        @ enc_addr (hex (kv_parts extraData ''hooks'')) @ replicate 32 0)"
proof -
  define f where "f = scan_big (kv_parts extraData ''fee'')"
  define t where "t = scan_big (kv_parts extraData ''ts'')"
  have ft: "0 \<le> f" "f < 2 ^ 256" "- (2 ^ 255) \<le> t" "t < 2 ^ 255" using assms by (simp_all add: f_def t_def)
  have tm: "t mod 2 ^ 256 = (if 0 \<le> t then t else t + 2 ^ 256)"
  proof (cases "0 \<le> t")
    case False
    then have "(t + 2 ^ 256) mod 2 ^ 256 = t + 2 ^ 256" using ft by (intro mod_pos_pos_trivial) simp_all
    then show ?thesis using False by (simp only: mod_add_self2 if_False)
  qed (use ft in simp)
  have w1: "writeWord (st [] 128) 0 f = Some (st (be_bytes 32 f) 96)"
    using writeWord_st [of 0 "[]" 128 f] ft by simp
  have w2: "writeWord (st (be_bytes 32 f) 96) 32 (t mod 2 ^ 256) = Some (st (be_bytes 32 f @ be_bytes 32 (t mod 2 ^ 256)) 64)"
    using writeWord_st [of 32 "be_bytes 32 f" 96 "t mod 2 ^ 256"] by simp
  have w3: "writeAddress (st (be_bytes 32 f @ be_bytes 32 (t mod 2 ^ 256)) 64) 64 h
      = Some (st (be_bytes 32 f @ be_bytes 32 (t mod 2 ^ 256) @ enc_addr h) 32)" for h
    by (simp add: addrw.write_st)
  have "(if 0 \<le> t then writeWord b 32 t else writeWord b 32 (t + 2 ^ 256)) = writeWord b 32 (t mod 2 ^ 256)" for b
    using tm by simp
  then show ?thesis
    unfolding encodeV4ExtraData_def Let_def f_def [symmetric] t_def [symmetric] replicate_st w1
    by (simp only: bind.bind_lunit w2 w3) (simp add: st_def)
qed

end
