(* ===== verification/Bfs.thy ===== *)
theory Bfs
  imports Abi_Encode "HOL-Library.AList" "HOL-Library.Sublist"
begin

text \<open>
  Models \<open>pathfinder/bfs.go\<close>, the beam search for routes.  Parameters: \<open>quote\<close>, the pool quoter of the
  interface \<open>PoolQuoterSource\<close>, whose answers do not change during one search; \<open>evm\<close>, one execution of
  the router contract on a fresh call state, \<open>None\<close> for an error; \<open>order\<close>, the order in which a layer's
  map of tokens is iterated, which Go leaves open.  Node indices are natural numbers: an \<open>int32\<close> index
  would need \<open>2\<^sup>3\<^sup>1\<close> nodes to overflow.
\<close>

type_synonym quoter = "address \<Rightarrow> u256 \<Rightarrow> address \<Rightarrow> address \<Rightarrow> u256"

record bfs_node =
  n_amount :: u256
  n_parent :: int
  n_pool :: "16 word"
  n_in :: address
  n_token :: address

record bfs_state =
  b_nodes :: "bfs_node list"
  b_best :: "(address \<times> (u256 \<times> nat) list) list"
  b_cands :: "nat list"
  b_quotes :: nat

record route_stats =
  st_formula :: nat
  st_evm :: nat
  st_total :: nat

record route =
  r_steps :: "route_step list"
  r_out :: u256
  r_gas :: nat
  r_data :: "byte list"
  r_stats :: route_stats

definition topK :: nat where
  "topK = 3"

subsection \<open>One edge of one layer\<close>

definition worst_idx :: "(u256 \<times> nat) list \<Rightarrow> nat" where
  "worst_idx es = fold (\<lambda>j w. if fst (es ! j) < fst (es ! w) then j else w) [1..<length es] 0"

definition best_of :: "bfs_state \<Rightarrow> address \<Rightarrow> (u256 \<times> nat) list" where
  "best_of s tok = (case map_of (b_best s) tok of Some es \<Rightarrow> es | None \<Rightarrow> [])"

definition bfs_push :: "bfs_node \<Rightarrow> bfs_state \<Rightarrow> bfs_state" where
  "bfs_push node s = s\<lparr>b_nodes := b_nodes s @ [node]\<rparr>"

definition bfs_offer :: "bfs_node \<Rightarrow> bfs_state \<Rightarrow> bfs_state" where
  "bfs_offer node s =
     (let tok = n_token node; out = n_amount node; entries = best_of s tok; nodeIdx = length (b_nodes s)
      in if length entries < topK then
           (bfs_push node s)\<lparr>b_best := AList.update tok (entries @ [(out, nodeIdx)]) (b_best s)\<rparr>
         else
           let w = worst_idx entries
           in if fst (entries ! w) < out then
                (bfs_push node s)\<lparr>b_best := AList.update tok (entries[w := (out, nodeIdx)]) (b_best s)\<rparr>
              else s)"

definition bfs_edge ::
  "quoter \<Rightarrow> pool list \<Rightarrow> address \<Rightarrow> address \<Rightarrow> nat \<Rightarrow> nat \<Rightarrow> pool_edge \<Rightarrow> bfs_state \<Rightarrow> bfs_state option" where
  "bfs_edge quote pools tokenIn tokenOut hop parentIdx e s =
     (let parent = b_nodes s ! parentIdx; cyclic = (tokenIn = tokenOut)
      in if 0 \<le> n_parent parent \<and> pe_idx e = n_pool parent then Some s
         else if \<not> cyclic \<and> pe_out e = tokenIn then Some s
         else if length pools \<le> unat (pe_idx e) then None
         else
           let s = s\<lparr>b_quotes := b_quotes s + 1\<rparr>;
               out = quote (p_address (pools ! unat (pe_idx e))) (n_amount parent) (pe_in e) (pe_out e);
               node = \<lparr>n_amount = out, n_parent = int parentIdx, n_pool = pe_idx e, n_in = pe_in e, n_token = pe_out e\<rparr>
           in if out = 0 then Some s
              else if cyclic \<and> pe_out e = tokenOut \<and> 1 \<le> hop then
                Some ((bfs_push node s)\<lparr>b_cands := b_cands s @ [length (b_nodes s)]\<rparr>)
              else Some (bfs_offer node s))"

subsection \<open>Layers\<close>

definition bfs_parent ::
  "quoter \<Rightarrow> (address \<Rightarrow> pool_edge list) \<Rightarrow> pool list \<Rightarrow> address \<Rightarrow> address \<Rightarrow> nat \<Rightarrow> nat \<Rightarrow> bfs_state \<Rightarrow> bfs_state option" where
  "bfs_parent quote adj pools tokenIn tokenOut hop parentIdx s =
     foldo (bfs_edge quote pools tokenIn tokenOut hop parentIdx) (adj (n_token (b_nodes s ! parentIdx))) s"

text \<open>\<open>bfs_collect\<close> adds the candidates of a layer; \<open>bfs_frontier\<close> is the next layer.\<close>

definition bfs_collect :: "address \<Rightarrow> address \<Rightarrow> bfs_state \<Rightarrow> bfs_state" where
  "bfs_collect tokenIn tokenOut s =
     (if tokenIn \<noteq> tokenOut then s\<lparr>b_cands := b_cands s @ map snd (best_of s tokenOut)\<rparr> else s)"

definition bfs_frontier :: "(address list \<Rightarrow> address list) \<Rightarrow> address \<Rightarrow> bfs_state \<Rightarrow> nat list" where
  "bfs_frontier order tokenOut s =
     concat (map (\<lambda>tok. if tok = tokenOut then [] else map snd (best_of s tok)) (order (map fst (b_best s))))"

fun bfs_layers ::
  "quoter \<Rightarrow> (address \<Rightarrow> pool_edge list) \<Rightarrow> pool list \<Rightarrow> address \<Rightarrow> address \<Rightarrow> (nat \<Rightarrow> address list \<Rightarrow> address list)
    \<Rightarrow> nat \<Rightarrow> nat \<Rightarrow> nat list \<Rightarrow> bfs_state \<Rightarrow> bfs_state option" where
  "bfs_layers quote adj pools tokenIn tokenOut order hop 0 layer s = Some s"
| "bfs_layers quote adj pools tokenIn tokenOut order hop (Suc n) layer s =
     do {
       s1 \<leftarrow> foldo (bfs_parent quote adj pools tokenIn tokenOut hop) layer (s\<lparr>b_best := []\<rparr>);
       let s2 = bfs_collect tokenIn tokenOut s1;
       let layer' = bfs_frontier (order hop) tokenOut s2;
       if layer' = [] then Some s2
       else bfs_layers quote adj pools tokenIn tokenOut order (hop + 1) n layer' s2
     }"

definition bfs_init :: "address \<Rightarrow> u256 \<Rightarrow> bfs_state" where
  "bfs_init tokenIn amountIn =
     \<lparr>b_nodes = [\<lparr>n_amount = amountIn, n_parent = -1, n_pool = 0, n_in = 0, n_token = tokenIn\<rparr>],
      b_best = [], b_cands = [], b_quotes = 0\<rparr>"

subsection \<open>Sorting the candidates\<close>

text \<open>The inner loop of the insertion sort: swap to the left while the amount is greater.\<close>

fun sift :: "('a \<Rightarrow> u256) \<Rightarrow> 'a list \<Rightarrow> nat \<Rightarrow> 'a list" where
  "sift f c 0 = c"
| "sift f c (Suc j) = (if f (c ! j) < f (c ! Suc j) then sift f (c[j := c ! Suc j, Suc j := c ! j]) j else c)"

definition sort_cands :: "('a \<Rightarrow> u256) \<Rightarrow> 'a list \<Rightarrow> 'a list" where
  "sort_cands f c = fold (\<lambda>i c. sift f c i) [1..<length c] c"

subsection \<open>Backtracking\<close>

text \<open>
  The parent links are followed to the root; nothing in the types keeps them from forming a cycle, so
  the loop is a partial function.
\<close>

definition hop_step :: "pool list \<Rightarrow> bfs_node list \<Rightarrow> nat \<Rightarrow> route_step" where
  "hop_step pools nodes i =
     (let node = nodes ! i; p = pools ! unat (n_pool node)
      in \<lparr>rs_pool = p_address p, rs_type = p_type p, rs_in = n_token (nodes ! nat (n_parent node)),
          rs_out = n_token node, rs_extra = p_extra p\<rparr>)"

partial_function (option) bt_loop ::
  "pool list \<Rightarrow> bfs_node list \<Rightarrow> int \<Rightarrow> route_step list \<Rightarrow> route_step list option" where
  "bt_loop pools nodes idx acc =
     (if 0 \<le> idx \<and> 0 \<le> n_parent (nodes ! nat idx)
      then bt_loop pools nodes (n_parent (nodes ! nat idx)) (acc @ [hop_step pools nodes (nat idx)])
      else Some acc)"

definition backtrack :: "pool list \<Rightarrow> bfs_node list \<Rightarrow> nat \<Rightarrow> route_step list option" where
  "backtrack pools nodes i = map_option rev (bt_loop pools nodes (int i) [])"

subsection \<open>Verification on the EVM\<close>

definition evm_amount :: "(byte list \<times> nat) option \<Rightarrow> (u256 \<times> nat) option" where
  "evm_amount res =
     (case res of None \<Rightarrow> None
      | Some (ret, gas) \<Rightarrow>
          if length ret < 32 then None
          else let v = be_word (take 32 ret)
               in if ret ! 0 AND 0x80 \<noteq> 0 then None else if v = 0 then None else Some (v, gas))"

definition swap_calldata :: "(string \<Rightarrow> address) \<Rightarrow> u256 \<Rightarrow> route_step list \<Rightarrow> byte list option" where
  "swap_calldata hex amountIn steps =
     EncodeSwapMulti hex (map rs_pool steps) (map rs_type steps) (concat (map (\<lambda>s. [rs_in s, rs_out s]) steps))
       amountIn (map rs_extra steps) (Some 0)"

fun verify_loop ::
  "(string \<Rightarrow> address) \<Rightarrow> (byte list \<Rightarrow> (byte list \<times> nat) option) \<Rightarrow> pool list \<Rightarrow> bfs_node list \<Rightarrow> u256 \<Rightarrow> nat \<Rightarrow> nat
    \<Rightarrow> nat \<Rightarrow> nat list \<Rightarrow> route list \<Rightarrow> route list option" where
  "verify_loop hex evm pools nodes amountIn limit quotes evmQuotes [] verified = Some verified"
| "verify_loop hex evm pools nodes amountIn limit quotes evmQuotes (c # cs) verified =
     do {
       steps \<leftarrow> backtrack pools nodes c;
       data \<leftarrow> swap_calldata hex amountIn steps;
       let evmQuotes = evmQuotes + 1;
       case evm_amount (evm data) of
         None \<Rightarrow> verify_loop hex evm pools nodes amountIn limit quotes evmQuotes cs verified
       | Some (v, gas) \<Rightarrow>
           let r = \<lparr>r_steps = steps, r_out = v, r_gas = gas, r_data = data,
                    r_stats = \<lparr>st_formula = quotes, st_evm = evmQuotes, st_total = quotes + evmQuotes\<rparr>\<rparr>;
               verified = verified @ [r]
           in if limit \<le> length verified then Some verified
              else verify_loop hex evm pools nodes amountIn limit quotes evmQuotes cs verified
     }"

definition FindTopRoutes ::
  "quoter \<Rightarrow> (address \<Rightarrow> pool_edge list) \<Rightarrow> pool list \<Rightarrow> (string \<Rightarrow> address) \<Rightarrow> (byte list \<Rightarrow> (byte list \<times> nat) option)
    \<Rightarrow> (nat \<Rightarrow> address list \<Rightarrow> address list) \<Rightarrow> address \<Rightarrow> address \<Rightarrow> u256 \<Rightarrow> int \<Rightarrow> int \<Rightarrow> route list option" where
  "FindTopRoutes quote adj pools hex evm order tokenIn tokenOut amountIn maxHops limit =
     (if amountIn = 0 then Some []
      else do {
        let limit = (if limit \<le> 0 then 1 else nat limit);
        let maxHops = (if maxHops \<le> 0 \<or> 4 < maxHops then 4 else nat maxHops);
        s \<leftarrow> bfs_layers quote adj pools tokenIn tokenOut order 0 maxHops [0] (bfs_init tokenIn amountIn);
        let candidates = sort_cands (\<lambda>c. n_amount (b_nodes s ! c)) (b_cands s);
        verify_loop hex evm pools (b_nodes s) amountIn limit (b_quotes s) 0 (take 5 candidates) []
      })"

definition FindBestRoute ::
  "quoter \<Rightarrow> (address \<Rightarrow> pool_edge list) \<Rightarrow> pool list \<Rightarrow> (string \<Rightarrow> address) \<Rightarrow> (byte list \<Rightarrow> (byte list \<times> nat) option)
    \<Rightarrow> (nat \<Rightarrow> address list \<Rightarrow> address list) \<Rightarrow> address \<Rightarrow> address \<Rightarrow> u256 \<Rightarrow> int \<Rightarrow> route option option" where
  "FindBestRoute quote adj pools hex evm order tokenIn tokenOut amountIn maxHops =
     do { rs \<leftarrow> FindTopRoutes quote adj pools hex evm order tokenIn tokenOut amountIn maxHops 1;
          Some (case rs of [] \<Rightarrow> None | r # _ \<Rightarrow> Some r) }"

fun QuotePath :: "quoter \<Rightarrow> route_step list \<Rightarrow> u256 \<Rightarrow> u256" where
  "QuotePath quote [] current = current"
| "QuotePath quote (s # ss) current =
     (let out = quote (rs_pool s) current (rs_in s) (rs_out s)
      in if out = 0 then out else QuotePath quote ss out)"

subsection \<open>What the nodes of the search stand for\<close>

text \<open>
  \<open>bfs_node_ok i steps\<close>: node \<open>i\<close> was reached from the root by the hops \<open>steps\<close>, every hop along an edge
  of the graph, at the amount the quoter gives for it.
\<close>

inductive bfs_node_ok ::
  "quoter \<Rightarrow> (address \<Rightarrow> pool_edge list) \<Rightarrow> pool list \<Rightarrow> address \<Rightarrow> address \<Rightarrow> u256 \<Rightarrow> bfs_node list \<Rightarrow> nat
    \<Rightarrow> route_step list \<Rightarrow> bool"
  for quote adj pools tokenIn tokenOut amountIn nodes where
  root: "nodes \<noteq> [] \<Longrightarrow> nodes ! 0 = hd (b_nodes (bfs_init tokenIn amountIn))
    \<Longrightarrow> bfs_node_ok quote adj pools tokenIn tokenOut amountIn nodes 0 []"
| hop: "bfs_node_ok quote adj pools tokenIn tokenOut amountIn nodes p steps \<Longrightarrow> i < length nodes \<Longrightarrow> p < length nodes
    \<Longrightarrow> n_parent (nodes ! i) = int p
    \<Longrightarrow> e \<in> set (adj (n_token (nodes ! p))) \<Longrightarrow> unat (pe_idx e) < length pools
    \<Longrightarrow> n_pool (nodes ! i) = pe_idx e \<Longrightarrow> n_token (nodes ! i) = pe_out e
    \<Longrightarrow> steps \<noteq> [] \<longrightarrow> pe_idx e \<noteq> n_pool (nodes ! p)
    \<Longrightarrow> tokenIn = tokenOut \<or> pe_out e \<noteq> tokenIn
    \<Longrightarrow> n_amount (nodes ! i)
          = quote (p_address (pools ! unat (pe_idx e))) (n_amount (nodes ! p)) (pe_in e) (pe_out e)
    \<Longrightarrow> n_amount (nodes ! i) \<noteq> 0
    \<Longrightarrow> bfs_node_ok quote adj pools tokenIn tokenOut amountIn nodes i (steps @ [hop_step pools nodes i])"

lemma hop_step_append:
  "i < length nodes \<Longrightarrow> nat (n_parent (nodes ! i)) < length nodes \<Longrightarrow> hop_step pools (nodes @ ms) i = hop_step pools nodes i"
  by (simp add: hop_step_def Let_def nth_append)

lemma bfs_node_ok_append:
  "bfs_node_ok quote adj pools tokenIn tokenOut amountIn nodes i steps
    \<Longrightarrow> bfs_node_ok quote adj pools tokenIn tokenOut amountIn (nodes @ ms) i steps"
proof (induction rule: bfs_node_ok.induct)
  case root
  then show ?case by (intro bfs_node_ok.root) (simp_all add: nth_append)
next
  case (hop p steps i e)
  have "bfs_node_ok quote adj pools tokenIn tokenOut amountIn (nodes @ ms) i (steps @ [hop_step pools (nodes @ ms) i])"
    by (rule bfs_node_ok.hop [where p = p and e = e]) (use hop in \<open>simp_all add: nth_append\<close>)
  then show ?case using hop by (simp add: hop_step_append)
qed

lemma bfs_node_ok_index: "bfs_node_ok quote adj pools tokenIn tokenOut amountIn nodes i steps \<Longrightarrow> i < length nodes"
  by (cases rule: bfs_node_ok.cases) auto

lemma bfs_node_ok_parent:
  "bfs_node_ok quote adj pools tokenIn tokenOut amountIn nodes i steps \<Longrightarrow> 0 \<le> n_parent (nodes ! i) \<longleftrightarrow> steps \<noteq> []"
  by (cases rule: bfs_node_ok.cases) (auto simp: bfs_init_def)

lemma bt_loop_node:
  "bfs_node_ok quote adj pools tokenIn tokenOut amountIn nodes i steps
    \<Longrightarrow> bt_loop pools nodes (int i) acc = Some (acc @ rev steps)"
proof (induction arbitrary: acc rule: bfs_node_ok.induct)
  case root
  then show ?case by (subst bt_loop.simps) (simp add: bfs_init_def)
next
  case (hop p steps i e)
  then show ?case by (subst bt_loop.simps) simp
qed

lemma backtrack_node:
  "bfs_node_ok quote adj pools tokenIn tokenOut amountIn nodes i steps \<Longrightarrow> backtrack pools nodes i = Some steps"
  by (simp add: backtrack_def bt_loop_node)

text \<open>A route: a chain of tokens, its pools, and the amount that arrives.\<close>

fun chain :: "address \<Rightarrow> route_step list \<Rightarrow> address \<Rightarrow> bool" where
  "chain a [] b = (a = b)"
| "chain a (s # ss) b = (rs_in s = a \<and> chain (rs_out s) ss b)"

lemma chain_append: "chain a (ss @ [s]) b \<longleftrightarrow> chain a ss (rs_in s) \<and> rs_out s = b"
  by (induction ss arbitrary: a) auto

lemma QuotePath_append:
  "QuotePath quote ss a \<noteq> 0
    \<Longrightarrow> QuotePath quote (ss @ [s]) a = quote (rs_pool s) (QuotePath quote ss a) (rs_in s) (rs_out s)"
  by (induction ss arbitrary: a) (auto simp: Let_def split: if_splits)

definition step_of_edge :: "(address \<Rightarrow> pool_edge list) \<Rightarrow> pool list \<Rightarrow> route_step \<Rightarrow> bool" where
  "step_of_edge adj pools s =
     (\<exists>e\<in>set (adj (rs_in s)). let p = pools ! unat (pe_idx e) in
        unat (pe_idx e) < length pools \<and> rs_out s = pe_out e \<and> rs_pool s = p_address p \<and> rs_type s = p_type p
        \<and> rs_extra s = p_extra p)"

definition adj_wf :: "(address \<Rightarrow> pool_edge list) \<Rightarrow> bool" where
  "adj_wf adj = (\<forall>t. \<forall>e\<in>set (adj t). pe_in e = t)"

lemma bfs_node_ok_chain:
  "bfs_node_ok quote adj pools tokenIn tokenOut amountIn nodes i steps \<Longrightarrow> chain tokenIn steps (n_token (nodes ! i))"
proof (induction rule: bfs_node_ok.induct)
  case (hop p steps i e)
  then show ?case by (simp add: chain_append hop_step_def Let_def)
qed (simp add: bfs_init_def)

lemma bfs_node_ok_edges:
  "bfs_node_ok quote adj pools tokenIn tokenOut amountIn nodes i steps \<Longrightarrow> s \<in> set steps
    \<Longrightarrow> step_of_edge adj pools s \<and> (tokenIn = tokenOut \<or> rs_out s \<noteq> tokenIn)"
proof (induction rule: bfs_node_ok.induct)
  case (hop p steps i e)
  then show ?case by (auto simp: hop_step_def Let_def step_of_edge_def)
qed simp

lemma bfs_node_ok_amount:
  "bfs_node_ok quote adj pools tokenIn tokenOut amountIn nodes i steps \<Longrightarrow> adj_wf adj \<Longrightarrow> amountIn \<noteq> 0
    \<Longrightarrow> n_amount (nodes ! i) = QuotePath quote steps amountIn \<and> n_amount (nodes ! i) \<noteq> 0"
proof (induction rule: bfs_node_ok.induct)
  case root
  then show ?case by (simp add: bfs_init_def)
next
  case (hop p steps i e)
  have "pe_in e = n_token (nodes ! p)" using hop by (auto simp: adj_wf_def)
  moreover have "QuotePath quote steps amountIn \<noteq> 0" using hop.IH hop.prems by metis
  ultimately show ?case using hop by (simp add: QuotePath_append hop_step_def Let_def)
qed

subsection \<open>The invariant of the search\<close>

definition best_ok ::
  "(nat \<Rightarrow> route_step list \<Rightarrow> bool) \<Rightarrow> bfs_node list \<Rightarrow> nat \<Rightarrow> (address \<times> (u256 \<times> nat) list) list \<Rightarrow> bool" where
  "best_ok ok nodes k best =
     (\<forall>(tok, es)\<in>set best. length es \<le> topK \<and>
        (\<forall>(a, i)\<in>set es. n_token (nodes ! i) = tok \<and> n_amount (nodes ! i) = a \<and>
           (\<exists>steps. ok i steps \<and> length steps = k)))"

definition cands_ok ::
  "(nat \<Rightarrow> route_step list \<Rightarrow> bool) \<Rightarrow> bfs_node list \<Rightarrow> nat \<Rightarrow> address \<Rightarrow> nat list \<Rightarrow> bool" where
  "cands_ok ok nodes k tokenOut cs =
     (\<forall>c\<in>set cs. n_token (nodes ! c) = tokenOut \<and> (\<exists>steps. ok c steps \<and> steps \<noteq> [] \<and> length steps \<le> k))"

definition bfs_inv ::
  "quoter \<Rightarrow> (address \<Rightarrow> pool_edge list) \<Rightarrow> pool list \<Rightarrow> address \<Rightarrow> address \<Rightarrow> u256 \<Rightarrow> nat \<Rightarrow> nat list \<Rightarrow> bfs_state \<Rightarrow> bool" where
  "bfs_inv quote adj pools tokenIn tokenOut amountIn hop layer s =
     (let ok = bfs_node_ok quote adj pools tokenIn tokenOut amountIn (b_nodes s)
      in (\<forall>i\<in>set layer. \<exists>steps. ok i steps \<and> length steps = hop)
         \<and> best_ok ok (b_nodes s) (hop + 1) (b_best s)
         \<and> cands_ok ok (b_nodes s) (hop + 1) tokenOut (b_cands s))"

lemma worst_idx_bound: "es \<noteq> [] \<Longrightarrow> worst_idx es < length es"
proof -
  assume "es \<noteq> []"
  then have "fold (\<lambda>j w. if fst (es ! j) < fst (es ! w) then j else w) js 0 < length es"
    if "\<forall>j\<in>set js. j < length es" for js
    using that by (induction js rule: rev_induct) auto
  then show ?thesis by (simp add: worst_idx_def)
qed


lemma set_update: "set (AList.update k v al) \<subseteq> insert (k, v) (set al)"
  by (induction al) auto

lemma best_of_cases: "best_of s tok = [] \<or> (tok, best_of s tok) \<in> set (b_best s)"
  by (auto simp: best_of_def split: option.splits dest: map_of_SomeD)

lemma best_ok_of:
  assumes "best_ok ok nodes k (b_best s)"
  shows "length (best_of s tok) \<le> topK"
    and "\<And>a i. (a, i) \<in> set (best_of s tok) \<Longrightarrow> n_token (nodes ! i) = tok \<and> n_amount (nodes ! i) = a \<and>
           (\<exists>steps. ok i steps \<and> length steps = k)"
  using best_of_cases [of s tok] assms by (auto simp: best_ok_def)

lemma best_ok_update:
  assumes "best_ok ok nodes k (b_best s)"
    and "set es \<subseteq> insert (n_amount (nodes ! i), i) (set (best_of s tok))" and "length es \<le> topK"
    and "n_token (nodes ! i) = tok" and "ok i steps" and "length steps = k"
  shows "best_ok ok nodes k (AList.update tok es (b_best s))"
proof -
  have new: "n_token (nodes ! j) = tok \<and> n_amount (nodes ! j) = a \<and> (\<exists>steps. ok j steps \<and> length steps = k)"
    if "(a, j) \<in> set es" for a j
    using that assms(2,4-6) best_ok_of(2) [OF assms(1), of a j tok] by auto
  show ?thesis
    unfolding best_ok_def
  proof (intro ballI)
    fix x
    assume "x \<in> set (AList.update tok es (b_best s))"
    then consider "x = (tok, es)" | "x \<in> set (b_best s)" using set_update [of tok es "b_best s"] by blast
    then show "case x of (tok, es) \<Rightarrow> length es \<le> topK \<and> (\<forall>(a, i)\<in>set es. n_token (nodes ! i) = tok
        \<and> n_amount (nodes ! i) = a \<and> (\<exists>steps. ok i steps \<and> length steps = k))"
      using new assms(1,3) by cases (auto simp: best_ok_def)
  qed
qed

lemma bfs_inv_push:
  assumes "bfs_inv quote adj pools tokenIn tokenOut amountIn hop layer s"
  shows "bfs_inv quote adj pools tokenIn tokenOut amountIn hop layer (bfs_push node s)"
proof -
  let ?ok = "bfs_node_ok quote adj pools tokenIn tokenOut amountIn"
  have ok: "?ok (b_nodes s @ [node]) i steps" if "?ok (b_nodes s) i steps" for i steps
    using that by (rule bfs_node_ok_append)
  have nth: "(b_nodes s @ [node]) ! i = b_nodes s ! i" if "?ok (b_nodes s) i steps" for i steps
    using bfs_node_ok_index [OF that] by (simp add: nth_append)
  from assms have inv: "\<forall>i\<in>set layer. \<exists>steps. ?ok (b_nodes s) i steps \<and> length steps = hop"
    "best_ok (?ok (b_nodes s)) (b_nodes s) (hop + 1) (b_best s)"
    "cands_ok (?ok (b_nodes s)) (b_nodes s) (hop + 1) tokenOut (b_cands s)"
    by (simp_all add: bfs_inv_def Let_def)
  have "best_ok (?ok (b_nodes s @ [node])) (b_nodes s @ [node]) (hop + 1) (b_best s)"
    unfolding best_ok_def
  proof (intro ballI, clarify, intro conjI ballI, goal_cases)
    case (1 tok es) then show ?case using inv(2) by (auto simp: best_ok_def)
  next
    case (2 tok es x)
    obtain a i where x: "x = (a, i)" by force
    with 2 inv(2) obtain steps where "?ok (b_nodes s) i steps" "length steps = hop + 1"
      "n_token (b_nodes s ! i) = tok" "n_amount (b_nodes s ! i) = a"
      by (force simp: best_ok_def)
    then show ?case using ok nth x by auto
  qed
  moreover have "cands_ok (?ok (b_nodes s @ [node])) (b_nodes s @ [node]) (hop + 1) tokenOut (b_cands s)"
    using inv(3) ok nth unfolding cands_ok_def by fastforce
  moreover have "\<forall>i\<in>set layer. \<exists>steps. ?ok (b_nodes s @ [node]) i steps \<and> length steps = hop"
    using inv(1) ok by meson
  ultimately show ?thesis by (simp add: bfs_inv_def bfs_push_def)
qed

lemma bfs_inv_offer:
  assumes "bfs_inv quote adj pools tokenIn tokenOut amountIn hop layer s"
    and "bfs_node_ok quote adj pools tokenIn tokenOut amountIn (b_nodes s @ [node]) (length (b_nodes s)) steps"
    and "length steps = hop + 1"
  shows "bfs_inv quote adj pools tokenIn tokenOut amountIn hop layer (bfs_offer node s)"
proof -
  let ?s = "bfs_push node s" and ?es = "best_of s (n_token node)"
  let ?ok = "bfs_node_ok quote adj pools tokenIn tokenOut amountIn"
  have inv: "bfs_inv quote adj pools tokenIn tokenOut amountIn hop layer ?s"
    using assms(1) by (rule bfs_inv_push)
  have b: "best_of ?s tok = best_of s tok" for tok by (simp add: best_of_def bfs_push_def)
  have upd: "bfs_inv quote adj pools tokenIn tokenOut amountIn hop layer
      (?s\<lparr>b_best := AList.update (n_token node) es (b_best s)\<rparr>)"
    if es: "set es \<subseteq> insert (n_amount node, length (b_nodes s)) (set ?es)" "length es \<le> topK" for es
  proof -
    have "best_ok (?ok (b_nodes ?s)) (b_nodes ?s) (hop + 1) (AList.update (n_token node) es (b_best ?s))"
      by (rule best_ok_update [where i = "length (b_nodes s)" and steps = steps])
        (use inv es assms(2,3) b [of "n_token node"] in \<open>simp_all add: bfs_inv_def bfs_push_def Let_def\<close>)
    then show ?thesis using inv by (simp add: bfs_inv_def bfs_push_def Let_def)
  qed
  have l: "length ?es \<le> topK"
    using best_ok_of(1) assms(1) by (auto simp: bfs_inv_def Let_def)
  show ?thesis
    using upd [of "?es @ [(n_amount node, length (b_nodes s))]"]
      upd [of "?es[worst_idx ?es := (n_amount node, length (b_nodes s))]"] l assms(1)
    by (simp add: bfs_offer_def Let_def set_update_subset_insert)
qed

lemma bfs_inv_edge:
  assumes inv: "bfs_inv quote adj pools tokenIn tokenOut amountIn hop layer s"
    and p: "p \<in> set layer" and e: "e \<in> set (adj (n_token (b_nodes s ! p)))"
    and step: "bfs_edge quote pools tokenIn tokenOut hop p e s = Some s'"
  shows "bfs_inv quote adj pools tokenIn tokenOut amountIn hop layer s'
    \<and> (\<exists>ms. b_nodes s' = b_nodes s @ ms)"
proof -
  let ?ok = "bfs_node_ok quote adj pools tokenIn tokenOut amountIn"
  obtain steps where st: "?ok (b_nodes s) p steps" "length steps = hop"
    using inv p by (auto simp: bfs_inv_def Let_def)
  have pl: "p < length (b_nodes s)" using st(1) by (rule bfs_node_ok_index)
  have par: "0 \<le> n_parent (b_nodes s ! p) \<longleftrightarrow> steps \<noteq> []" using st(1) by (rule bfs_node_ok_parent)
  define s1 where "s1 = s\<lparr>b_quotes := b_quotes s + 1\<rparr>"
  define out where "out = quote (p_address (pools ! unat (pe_idx e))) (n_amount (b_nodes s ! p)) (pe_in e) (pe_out e)"
  define node where "node = \<lparr>n_amount = out, n_parent = int p, n_pool = pe_idx e, n_in = pe_in e, n_token = pe_out e\<rparr>"
  have inv1: "bfs_inv quote adj pools tokenIn tokenOut amountIn hop layer s1"
    using inv by (simp add: bfs_inv_def s1_def Let_def)
  have new: "?ok (b_nodes s @ [node]) (length (b_nodes s)) (steps @ [hop_step pools (b_nodes s @ [node]) (length (b_nodes s))])"
    if "out \<noteq> 0" "\<not> (0 \<le> n_parent (b_nodes s ! p) \<and> pe_idx e = n_pool (b_nodes s ! p))"
      "tokenIn = tokenOut \<or> pe_out e \<noteq> tokenIn" "unat (pe_idx e) < length pools"
    by (rule bfs_node_ok.hop [where p = p and e = e])
      (use that pl par e bfs_node_ok_append [OF st(1)] in \<open>auto simp: nth_append node_def out_def\<close>)
  consider (skip) "s' = s" | (zero) "s' = s1"
    | (cand) "out \<noteq> 0" "\<not> (0 \<le> n_parent (b_nodes s ! p) \<and> pe_idx e = n_pool (b_nodes s ! p))"
      "tokenIn = tokenOut \<or> pe_out e \<noteq> tokenIn" "unat (pe_idx e) < length pools" "pe_out e = tokenOut"
      "s' = (bfs_push node s1)\<lparr>b_cands := b_cands s @ [length (b_nodes s)]\<rparr>"
    | (offer) "out \<noteq> 0" "\<not> (0 \<le> n_parent (b_nodes s ! p) \<and> pe_idx e = n_pool (b_nodes s ! p))"
      "tokenIn = tokenOut \<or> pe_out e \<noteq> tokenIn" "unat (pe_idx e) < length pools" "s' = bfs_offer node s1"
    using step by (auto simp: bfs_edge_def Let_def out_def node_def s1_def not_le split: if_splits)
  then show ?thesis
  proof cases
    case skip then show ?thesis using inv by simp
  next
    case zero then show ?thesis using inv1 by (simp add: s1_def)
  next
    case cand
    have "bfs_inv quote adj pools tokenIn tokenOut amountIn hop layer (bfs_push node s1)"
      using inv1 by (rule bfs_inv_push)
    moreover have "\<exists>steps. ?ok (b_nodes s @ [node]) (length (b_nodes s)) steps \<and> steps \<noteq> [] \<and> length steps \<le> hop + 1"
      using new [OF cand(1-4)] st(2) by (intro exI [of _ "steps @ [hop_step pools (b_nodes s @ [node]) (length (b_nodes s))]"]) simp
    ultimately show ?thesis
      using cand(5,6) by (auto simp: bfs_inv_def cands_ok_def bfs_push_def Let_def s1_def node_def nth_append)
  next
    case offer
    have "bfs_inv quote adj pools tokenIn tokenOut amountIn hop layer (bfs_offer node s1)"
      by (rule bfs_inv_offer [OF inv1, where steps = "steps @ [hop_step pools (b_nodes s @ [node]) (length (b_nodes s))]"])
        (use new [OF offer(1-4)] st(2) in \<open>simp_all add: s1_def\<close>)
    then show ?thesis using offer(5) by (auto simp: bfs_offer_def bfs_push_def Let_def s1_def)
  qed
qed


lemma bfs_inv_parent:
  assumes "bfs_inv quote adj pools tokenIn tokenOut amountIn hop layer s" and "p \<in> set layer"
    and "bfs_parent quote adj pools tokenIn tokenOut hop p s = Some s'"
  shows "bfs_inv quote adj pools tokenIn tokenOut amountIn hop layer s'"
proof -
  have pl: "p < length (b_nodes s)"
    using assms(1,2) bfs_node_ok_index by (fastforce simp: bfs_inv_def Let_def)
  have "bfs_inv quote adj pools tokenIn tokenOut amountIn hop layer s' \<and> (\<exists>ms. b_nodes s' = b_nodes s @ ms)"
    using assms(3) unfolding bfs_parent_def
  proof (rule foldo_inv)
    fix e u u'
    assume e: "e \<in> set (adj (n_token (b_nodes s ! p)))"
      and u: "bfs_inv quote adj pools tokenIn tokenOut amountIn hop layer u \<and> (\<exists>ms. b_nodes u = b_nodes s @ ms)"
      and step: "bfs_edge quote pools tokenIn tokenOut hop p e u = Some u'"
    have "n_token (b_nodes u ! p) = n_token (b_nodes s ! p)" using u pl by (auto simp: nth_append)
    then show "bfs_inv quote adj pools tokenIn tokenOut amountIn hop layer u' \<and> (\<exists>ms. b_nodes u' = b_nodes s @ ms)"
      using bfs_inv_edge [OF _ assms(2) _ step] e u by fastforce
  qed (use assms(1) in simp)
  then show ?thesis by simp
qed

lemma cands_ok_mono: "cands_ok ok nodes k t cs \<Longrightarrow> k \<le> k' \<Longrightarrow> cands_ok ok nodes k' t cs"
  unfolding cands_ok_def by fastforce

definition layer_ok ::
  "quoter \<Rightarrow> (address \<Rightarrow> pool_edge list) \<Rightarrow> pool list \<Rightarrow> address \<Rightarrow> address \<Rightarrow> u256 \<Rightarrow> nat \<Rightarrow> nat list \<Rightarrow> bfs_state \<Rightarrow> bool" where
  "layer_ok quote adj pools tokenIn tokenOut amountIn hop layer s =
     (let ok = bfs_node_ok quote adj pools tokenIn tokenOut amountIn (b_nodes s)
      in (\<forall>i\<in>set layer. \<exists>steps. ok i steps \<and> length steps = hop)
         \<and> cands_ok ok (b_nodes s) hop tokenOut (b_cands s))"

lemma layer_ok_next:
  assumes "layer_ok quote adj pools tokenIn tokenOut amountIn hop layer s"
    and "foldo (bfs_parent quote adj pools tokenIn tokenOut hop) layer (s\<lparr>b_best := []\<rparr>) = Some s1"
    and "s2 = bfs_collect tokenIn tokenOut s1"
  shows "layer_ok quote adj pools tokenIn tokenOut amountIn (hop + 1) (bfs_frontier ord tokenOut s2) s2"
proof -
  let ?ok = "bfs_node_ok quote adj pools tokenIn tokenOut amountIn (b_nodes s1)"
  have "bfs_inv quote adj pools tokenIn tokenOut amountIn hop layer s1"
    using assms(2)
  proof (rule foldo_inv)
    show "bfs_inv quote adj pools tokenIn tokenOut amountIn hop layer (s\<lparr>b_best := []\<rparr>)"
      using assms(1) cands_ok_mono [of _ _ hop _ _ "hop + 1"]
      by (simp add: layer_ok_def bfs_inv_def best_ok_def Let_def)
  qed (rule bfs_inv_parent)
  then have best: "best_ok ?ok (b_nodes s1) (hop + 1) (b_best s1)"
    and cands: "cands_ok ?ok (b_nodes s1) (hop + 1) tokenOut (b_cands s1)"
    by (simp_all add: bfs_inv_def Let_def)
  have of: "n_token (b_nodes s1 ! i) = tok \<and> (\<exists>steps. ?ok i steps \<and> length steps = hop + 1)"
    if "i \<in> snd ` set (best_of s1 tok)" for i tok
    using that best_ok_of(2) [OF best] by force
  have s2: "b_nodes s2 = b_nodes s1" "b_best s2 = b_best s1" by (simp_all add: assms(3) bfs_collect_def)
  have b2: "best_of s2 = best_of s1" by (simp add: fun_eq_iff best_of_def s2)
  have "cands_ok ?ok (b_nodes s1) (hop + 1) tokenOut (map snd (best_of s1 tokenOut))"
    using of [of _ tokenOut] unfolding cands_ok_def by fastforce
  then have "cands_ok ?ok (b_nodes s1) (hop + 1) tokenOut (b_cands s2)"
    using cands by (auto simp: assms(3) bfs_collect_def cands_ok_def)
  moreover have "\<forall>i\<in>set (bfs_frontier ord tokenOut s2). \<exists>steps. ?ok i steps \<and> length steps = hop + 1"
    using of by (auto simp: bfs_frontier_def b2 split: if_splits)
  ultimately show ?thesis by (simp add: layer_ok_def s2)
qed

lemma bfs_layers_ok:
  "bfs_layers quote adj pools tokenIn tokenOut order hop n layer s = Some s'
    \<Longrightarrow> layer_ok quote adj pools tokenIn tokenOut amountIn hop layer s
    \<Longrightarrow> cands_ok (bfs_node_ok quote adj pools tokenIn tokenOut amountIn (b_nodes s')) (b_nodes s') (hop + n) tokenOut (b_cands s')"
proof (induction n arbitrary: hop layer s)
  case 0
  then show ?case by (simp add: layer_ok_def Let_def)
next
  case (Suc n)
  from Suc.prems(1) obtain s1 where
    s1: "foldo (bfs_parent quote adj pools tokenIn tokenOut hop) layer (s\<lparr>b_best := []\<rparr>) = Some s1"
    by (auto simp: bind_eq_Some_conv)
  define s2 where "s2 = bfs_collect tokenIn tokenOut s1"
  define layer' where "layer' = bfs_frontier (order hop) tokenOut s2"
  have ok: "layer_ok quote adj pools tokenIn tokenOut amountIn (hop + 1) layer' s2"
    using layer_ok_next [OF Suc.prems(2) s1 s2_def] by (simp add: layer'_def)
  show ?case
  proof (cases "layer' = []")
    case True
    then have "s' = s2" using Suc.prems(1) s1 by (simp add: s2_def layer'_def Let_def)
    then show ?thesis
      using ok cands_ok_mono [of _ _ "hop + 1" _ _ "hop + Suc n"] by (simp add: layer_ok_def Let_def)
  next
    case False
    then have "bfs_layers quote adj pools tokenIn tokenOut order (hop + 1) n layer' s2 = Some s'"
      using Suc.prems(1) s1 by (simp add: s2_def layer'_def Let_def)
    from Suc.IH [OF this ok] show ?thesis by simp
  qed
qed

lemma layer_ok_init: "layer_ok quote adj pools tokenIn tokenOut amountIn 0 [0] (bfs_init tokenIn amountIn)"
  by (simp add: layer_ok_def cands_ok_def Let_def bfs_init_def) (intro bfs_node_ok.root; simp add: bfs_init_def)

subsection \<open>The sort\<close>

lemma mset_sift: "j < length c \<Longrightarrow> mset (sift f c j) = mset c \<and> length (sift f c j) = length c"
proof (induction f c j rule: sift.induct)
  case (2 f c j)
  then show ?case by (simp add: mset_swap)
qed simp

lemma sift_sorts:
  "sorted_wrt (\<lambda>a b. f b \<le> f a) xs
    \<Longrightarrow> \<exists>zs. sift f (xs @ y # ys) (length xs) = zs @ ys \<and> sorted_wrt (\<lambda>a b. f b \<le> f a) zs
          \<and> length zs = Suc (length xs) \<and> mset zs = add_mset y (mset xs)"
proof (induction xs arbitrary: ys rule: rev_induct)
  case (snoc x xs)
  show ?case
  proof (cases "f x < f y")
    case True
    have "(xs @ x # y # ys)[length xs := y, Suc (length xs) := x] = xs @ y # x # ys" by (simp add: list_update_append)
    moreover have "sorted_wrt (\<lambda>a b. f b \<le> f a) xs" using snoc.prems by (simp add: sorted_wrt_append)
    then obtain zs where zs: "sift f (xs @ y # x # ys) (length xs) = zs @ x # ys" "sorted_wrt (\<lambda>a b. f b \<le> f a) zs"
      "length zs = Suc (length xs)" "mset zs = add_mset y (mset xs)"
      using snoc.IH [of "x # ys"] by auto
    have "f x \<le> f z" if "z \<in> set zs" for z
    proof -
      have "set zs = insert y (set xs)" using zs(4) by (metis set_mset_add_mset_insert set_mset_mset)
      then show ?thesis using that True snoc.prems by (auto simp: sorted_wrt_append)
    qed
    then have "sorted_wrt (\<lambda>a b. f b \<le> f a) (zs @ [x])" using zs(2) by (simp add: sorted_wrt_append)
    moreover have "sift f ((xs @ [x]) @ y # ys) (length (xs @ [x])) = (zs @ [x]) @ ys"
      using True zs(1) calculation(1) by (simp add: nth_append)
    ultimately show ?thesis using zs(3,4) by (intro exI [of _ "zs @ [x]"]) simp
  next
    case False
    then have "f y \<le> f z" if "z \<in> set (xs @ [x])" for z
      using that snoc.prems by (auto simp: sorted_wrt_append not_less intro: order_trans)
    then have "sorted_wrt (\<lambda>a b. f b \<le> f a) (xs @ [x, y])"
      using snoc.prems by (auto simp: sorted_wrt_append)
    then show ?thesis using False by (intro exI [of _ "xs @ [x, y]"]) (simp add: nth_append)
  qed
qed simp

lemma sort_cands_prefix:
  "k \<le> length c \<Longrightarrow> 0 < k
    \<Longrightarrow> \<exists>zs. fold (\<lambda>i c. sift f c i) [1..<k] c = zs @ drop k c \<and> sorted_wrt (\<lambda>a b. f b \<le> f a) zs
          \<and> length zs = k \<and> mset zs = mset (take k c)"
proof (induction k)
  case (Suc k)
  show ?case
  proof (cases "k = 0")
    case True
    then show ?thesis using Suc.prems by (intro exI [of _ "take 1 c"]) (cases c; simp)
  next
    case False
    then obtain zs where zs: "fold (\<lambda>i c. sift f c i) [1..<k] c = zs @ drop k c"
      "sorted_wrt (\<lambda>a b. f b \<le> f a) zs" "length zs = k" "mset zs = mset (take k c)"
      using Suc by auto
    have d: "drop k c = c ! k # drop (Suc k) c" using Suc.prems by (simp add: Cons_nth_drop_Suc)
    obtain ws where "sift f (zs @ c ! k # drop (Suc k) c) k = ws @ drop (Suc k) c"
      "sorted_wrt (\<lambda>a b. f b \<le> f a) ws" "length ws = Suc k" "mset ws = add_mset (c ! k) (mset zs)"
      using sift_sorts [OF zs(2), of "c ! k" "drop (Suc k) c"] zs(3) by auto
    then show ?thesis
      using False zs d Suc.prems
      by (intro exI [of _ ws]) (simp add: take_Suc_conv_app_nth)
  qed
qed simp

lemma sort_cands_correct:
  "mset (sort_cands f c) = mset c \<and> sorted_wrt (\<lambda>a b. f b \<le> f a) (sort_cands f c)"
proof (cases "c = []")
  case False
  then show ?thesis using sort_cands_prefix [of "length c" c f] by (auto simp: sort_cands_def)
qed (simp add: sort_cands_def)


subsection \<open>The routes that are returned\<close>

lemma subseq_sorted_wrt: "subseq xs ys \<Longrightarrow> sorted_wrt R ys \<Longrightarrow> sorted_wrt R xs"
proof (induction rule: list_emb.induct)
  case (list_emb_Cons2 x y xs ys)
  moreover have "set xs \<subseteq> set ys" using list_emb_Cons2(2) by (auto dest: list_emb_set)
  ultimately show ?case by auto
qed simp_all

lemma be_int_bounds: "0 \<le> be_int bs \<and> be_int bs < 256 ^ length bs"
proof (induction bs rule: rev_induct)
  case (snoc b bs)
  then show ?case using uint_bounded [of b] by simp
qed (simp add: be_int_def)

text \<open>A route that was built from a candidate and accepted on the EVM.\<close>

definition route_of ::
  "(string \<Rightarrow> address) \<Rightarrow> (byte list \<Rightarrow> (byte list \<times> nat) option) \<Rightarrow> pool list \<Rightarrow> bfs_node list \<Rightarrow> u256 \<Rightarrow> nat \<Rightarrow> route \<Rightarrow> bool" where
  "route_of hex evm pools nodes amountIn c r =
     (backtrack pools nodes c = Some (r_steps r) \<and> swap_calldata hex amountIn (r_steps r) = Some (r_data r)
      \<and> evm_amount (evm (r_data r)) = Some (r_out r, r_gas r))"

lemma verify_loop_spec:
  "verify_loop hex evm pools nodes amountIn limit quotes k cs acc = Some rs
    \<Longrightarrow> \<exists>ds news. rs = acc @ news \<and> subseq ds cs \<and> list_all2 (route_of hex evm pools nodes amountIn) ds news"
proof (induction cs arbitrary: k acc)
  case Nil
  then show ?case by (intro exI [of _ "[]"]) simp
next
  case (Cons c cs)
  then obtain steps data where sd: "backtrack pools nodes c = Some steps" "swap_calldata hex amountIn steps = Some data"
    by (auto simp: bind_eq_Some_conv)
  show ?case
  proof (cases "evm_amount (evm data)")
    case None
    then obtain ds news where "rs = acc @ news" "subseq ds cs" "list_all2 (route_of hex evm pools nodes amountIn) ds news"
      using Cons.prems Cons.IH [of "k + 1" acc] sd by (auto simp: Let_def)
    then show ?thesis by (intro exI [of _ ds] exI [of _ news]) auto
  next
    case (Some vg)
    obtain v gas where vg: "vg = (v, gas)" by force
    define r where "r = \<lparr>r_steps = steps, r_out = v, r_gas = gas, r_data = data,
                    r_stats = \<lparr>st_formula = quotes, st_evm = k + 1, st_total = quotes + (k + 1)\<rparr>\<rparr>"
    have r: "route_of hex evm pools nodes amountIn c r" using sd Some vg by (simp add: route_of_def r_def)
    have step: "rs = acc @ [r] \<or> verify_loop hex evm pools nodes amountIn limit quotes (k + 1) cs (acc @ [r]) = Some rs"
      using Cons.prems sd Some vg by (auto simp: Let_def r_def split: if_splits)
    then show ?thesis
    proof
      assume "rs = acc @ [r]"
      then show ?thesis using r by (intro exI [of _ "[c]"] exI [of _ "[r]"]) simp
    next
      assume "verify_loop hex evm pools nodes amountIn limit quotes (k + 1) cs (acc @ [r]) = Some rs"
      from Cons.IH [OF this] obtain ds news where "rs = acc @ [r] @ news" "subseq ds cs"
        "list_all2 (route_of hex evm pools nodes amountIn) ds news" by auto
      then show ?thesis using r by (intro exI [of _ "c # ds"] exI [of _ "r # news"]) simp
    qed
  qed
qed

lemma verify_loop_limit:
  "verify_loop hex evm pools nodes amountIn limit quotes k cs acc = Some rs \<Longrightarrow> length acc < limit \<Longrightarrow> length rs \<le> limit"
proof (induction cs arbitrary: k acc)
  case (Cons c cs)
  then show ?case
    by (fastforce simp: bind_eq_Some_conv Let_def split: option.splits prod.splits if_splits)
qed simp

lemma evm_amount_pos:
  assumes "evm_amount res = Some (v, gas)"
  shows "0 < uint v \<and> uint v < 2 ^ 255"
proof -
  obtain ret where res: "res = Some (ret, gas)" and l: "32 \<le> length ret" and b: "ret ! 0 AND 0x80 = 0"
    and v: "v = be_word (take 32 ret)" "v \<noteq> 0"
    using assms by (auto simp: evm_amount_def Let_def split: option.splits if_splits)
  obtain x xs where x: "take 32 ret = x # xs" "length xs = 31" "x = ret ! 0"
    using l by (cases ret) auto
  have "\<not> bit x 7"
  proof
    assume "bit x 7"
    then have "bit (x AND 0x80) 7" by (simp add: bit_and_iff bit_numeral_word_iff)
    then show False using b x(3) by simp
  qed
  then have n: "n < 7" if "n < 8" "bit x n" for n
    using that by (cases "n = 7") auto
  have "take_bit 7 x = x"
    by (intro bit_word_eqI) (auto simp: bit_take_bit_iff dest: n)
  then have "uint x = take_bit 7 (uint x)" by (metis unsigned_take_bit_eq)
  then have "uint x < 2 ^ 7" by (metis take_bit_int_less_exp)
  moreover have "be_int (x # xs) = uint x * 256 ^ 31 + be_int xs" and "0 \<le> be_int xs" "be_int xs < 256 ^ 31"
    using x(2) be_int_Cons [of x xs] be_int_bounds [of xs] by simp_all
  ultimately have bd: "be_int (x # xs) < 2 ^ 255" "0 \<le> be_int (x # xs)" by simp_all
  then have "uint v = be_int (x # xs)" by (simp add: v be_word_def x(1) unsigned_of_int take_bit_eq_mod)
  then show ?thesis using bd v(2) uint_pos_iff [of v] by simp
qed

definition hops_of :: "int \<Rightarrow> nat" where
  "hops_of maxHops = (if maxHops \<le> 0 \<or> 4 < maxHops then 4 else nat maxHops)"

lemma FindTopRoutes_cands:
  assumes "FindTopRoutes quote adj pools hex evm order tokenIn tokenOut amountIn maxHops limit = Some rs"
    and "amountIn \<noteq> 0"
  obtains s :: bfs_state and cs ds where
    "cands_ok (bfs_node_ok quote adj pools tokenIn tokenOut amountIn (b_nodes s)) (b_nodes s) (hops_of maxHops) tokenOut (b_cands s)"
    and "mset cs = mset (b_cands s)"
    and "sorted_wrt (\<lambda>c d. n_amount (b_nodes s ! d) \<le> n_amount (b_nodes s ! c)) cs"
    and "subseq ds (take 5 cs)" and "list_all2 (route_of hex evm pools (b_nodes s) amountIn) ds rs"
    and "length rs \<le> (if limit \<le> 0 then 1 else nat limit)"
proof -
  define h where "h = hops_of maxHops"
  obtain s where s: "bfs_layers quote adj pools tokenIn tokenOut order 0 h [0] (bfs_init tokenIn amountIn) = Some s"
    and v: "verify_loop hex evm pools (b_nodes s) amountIn (if limit \<le> 0 then 1 else nat limit) (b_quotes s) 0
              (take 5 (sort_cands (\<lambda>c. n_amount (b_nodes s ! c)) (b_cands s))) [] = Some rs"
    using assms by (auto simp: FindTopRoutes_def h_def hops_of_def Let_def bind_eq_Some_conv)
  obtain ds where "subseq ds (take 5 (sort_cands (\<lambda>c. n_amount (b_nodes s ! c)) (b_cands s)))"
    "list_all2 (route_of hex evm pools (b_nodes s) amountIn) ds rs"
    using verify_loop_spec [OF v] by auto
  moreover have "length rs \<le> (if limit \<le> 0 then 1 else nat limit)"
    by (rule verify_loop_limit [OF v]) simp
  ultimately show thesis
    using that [of s "sort_cands (\<lambda>c. n_amount (b_nodes s ! c)) (b_cands s)" ds]
      bfs_layers_ok [OF s layer_ok_init] sort_cands_correct [of "\<lambda>c. n_amount (b_nodes s ! c)" "b_cands s"]
    by (simp add: h_def)
qed

lemma FindTopRoutes_zero: "FindTopRoutes quote adj pools hex evm order tokenIn tokenOut 0 maxHops limit = Some []"
  by (simp add: FindTopRoutes_def)

lemma FindTopRoutes_node:
  assumes "FindTopRoutes quote adj pools hex evm order tokenIn tokenOut amountIn maxHops limit = Some rs" and "r \<in> set rs"
  obtains nodes c where "bfs_node_ok quote adj pools tokenIn tokenOut amountIn nodes c (r_steps r)"
    and "n_token (nodes ! c) = tokenOut" and "r_steps r \<noteq> []" and "length (r_steps r) \<le> hops_of maxHops"
    and "route_of hex evm pools nodes amountIn c r" and "amountIn \<noteq> 0"
proof -
  have a: "amountIn \<noteq> 0" using assms FindTopRoutes_zero by fastforce
  obtain s :: bfs_state and cs ds where s: "cands_ok (bfs_node_ok quote adj pools tokenIn tokenOut amountIn (b_nodes s)) (b_nodes s) (hops_of maxHops) tokenOut (b_cands s)"
    "mset cs = mset (b_cands s)" "subseq ds (take 5 cs)" "list_all2 (route_of hex evm pools (b_nodes s) amountIn) ds rs"
    using FindTopRoutes_cands [OF assms(1) a] by metis
  obtain c where c: "c \<in> set ds" "route_of hex evm pools (b_nodes s) amountIn c r"
    using s(4) assms(2) by (metis in_set_conv_nth list_all2_conv_all_nth)
  have "c \<in> set (take 5 cs)" using c(1) s(3) by (auto dest: list_emb_set)
  then have "c \<in> set (b_cands s)" using s(2) by (metis in_set_takeD set_mset_mset)
  then obtain steps where "bfs_node_ok quote adj pools tokenIn tokenOut amountIn (b_nodes s) c steps" "steps \<noteq> []"
    "length steps \<le> hops_of maxHops" "n_token (b_nodes s ! c) = tokenOut"
    using s(1) by (auto simp: cands_ok_def)
  moreover have "r_steps r = steps" using backtrack_node [OF calculation(1)] c(2) by (simp add: route_of_def)
  ultimately show thesis using that c(2) a by blast
qed

lemma FindTopRoutes_order:
  assumes "FindTopRoutes quote adj pools hex evm order tokenIn tokenOut amountIn maxHops limit = Some rs" and "adj_wf adj"
  shows "sorted_wrt (\<lambda>r r'. QuotePath quote (r_steps r') amountIn \<le> QuotePath quote (r_steps r) amountIn) rs"
proof (cases "amountIn = 0")
  case False
  obtain s :: bfs_state and cs ds where s: "cands_ok (bfs_node_ok quote adj pools tokenIn tokenOut amountIn (b_nodes s)) (b_nodes s) (hops_of maxHops) tokenOut (b_cands s)"
    "mset cs = mset (b_cands s)" "subseq ds (take 5 cs)" "list_all2 (route_of hex evm pools (b_nodes s) amountIn) ds rs"
    "sorted_wrt (\<lambda>c d. n_amount (b_nodes s ! d) \<le> n_amount (b_nodes s ! c)) cs"
    using FindTopRoutes_cands [OF assms(1) False] by metis
  have sub: "subseq ds cs" using s(3) by (meson prefix_imp_subseq subseq_order.trans take_is_prefix)
  have am: "n_amount (b_nodes s ! c) = QuotePath quote (r_steps r) amountIn"
    if "c \<in> set ds" "route_of hex evm pools (b_nodes s) amountIn c r" for c r
  proof -
    have "set ds \<subseteq> set cs" using sub by (auto dest: list_emb_set)
    then have "c \<in> set (b_cands s)" using that(1) mset_eq_setD [OF s(2)] by blast
    then obtain steps where n: "bfs_node_ok quote adj pools tokenIn tokenOut amountIn (b_nodes s) c steps"
      using s(1) by (auto simp: cands_ok_def)
    then have "r_steps r = steps" using backtrack_node [OF n] that(2) by (simp add: route_of_def)
    then show ?thesis using bfs_node_ok_amount [OF n assms(2) False] by simp
  qed
  have "sorted_wrt (\<lambda>c d. n_amount (b_nodes s ! d) \<le> n_amount (b_nodes s ! c)) ds"
    using sub s(5) by (rule subseq_sorted_wrt)
  moreover have len: "length ds = length rs" using s(4) by (rule list_all2_lengthD)
  moreover have "n_amount (b_nodes s ! (ds ! i)) = QuotePath quote (r_steps (rs ! i)) amountIn" if "i < length rs" for i
    using am [of "ds ! i" "rs ! i"] that len list_all2_nthD2 [OF s(4) that] by simp
  ultimately show ?thesis by (simp add: sorted_wrt_iff_nth_less)
qed (use assms in \<open>simp add: FindTopRoutes_zero\<close>)


subsection \<open>The search does not panic\<close>

definition adj_in :: "pool list \<Rightarrow> (address \<Rightarrow> pool_edge list) \<Rightarrow> bool" where
  "adj_in pools adj = (\<forall>t. \<forall>e\<in>set (adj t). unat (pe_idx e) < length pools)"

lemma bfs_parent_total: "adj_in pools adj \<Longrightarrow> bfs_parent quote adj pools tokenIn tokenOut hop p s \<noteq> None"
  using foldo_total [of "\<lambda>_. True" s "adj (n_token (b_nodes s ! p))" "bfs_edge quote pools tokenIn tokenOut hop p"]
  by (fastforce simp: bfs_parent_def adj_in_def bfs_edge_def Let_def not_le [symmetric])

lemma bfs_layers_total:
  "adj_in pools adj \<Longrightarrow> bfs_layers quote adj pools tokenIn tokenOut order hop n layer s \<noteq> None"
proof (induction n arbitrary: hop layer s)
  case (Suc n)
  have "\<exists>s1. foldo (bfs_parent quote adj pools tokenIn tokenOut hop) layer (s\<lparr>b_best := []\<rparr>) = Some s1 \<and> True"
    using bfs_parent_total [OF Suc.prems, of quote tokenIn tokenOut hop] by (intro foldo_total) auto
  then show ?case using Suc by (auto simp: Let_def)
qed simp

lemma encode_extras_total:
  "i + length exs \<le> length types \<Longrightarrow> i + length exs \<le> length encs \<Longrightarrow> \<forall>ex\<in>set exs. encodeV4ExtraData hex ex \<noteq> None
    \<Longrightarrow> encode_extras hex types i exs (addrs, encs) \<noteq> None"
proof (induction exs arbitrary: i addrs encs)
  case (Cons ex exs)
  obtain e where "encodeV4ExtraData hex ex = Some e" using Cons.prems(3) by auto
  then show ?case using Cons.prems Cons.IH [of "i + 1"] by simp
qed simp

lemma swap_calldata_total:
  assumes "steps \<noteq> []" and "\<forall>s\<in>set steps. encodeV4ExtraData hex (rs_extra s) \<noteq> None"
  shows "swap_calldata hex amountIn steps \<noteq> None"
proof -
  have "encode_extras hex (map rs_type steps) 0 (map rs_extra steps)
      (map rs_pool steps, replicate (length (map rs_pool steps)) []) \<noteq> None"
    using assms(2) by (intro encode_extras_total) simp_all
  then obtain addrs encs where "encode_extras hex (map rs_type steps) 0 (map rs_extra steps)
      (map rs_pool steps, replicate (length (map rs_pool steps)) []) = Some (addrs, encs)" by auto
  from encodeSwapMultiInner_abi [OF _ _ _ this, of swapSelector] assms(1)
  show ?thesis by (simp add: swap_calldata_def EncodeSwapMulti_def swapSelector_def)
qed

lemma verify_loop_total:
  "(\<And>c. c \<in> set cs \<Longrightarrow> \<exists>steps. backtrack pools nodes c = Some steps \<and> swap_calldata hex amountIn steps \<noteq> None)
    \<Longrightarrow> verify_loop hex evm pools nodes amountIn limit quotes k cs acc \<noteq> None"
proof (induction cs arbitrary: k acc)
  case (Cons c cs)
  obtain steps data where "backtrack pools nodes c = Some steps" "swap_calldata hex amountIn steps = Some data"
    using Cons.prems [of c] by auto
  then show ?case using Cons.IH Cons.prems by (auto simp: Let_def split: option.split)
qed simp

lemma FindTopRoutes_total:
  assumes "adj_in pools adj" and "\<forall>p\<in>set pools. encodeV4ExtraData hex (p_extra p) \<noteq> None"
  shows "FindTopRoutes quote adj pools hex evm order tokenIn tokenOut amountIn maxHops limit \<noteq> None"
proof (cases "amountIn = 0")
  case False
  define h where "h = hops_of maxHops"
  obtain s where s: "bfs_layers quote adj pools tokenIn tokenOut order 0 h [0] (bfs_init tokenIn amountIn) = Some s"
    using bfs_layers_total [OF assms(1)] by (meson option.exhaust)
  have cs: "cands_ok (bfs_node_ok quote adj pools tokenIn tokenOut amountIn (b_nodes s)) (b_nodes s) h tokenOut (b_cands s)"
    using bfs_layers_ok [OF s layer_ok_init] by simp
  have "\<exists>steps. backtrack pools (b_nodes s) c = Some steps \<and> swap_calldata hex amountIn steps \<noteq> None"
    if "c \<in> set (take 5 (sort_cands (\<lambda>c. n_amount (b_nodes s ! c)) (b_cands s)))" for c
  proof -
    have "c \<in> set (b_cands s)"
      using in_set_takeD [OF that] sort_cands_correct [of _ "b_cands s"] by (metis set_mset_mset)
    then obtain steps where n: "bfs_node_ok quote adj pools tokenIn tokenOut amountIn (b_nodes s) c steps" "steps \<noteq> []"
      using cs by (auto simp: cands_ok_def)
    have "\<forall>s\<in>set steps. encodeV4ExtraData hex (rs_extra s) \<noteq> None"
      using bfs_node_ok_edges [OF n(1)] assms(2) by (fastforce simp: step_of_edge_def Let_def)
    then show ?thesis using backtrack_node [OF n(1)] swap_calldata_total [OF n(2)] by blast
  qed
  from verify_loop_total [OF this] show ?thesis
    using False s by (simp add: FindTopRoutes_def h_def hops_of_def Let_def)
qed (simp add: FindTopRoutes_zero)

subsection \<open>The beam keeps the best\<close>

definition has_best :: "address \<Rightarrow> u256 \<Rightarrow> bfs_state \<Rightarrow> bool" where
  "has_best tok a s = (\<exists>(b, i)\<in>set (best_of s tok). a \<le> b)"

lemma best_of_update:
  "best_of (s\<lparr>b_nodes := ns, b_best := AList.update k v (b_best s)\<rparr>) tok = (if tok = k then v else best_of s tok)"
  by (simp add: best_of_def update_conv')

lemma has_best_offer:
  "has_best (n_token node) (n_amount node) (bfs_offer node s)"
  "has_best tok a s \<Longrightarrow> has_best tok a (bfs_offer node s)"
proof -
  let ?es = "best_of s (n_token node)" and ?new = "(n_amount node, length (b_nodes s))"
  have push: "bfs_push node s\<lparr>b_best := x\<rparr> = s\<lparr>b_nodes := b_nodes s @ [node], b_best := x\<rparr>" for x
    by (simp add: bfs_push_def)
  have w: "worst_idx ?es < length ?es" if "\<not> length ?es < topK"
    using that by (intro worst_idx_bound) (auto simp: topK_def)
  show "has_best (n_token node) (n_amount node) (bfs_offer node s)"
  proof (cases "length ?es < topK \<or> fst (?es ! worst_idx ?es) < n_amount node")
    case True
    then show ?thesis
      using w by (auto simp: has_best_def bfs_offer_def Let_def push best_of_update
        intro!: bexI [of _ ?new] set_update_memI)
  next
    case False
    then have "?es ! worst_idx ?es \<in> set ?es" using w by simp
    then show ?thesis
      using False by (auto simp: has_best_def bfs_offer_def Let_def not_less split_def intro!: bexI [of _ "?es ! worst_idx ?es"])
  qed
  assume h: "has_best tok a s"
  then obtain b i where bi: "(b, i) \<in> set (best_of s tok)" "a \<le> b" by (auto simp: has_best_def)
  show "has_best tok a (bfs_offer node s)"
  proof (cases "tok = n_token node \<and> \<not> length ?es < topK \<and> fst (?es ! worst_idx ?es) < n_amount node")
    case True
    then have wl: "worst_idx ?es < length ?es" using w by simp
    obtain k where k: "k < length ?es" "?es ! k = (b, i)" using bi True by (metis in_set_conv_nth)
    show ?thesis
    proof (cases "k = worst_idx ?es")
      case eq: True
      then have "a \<le> n_amount node" using True k bi(2) by (metis fst_conv less_imp_le order_trans)
      then show ?thesis
        using True wl by (auto simp: has_best_def bfs_offer_def Let_def push best_of_update intro!: bexI [of _ ?new] set_update_memI)
    next
      case ne: False
      then have "?es[worst_idx ?es := ?new] ! k = (b, i)" using k by simp
      then have "(b, i) \<in> set (?es[worst_idx ?es := ?new])" using k(1) by (metis length_list_update nth_mem)
      then show ?thesis
        using True bi(2) by (auto simp: has_best_def bfs_offer_def Let_def push best_of_update intro!: bexI [of _ "(b, i)"])
    qed
  next
    case False
    then show ?thesis
      using bi by (auto simp: has_best_def bfs_offer_def Let_def push best_of_update intro!: bexI [of _ "(b, i)"])
  qed
qed


definition grows :: "bfs_state \<Rightarrow> bfs_state \<Rightarrow> bool" where
  "grows s s' = (\<exists>ms cs. b_nodes s' = b_nodes s @ ms \<and> b_cands s' = b_cands s @ cs)"

lemma grows_trans: "grows s s' \<Longrightarrow> grows s' s'' \<Longrightarrow> grows s s''"
  unfolding grows_def by force

lemma grows_edge: "bfs_edge quote pools tokenIn tokenOut hop p e s = Some s' \<Longrightarrow> grows s s'"
  unfolding grows_def bfs_edge_def Let_def
  by (auto simp: bfs_push_def bfs_offer_def Let_def split: if_splits)

lemma grows_fold:
  assumes "foldo f xs s = Some s'" and "\<And>x u u'. f x u = Some u' \<Longrightarrow> grows u u'"
  shows "grows s s'"
  using assms(1)
proof (rule foldo_inv)
  show "grows s s" by (simp add: grows_def)
  show "grows s u \<Longrightarrow> f x u = Some u' \<Longrightarrow> grows s u'" for x u u'
    using assms(2) grows_trans by blast
qed

lemma grows_parent: "bfs_parent quote adj pools tokenIn tokenOut hop p s = Some s' \<Longrightarrow> grows s s'"
  unfolding bfs_parent_def by (rule grows_fold) (auto intro: grows_edge)

lemma grows_layer: "foldo (bfs_parent quote adj pools tokenIn tokenOut hop) layer s = Some s' \<Longrightarrow> grows s s'"
  by (rule grows_fold) (auto intro: grows_parent)

lemma grows_layers: "bfs_layers quote adj pools tokenIn tokenOut order hop n layer s = Some s' \<Longrightarrow> grows s s'"
proof (induction n arbitrary: hop layer s)
  case 0
  then show ?case by (simp add: grows_def)
next
  case (Suc n)
  from Suc.prems obtain s1 where
    s1: "foldo (bfs_parent quote adj pools tokenIn tokenOut hop) layer (s\<lparr>b_best := []\<rparr>) = Some s1"
    by (auto simp: bind_eq_Some_conv)
  have "grows s (bfs_collect tokenIn tokenOut s1)"
    using grows_layer [OF s1] by (auto simp: grows_def bfs_collect_def)
  moreover have "grows (bfs_collect tokenIn tokenOut s1) s'"
    using Suc s1 by (auto simp: Let_def grows_def split: if_splits)
  ultimately show ?case by (rule grows_trans)
qed

text \<open>The first layer offers every pool of the token the search starts from.\<close>

lemma has_best_edge:
  assumes "bfs_edge quote pools tokenIn tokenOut hop p e s = Some s'" and "tokenIn \<noteq> tokenOut" and "has_best tok a s"
  shows "has_best tok a s'"
proof -
  have "has_best tok a (s\<lparr>b_quotes := b_quotes s + 1\<rparr>)" using assms(3) by (simp add: has_best_def best_of_def)
  then show ?thesis
    using assms has_best_offer(2) by (auto simp: bfs_edge_def Let_def split: if_splits)
qed

lemma first_layer_direct:
  assumes ne: "tokenIn \<noteq> tokenOut" and e: "e \<in> set (adj tokenIn)" "pe_out e = tokenOut"
    and q: "a = quote (p_address (pools ! unat (pe_idx e))) amountIn (pe_in e) tokenOut" "a \<noteq> 0"
    and run: "bfs_parent quote adj pools tokenIn tokenOut 0 0 ((bfs_init tokenIn amountIn)\<lparr>b_best := []\<rparr>) = Some s'"
  shows "has_best tokenOut a s'"
proof -
  let ?f = "bfs_edge quote pools tokenIn tokenOut 0 0" and ?s = "(bfs_init tokenIn amountIn)\<lparr>b_best := []\<rparr>"
  obtain pre post where split: "adj tokenIn = pre @ e # post" using e(1) by (meson split_list)
  have "n_token (b_nodes ?s ! 0) = tokenIn" by (simp add: bfs_init_def)
  with run split obtain u v where u: "foldo ?f pre ?s = Some u" and v: "?f e u = Some v" and w: "foldo ?f post v = Some s'"
    by (auto simp: bfs_parent_def foldo_append bind_eq_Some_conv)
  have "grows ?s u"
    using u by (rule foldo_inv) (auto simp: grows_def [of ?s ?s] intro: grows_trans grows_edge)
  then have root: "b_nodes u ! 0 = hd (b_nodes (bfs_init tokenIn amountIn))"
    by (auto simp: grows_def bfs_init_def)
  have "has_best tokenOut a v"
    using v root ne e(2) q has_best_offer(1) [of "\<lparr>n_amount = a, n_parent = 0, n_pool = pe_idx e, n_in = pe_in e, n_token = tokenOut\<rparr>"
      "u\<lparr>b_quotes := b_quotes u + 1\<rparr>"]
    by (auto simp: bfs_edge_def Let_def bfs_init_def split: if_splits)
  with w show ?thesis
    by (rule foldo_inv) (rule has_best_edge [OF _ ne])
qed


text \<open>If the EVM accepts every call, the first route is the first candidate.\<close>

lemma verify_loop_head:
  assumes "verify_loop hex evm pools nodes amountIn limit quotes k (c # cs) [] = Some (r # rs)"
    and "\<And>data. evm_amount (evm data) \<noteq> None"
  shows "backtrack pools nodes c = Some (r_steps r)"
proof -
  from assms(1) obtain steps data where sd: "backtrack pools nodes c = Some steps"
    "swap_calldata hex amountIn steps = Some data" by (auto simp: bind_eq_Some_conv)
  obtain v gas where vg: "evm_amount (evm data) = Some (v, gas)" using assms(2) [of data] by auto
  define r0 where "r0 = \<lparr>r_steps = steps, r_out = v, r_gas = gas, r_data = data,
      r_stats = \<lparr>st_formula = quotes, st_evm = k + 1, st_total = quotes + (k + 1)\<rparr>\<rparr>"
  have "r # rs = [r0] \<or> verify_loop hex evm pools nodes amountIn limit quotes (k + 1) cs [r0] = Some (r # rs)"
    using assms(1) sd vg by (auto simp: Let_def r0_def split: if_splits)
  then have "r = r0" using verify_loop_spec [of hex evm pools nodes amountIn limit quotes "k + 1" cs "[r0]"] by auto
  then show ?thesis using sd by (simp add: r0_def)
qed

lemma bfs_direct_cand:
  assumes s: "bfs_layers quote adj pools tokenIn tokenOut order 0 (Suc h) [0] (bfs_init tokenIn amountIn) = Some s"
    and ne: "tokenIn \<noteq> tokenOut" and e: "e \<in> set (adj tokenIn)" "pe_out e = tokenOut"
    and q: "a = quote (p_address (pools ! unat (pe_idx e))) amountIn (pe_in e) tokenOut" "a \<noteq> 0"
  shows "\<exists>i\<in>set (b_cands s). a \<le> n_amount (b_nodes s ! i)"
proof -
  let ?s = "(bfs_init tokenIn amountIn)\<lparr>b_best := []\<rparr>"
  from s obtain s1 where s1: "bfs_parent quote adj pools tokenIn tokenOut 0 0 ?s = Some s1"
    by (auto simp: bind_eq_Some_conv)
  define s2 where "s2 = bfs_collect tokenIn tokenOut s1"
  have "bfs_inv quote adj pools tokenIn tokenOut amountIn 0 [0] ?s"
    using layer_ok_init [of quote adj pools tokenIn tokenOut amountIn] cands_ok_mono [of _ _ 0 _ _ 1]
    by (simp add: layer_ok_def bfs_inv_def best_ok_def Let_def)
  then have "bfs_inv quote adj pools tokenIn tokenOut amountIn 0 [0] s1" by (rule bfs_inv_parent [OF _ _ s1]) simp
  then have best: "best_ok (bfs_node_ok quote adj pools tokenIn tokenOut amountIn (b_nodes s1)) (b_nodes s1) 1 (b_best s1)"
    by (simp add: bfs_inv_def Let_def)
  obtain b i where bi: "(b, i) \<in> set (best_of s1 tokenOut)" "a \<le> b"
    using first_layer_direct [where adj = adj, OF ne e q s1] by (auto simp: has_best_def)
  have n: "n_amount (b_nodes s1 ! i) = b" "i < length (b_nodes s1)"
    using best_ok_of(2) [OF best bi(1)] bfs_node_ok_index by blast+
  have "i \<in> set (b_cands s2)" using bi(1) ne by (force simp: s2_def bfs_collect_def)
  moreover have "b_nodes s2 = b_nodes s1" by (simp add: s2_def bfs_collect_def)
  moreover have "grows s2 s"
    using s s1 by (auto simp: s2_def Let_def intro: grows_layers split: if_splits) (simp add: grows_def)
  ultimately show ?thesis using n bi(2) by (auto simp: grows_def nth_append intro!: bexI [of _ i])
qed

lemma FindTopRoutes_direct:
  assumes run: "FindTopRoutes quote adj pools hex evm order tokenIn tokenOut amountIn maxHops limit = Some (r # rs)"
    and ne: "tokenIn \<noteq> tokenOut" and wf: "adj_wf adj"
    and accept: "\<And>data. evm_amount (evm data) \<noteq> None"
    and e: "e \<in> set (adj tokenIn)" "pe_out e = tokenOut"
  shows "quote (p_address (pools ! unat (pe_idx e))) amountIn (pe_in e) tokenOut \<le> QuotePath quote (r_steps r) amountIn"
proof -
  define a where "a = quote (p_address (pools ! unat (pe_idx e))) amountIn (pe_in e) tokenOut"
  have am: "amountIn \<noteq> 0" using run FindTopRoutes_zero by fastforce
  obtain h where h: "hops_of maxHops = Suc h"
    by (cases "hops_of maxHops") (auto simp: hops_of_def split: if_splits)
  obtain s where s: "bfs_layers quote adj pools tokenIn tokenOut order 0 (Suc h) [0] (bfs_init tokenIn amountIn) = Some s"
    and v: "verify_loop hex evm pools (b_nodes s) amountIn (if limit \<le> 0 then 1 else nat limit) (b_quotes s) 0
              (take 5 (sort_cands (\<lambda>c. n_amount (b_nodes s ! c)) (b_cands s))) [] = Some (r # rs)"
    using run am by (auto simp: FindTopRoutes_def h [symmetric] hops_of_def Let_def bind_eq_Some_conv)
  define cs where "cs = sort_cands (\<lambda>c. n_amount (b_nodes s ! c)) (b_cands s)"
  have cs: "mset cs = mset (b_cands s)" "sorted_wrt (\<lambda>c d. n_amount (b_nodes s ! d) \<le> n_amount (b_nodes s ! c)) cs"
    using sort_cands_correct [of "\<lambda>c. n_amount (b_nodes s ! c)" "b_cands s"] by (simp_all add: cs_def)
  obtain c cs' where c: "cs = c # cs'" using v by (cases cs) (simp_all add: cs_def [symmetric])
  have bt: "backtrack pools (b_nodes s) c = Some (r_steps r)"
    using v accept by (intro verify_loop_head [where cs = "take 4 cs'"]) (simp_all add: c flip: cs_def)
  have "cands_ok (bfs_node_ok quote adj pools tokenIn tokenOut amountIn (b_nodes s)) (b_nodes s) (Suc h) tokenOut (b_cands s)"
    using bfs_layers_ok [OF s layer_ok_init] by simp
  moreover have "c \<in> set (b_cands s)" using mset_eq_setD [OF cs(1)] c by auto
  ultimately obtain steps where n: "bfs_node_ok quote adj pools tokenIn tokenOut amountIn (b_nodes s) c steps"
    by (auto simp: cands_ok_def)
  then have "r_steps r = steps" using bt backtrack_node [OF n] by simp
  then have top: "n_amount (b_nodes s ! c) = QuotePath quote (r_steps r) amountIn"
    using bfs_node_ok_amount [OF n wf am] by simp
  show ?thesis
  proof (cases "a = 0")
    case True
    then show ?thesis by (simp add: a_def)
  next
    case False
    obtain i where "i \<in> set cs" "a \<le> n_amount (b_nodes s ! i)"
      using bfs_direct_cand [OF s ne e a_def False] mset_eq_setD [OF cs(1)] by blast
    then have "a \<le> n_amount (b_nodes s ! c)" using cs(2) c by (auto intro: order_trans)
    then show ?thesis by (simp add: a_def top)
  qed
qed

end
