(* ===== verification/Go_Maps.thy ===== *)
theory Go_Maps
  imports Go_Prelude "HOL-Library.Finite_Map"
begin

text \<open>
  Go's finite maps (\<open>fmap\<close>) and the two-level maps \<open>map[Address]map[Hash]V\<close> of the state
  layers: reading, writing (which makes the inner map on demand), deleting (which drops an inner
  map that has become empty), and the \<open>range\<close> loops that copy one map over another, for every
  order in which Go may enumerate the map.  The locale \<open>slot_map\<close> is the interface of a store
  of storage slots.
\<close>

type_synonym ('a, 'k, 'v) nested = "('a, ('k, 'v) fmap) fmap"

definition inner :: "('a, 'k, 'v) nested \<Rightarrow> 'a \<Rightarrow> ('k, 'v) fmap" where
  "inner m a = (case fmlookup m a of None \<Rightarrow> fmempty | Some s \<Rightarrow> s)"

definition nget :: "('a, 'k, 'v) nested \<Rightarrow> 'a \<Rightarrow> 'k \<Rightarrow> 'v option" where
  "nget m a k = (case fmlookup m a of None \<Rightarrow> None | Some slots \<Rightarrow> fmlookup slots k)"

definition nset :: "'a \<Rightarrow> 'k \<Rightarrow> 'v \<Rightarrow> ('a, 'k, 'v) nested \<Rightarrow> ('a, 'k, 'v) nested" where
  "nset a k v m = fmupd a (fmupd k v (inner m a)) m"

definition ndel :: "'a \<Rightarrow> 'k \<Rightarrow> ('a, 'k, 'v) nested \<Rightarrow> ('a, 'k, 'v) nested" where
  "ndel a k m = (case fmlookup m a of None \<Rightarrow> m
     | Some slots \<Rightarrow> (let slots' = fmdrop k slots
                     in if slots' = fmempty then fmdrop a m else fmupd a slots' m))"

text \<open>The loop \<open>for a, slots := range d { make if nil; for k, v := range slots { m[a][k] = v } }\<close>.\<close>

definition nmerge :: "('a, 'k, 'v) nested \<Rightarrow> ('a, 'k, 'v) nested \<Rightarrow> ('a, 'k, 'v) nested" where
  "nmerge m d = fmadd m (fmmap_keys (\<lambda>a slots. fmadd (inner m a) slots) d)"

text \<open>No inner map is empty.\<close>

definition no_empty :: "('a, 'k, 'v) nested \<Rightarrow> bool" where
  "no_empty m = fmpred (\<lambda>a slots. slots \<noteq> fmempty) m"

subsection \<open>Reading after writing\<close>

lemma nget_inner: "nget m a k = fmlookup (inner m a) k"
  by (simp add: nget_def inner_def split: option.split)

lemma inner_nset [simp]: "inner (nset a k v m) b = (if a = b then fmupd k v (inner m a) else inner m b)"
  by (simp add: inner_def nset_def)

lemma inner_empty [simp]: "inner fmempty a = fmempty"
  by (simp add: inner_def)

lemma nget_empty [simp]: "nget fmempty a k = None"
  by (simp add: nget_inner)

lemma nget_nset [simp]: "nget (nset a k v m) b l = (if a = b \<and> k = l then Some v else nget m b l)"
  by (simp add: nget_inner)

lemma inner_nmerge: "inner (nmerge m d) a = fmadd (inner m a) (inner d a)"
  by (simp add: inner_def nmerge_def fmlookup_dom_iff split: option.split)

lemma nget_nmerge [simp]:
  "nget (nmerge m d) a k = (case nget d a k of Some v \<Rightarrow> Some v | None \<Rightarrow> nget m a k)"
  by (simp add: nget_inner inner_nmerge fmlookup_dom_iff split: option.split)

subsection \<open>Undoing a write\<close>

lemma no_empty_lookup: "no_empty m \<Longrightarrow> fmlookup m a = Some s \<Longrightarrow> s \<noteq> fmempty"
  by (auto simp: no_empty_def fmpred_iff)

lemma no_empty_simps [simp]: "no_empty fmempty" "no_empty m \<Longrightarrow> no_empty (nset a k v m)"
  by (auto simp: no_empty_def nset_def fmpred_iff dest: arg_cong [where f = "\<lambda>m. fmlookup m k"])

lemma no_empty_ndel: "no_empty m \<Longrightarrow> no_empty (ndel a k m)"
  by (auto simp: no_empty_def ndel_def fmpred_iff Let_def split: option.splits if_splits)

lemma fmupd_same: "fmlookup m k = Some v \<Longrightarrow> fmupd k v m = m"
  by (rule fmap_ext) auto

lemma fmdrop_upd_fresh: "fmlookup m k = None \<Longrightarrow> fmdrop k (fmupd k v m) = m"
  by (rule fmap_ext) auto

lemma fmdrop_absent: "fmlookup m k = None \<Longrightarrow> fmdrop k m = m"
  by (rule fmap_ext) auto

text \<open>Writing a fresh key and deleting it again restores the map, inner maps included.\<close>

lemma ndel_nset:
  assumes "no_empty m" and "nget m a k = None"
  shows "ndel a k (nset a k v m) = m"
proof (cases "fmlookup m a")
  case None
  then show ?thesis by (simp add: ndel_def nset_def inner_def Let_def fmdrop_upd_fresh fmdrop_fmupd_same fmdrop_absent)
next
  case (Some s)
  with assms have "fmlookup s k = None" "s \<noteq> fmempty" by (auto simp: nget_def dest: no_empty_lookup)
  with Some show ?thesis by (simp add: ndel_def nset_def inner_def Let_def fmdrop_upd_fresh fmupd_same)
qed

text \<open>Writing the previous value back restores the map.\<close>

lemma nset_back:
  assumes "nget m a k = Some p"
  shows "nset a k p (nset a k v m) = m"
proof -
  from assms obtain s where "fmlookup m a = Some s" "fmlookup s k = Some p"
    by (auto simp: nget_def split: option.splits)
  then show ?thesis by (simp add: nset_def inner_def fmupd_same)
qed

subsection \<open>Loops over a map\<close>

text \<open>\<open>enumerates xs m\<close>: the list \<open>xs\<close> is an order in which a Go \<open>range\<close> loop may visit \<open>m\<close>.\<close>

definition enumerates :: "('k \<times> 'v) list \<Rightarrow> ('k, 'v) fmap \<Rightarrow> bool" where
  "enumerates xs m = (distinct (map fst xs) \<and> fmap_of_list xs = m)"

lemma enumerates_fold_step:
  assumes "enumerates xs d"
  shows "fmlookup (fold (\<lambda>(k, v) m. fmupd k (f k v (fmlookup m k)) m) xs m) k =
    (case fmlookup d k of None \<Rightarrow> fmlookup m k | Some v \<Rightarrow> Some (f k v (fmlookup m k)))"
proof -
  have "distinct (map fst xs) \<Longrightarrow>
    fmlookup (fold (\<lambda>(k, v) m. fmupd k (f k v (fmlookup m k)) m) xs m) k =
    (case map_of xs k of None \<Rightarrow> fmlookup m k | Some v \<Rightarrow> Some (f k v (fmlookup m k)))" for m
  proof (induction xs arbitrary: m)
    case (Cons x xs)
    obtain a b where x: "x = (a, b)" by (cases x)
    have "map_of xs a = None" using Cons.prems x by (simp add: map_of_eq_None_iff)
    then show ?case using Cons x by (auto split: option.splits)
  qed simp
  with assms show ?thesis by (auto simp: enumerates_def fmlookup_of_list)
qed

lemma range_copy:
  assumes "enumerates xs d"
  shows "fold (\<lambda>(k, v) m. fmupd k v m) xs m = fmadd m d"
  using enumerates_fold_step [OF assms, of "\<lambda>k v p. v" m]
  by (intro fmap_ext) (simp add: fmlookup_dom_iff split: option.splits)

text \<open>Whatever the order of the two loops, copying a two-level map is \<open>nmerge\<close>.\<close>

lemma range_copy_nested:
  assumes "enumerates xs d" and "\<And>a s. fmlookup d a = Some s \<Longrightarrow> enumerates (ys a) s"
  shows "fold (\<lambda>(a, s) m. fmupd a (fold (\<lambda>(k, v) t. fmupd k v t) (ys a) (inner m a)) m) xs m
    = nmerge m d"
  using enumerates_fold_step [OF assms(1),
      of "\<lambda>a s p. fold (\<lambda>(k, v) t. fmupd k v t) (ys a) (case p of None \<Rightarrow> fmempty | Some s \<Rightarrow> s)" m]
    range_copy [OF assms(2)]
  by (intro fmap_ext) (auto simp: nmerge_def inner_def fmlookup_dom_iff split: option.splits)

subsection \<open>The interface of a slot store\<close>

text \<open>A store of slots: a written slot is read back, the others keep their value.\<close>

locale slot_map =
  fixes get :: "'s \<Rightarrow> 'a \<Rightarrow> 'k \<Rightarrow> 'v option"
    and put :: "'a \<Rightarrow> 'k \<Rightarrow> 'v \<Rightarrow> 's \<Rightarrow> 's"
  assumes get_put: "get (put a k v s) b l = (if a = b \<and> k = l then Some v else get s b l)"
begin

lemma get_puts:
  "get (fold (\<lambda>(a, k, v). put a k v) ws s) a k =
    (case map_of (rev (map (\<lambda>(a, k, v). ((a, k), v)) ws)) (a, k) of
       None \<Rightarrow> get s a k | Some v \<Rightarrow> Some v)"
  by (induction ws arbitrary: s) (auto simp: get_put map_add_def split: option.splits)

lemma get_put_swap:
  "(a, k) \<noteq> (b, l) \<Longrightarrow> get (put a k v (put b l w s)) = get (put b l w (put a k v s))"
  by (intro ext) (auto simp: get_put)

end

interpretation nested: slot_map nget nset
  by unfold_locales simp

end
