(* ===== verification/Immutable_State.thy ===== *)
theory Immutable_State
  imports Go_Maps Slot_Keys
begin

text \<open>
  The primary layer of the state database (\<open>statedb/immutable.go\<close>): storage, code, balances and
  nonces at one block, and the in-place application of a block diff together with the backfill;
  and the flat copy of its storage (\<open>statedb/fastcache.go\<close>).  Keccak is the parameter \<open>keccak\<close>.
\<close>

type_synonym storage_map = "(address, hash, hash) nested"

record immutable_state =
  im_BlockNum :: "64 word"
  im_BlockTime :: "64 word"
  im_Storage :: storage_map
  im_Code :: "(address, byte list) fmap"
  im_CodeHash :: "(address, hash) fmap"
  im_Balance :: "(address, u256) fmap"
  im_Nonce :: "(address, 64 word) fmap"

definition NewImmutableState :: "64 word \<Rightarrow> 64 word \<Rightarrow> immutable_state" where
  "NewImmutableState blockNum blockTime =
     \<lparr>im_BlockNum = blockNum, im_BlockTime = blockTime, im_Storage = fmempty, im_Code = fmempty,
      im_CodeHash = fmempty, im_Balance = fmempty, im_Nonce = fmempty\<rparr>"

text \<open>The getters return the value and a flag; the pair is an option here.\<close>

definition im_GetStorage :: "immutable_state \<Rightarrow> address \<Rightarrow> hash \<Rightarrow> hash option" where
  "im_GetStorage s addr slot = nget (im_Storage s) addr slot"

definition im_GetCode :: "immutable_state \<Rightarrow> address \<Rightarrow> byte list option" where
  "im_GetCode s addr = fmlookup (im_Code s) addr"

definition im_GetCodeHash :: "immutable_state \<Rightarrow> address \<Rightarrow> hash option" where
  "im_GetCodeHash s addr = fmlookup (im_CodeHash s) addr"

definition im_GetBalance :: "immutable_state \<Rightarrow> address \<Rightarrow> u256 option" where
  "im_GetBalance s addr = fmlookup (im_Balance s) addr"

definition im_GetNonce :: "immutable_state \<Rightarrow> address \<Rightarrow> 64 word option" where
  "im_GetNonce s addr = fmlookup (im_Nonce s) addr"

definition im_HasStorageSlot :: "immutable_state \<Rightarrow> address \<Rightarrow> hash \<Rightarrow> bool" where
  "im_HasStorageSlot s addr slot = (case fmlookup (im_Storage s) addr of
     None \<Rightarrow> False | Some slots \<Rightarrow> fmlookup slots slot \<noteq> None)"

definition im_SetStorage :: "address \<Rightarrow> hash \<Rightarrow> hash \<Rightarrow> immutable_state \<Rightarrow> immutable_state" where
  "im_SetStorage addr slot value s = s\<lparr>im_Storage := nset addr slot value (im_Storage s)\<rparr>"

text \<open>A nil balance is \<open>None\<close>.\<close>

definition im_SetAccount ::
  "keccak \<Rightarrow> address \<Rightarrow> u256 option \<Rightarrow> 64 word \<Rightarrow> byte list \<Rightarrow> immutable_state \<Rightarrow> immutable_state" where
  "im_SetAccount keccak addr balance nonce code s =
     (let s = (case balance of None \<Rightarrow> s | Some b \<Rightarrow> s\<lparr>im_Balance := fmupd addr b (im_Balance s)\<rparr>);
          s = s\<lparr>im_Nonce := fmupd addr nonce (im_Nonce s)\<rparr>
      in if 0 < length code
         then s\<lparr>im_Code := fmupd addr code (im_Code s),
                im_CodeHash := fmupd addr (keccak code) (im_CodeHash s)\<rparr>
         else s)"

record block_diff =
  bd_BlockNum :: "64 word"
  bd_BlockTime :: "64 word"
  bd_Storage :: storage_map
  bd_Balance :: "(address, u256) fmap"
  bd_Nonce :: "(address, 64 word) fmap"

text \<open>The code hashes the loop over the backfilled code writes: those of non-empty code.\<close>

definition code_hashes :: "keccak \<Rightarrow> (address, byte list) fmap \<Rightarrow> (address, hash) fmap" where
  "code_hashes keccak bfCode = fmmap keccak (fmfilter (\<lambda>a. 0 < length (the (fmlookup bfCode a))) bfCode)"

definition ApplyDiffInPlace ::
  "keccak \<Rightarrow> block_diff \<Rightarrow> storage_map \<Rightarrow> (address, byte list) fmap \<Rightarrow> (address, u256) fmap
   \<Rightarrow> (address, 64 word) fmap \<Rightarrow> immutable_state \<Rightarrow> immutable_state" where
  "ApplyDiffInPlace keccak diff bfStorage bfCode bfBalance bfNonce s =
     s\<lparr>im_BlockNum := bd_BlockNum diff,
       im_BlockTime := bd_BlockTime diff,
       im_Storage := nmerge (nmerge (im_Storage s) bfStorage) (bd_Storage diff),
       im_Code := fmadd (im_Code s) bfCode,
       im_CodeHash := fmadd (im_CodeHash s) (code_hashes keccak bfCode),
       im_Balance := fmadd (fmadd (im_Balance s) bfBalance) (bd_Balance diff),
       im_Nonce := fmadd (fmadd (im_Nonce s) bfNonce) (bd_Nonce diff)\<rparr>"

subsection \<open>Reading after the diff\<close>

lemma im_HasStorageSlot_iff: "im_HasStorageSlot s a k \<longleftrightarrow> im_GetStorage s a k \<noteq> None"
  by (simp add: im_HasStorageSlot_def im_GetStorage_def nget_def split: option.split)

interpretation immutable: slot_map im_GetStorage im_SetStorage
  by unfold_locales (simp add: im_GetStorage_def im_SetStorage_def)

definition or_else :: "'a option \<Rightarrow> 'a option \<Rightarrow> 'a option" where
  "or_else x y = (case x of Some v \<Rightarrow> Some v | None \<Rightarrow> y)"

lemma or_else_simps [simp]: "or_else None y = y" "or_else (Some v) y = Some v" "or_else x None = x"
  by (auto simp: or_else_def split: option.split)

lemma fmlookup_fmadd: "fmlookup (fmadd m d) k = or_else (fmlookup d k) (fmlookup m k)"
  by (simp add: or_else_def fmlookup_dom_iff split: option.split)

lemma nget_nmerge_or_else: "nget (nmerge m d) a k = or_else (nget d a k) (nget m a k)"
  by (simp add: or_else_def)

text \<open>The diff wins over the backfill, which wins over what the layer held.\<close>

lemma ApplyDiffInPlace_reads:
  shows "im_GetStorage (ApplyDiffInPlace kc d bs bc bb bn s) a k =
      or_else (nget (bd_Storage d) a k) (or_else (nget bs a k) (im_GetStorage s a k))"
    and "im_GetBalance (ApplyDiffInPlace kc d bs bc bb bn s) a =
      or_else (fmlookup (bd_Balance d) a) (or_else (fmlookup bb a) (im_GetBalance s a))"
    and "im_GetNonce (ApplyDiffInPlace kc d bs bc bb bn s) a =
      or_else (fmlookup (bd_Nonce d) a) (or_else (fmlookup bn a) (im_GetNonce s a))"
    and "im_GetCode (ApplyDiffInPlace kc d bs bc bb bn s) a =
      or_else (fmlookup bc a) (im_GetCode s a)"
    and "im_GetCodeHash (ApplyDiffInPlace kc d bs bc bb bn s) a =
      (case fmlookup bc a of
         Some c \<Rightarrow> if c = [] then im_GetCodeHash s a else Some (kc c)
       | None \<Rightarrow> im_GetCodeHash s a)"
  by (simp_all add: ApplyDiffInPlace_def im_GetStorage_def im_GetBalance_def im_GetNonce_def
      im_GetCode_def im_GetCodeHash_def fmlookup_fmadd nget_nmerge_or_else code_hashes_def
      del: fmlookup_add nget_nmerge split: option.split)

subsection \<open>The flat storage cache\<close>

type_synonym fast_cache = "(byte list, hash) fmap"

definition MakeStorageKey :: "address \<Rightarrow> hash \<Rightarrow> byte list" where
  "MakeStorageKey addr slot = be_bytes 20 (uint addr) @ be_bytes 32 (uint slot)"

text \<open>\<open>order\<close> is the order in which the two nested \<open>range\<close> loops visit the slots.\<close>

definition BuildFastCache :: "(address \<times> hash) list \<Rightarrow> immutable_state \<Rightarrow> fast_cache" where
  "BuildFastCache order im = fold (\<lambda>(addr, slot) fc. case nget (im_Storage im) addr slot of
       Some val \<Rightarrow> fmupd (MakeStorageKey addr slot) val fc | None \<Rightarrow> fc) order fmempty"

definition fc_GetState :: "fast_cache \<Rightarrow> address \<Rightarrow> hash \<Rightarrow> hash option" where
  "fc_GetState fc addr slot = fmlookup fc (MakeStorageKey addr slot)"

definition fc_Len :: "fast_cache \<Rightarrow> nat" where
  "fc_Len fc = fcard (fmdom fc)"

text \<open>An order of the two loops: every slot of the layer, nothing else.\<close>

definition visits_all :: "(address \<times> hash) list \<Rightarrow> immutable_state \<Rightarrow> bool" where
  "visits_all order im = (\<forall>a k. (a, k) \<in> set order \<longleftrightarrow> im_GetStorage im a k \<noteq> None)"

lemma MakeStorageKey_inj: "MakeStorageKey a k = MakeStorageKey b l \<longleftrightarrow> a = b \<and> k = l"
proof -
  have "uint x < 256 ^ 20" for x :: address using uint_bounded [of x] by simp
  moreover have "uint x < 256 ^ 32" for x :: hash using uint_bounded [of x] by simp
  ultimately show ?thesis
    by (simp add: MakeStorageKey_def be_bytes_inj word_eq_iff_uint)
qed

lemma BuildFastCache_reads:
  assumes "visits_all order im"
  shows "fc_GetState (BuildFastCache order im) a k = im_GetStorage im a k"
proof -
  let ?f = "\<lambda>(addr, slot) fc. case nget (im_Storage im) addr slot of
       Some val \<Rightarrow> fmupd (MakeStorageKey addr slot) val fc | None \<Rightarrow> fc"
  have "fc_GetState (fold ?f order fc) a k =
      (if (a, k) \<in> set order \<and> nget (im_Storage im) a k \<noteq> None then nget (im_Storage im) a k
       else fc_GetState fc a k)" for fc
    by (induction order arbitrary: fc)
      (auto simp: fc_GetState_def MakeStorageKey_inj split: option.splits if_splits)
  with assms show ?thesis
    by (auto simp: BuildFastCache_def visits_all_def im_GetStorage_def fc_GetState_def)
qed

interpretation fast_cache: slot_map fc_GetState "\<lambda>a k. fmupd (MakeStorageKey a k)"
  by unfold_locales (simp add: fc_GetState_def MakeStorageKey_inj)

end
