(* ===== verification/State_Db.thy ===== *)
theory State_Db
  imports Immutable_State
begin

text \<open>
  The two-layer state database (\<open>statedb/statedb.go\<close>): reads go to the primary layer, then to the
  backfill, then to a fetcher whose answer is kept in the backfill; a block diff merges both into
  the primary layer.  The fetcher is an interface: a record \<open>'f fetcher\<close> of operations on a
  fetcher state \<open>'f\<close>.  A database is itself a fetcher (\<open>state_fetcher\<close>), which is how overlays
  are stacked.  The primary layer is held through a pointer that snapshots share, so the
  database carries the store of the objects it may point to.
\<close>

type_synonym 'a fetched = "string + 'a"

record 'f fetcher =
  fetchStorage :: "address \<Rightarrow> hash \<Rightarrow> 'f \<Rightarrow> hash fetched \<times> 'f"
  fetchBalance :: "address \<Rightarrow> 'f \<Rightarrow> u256 fetched \<times> 'f"
  fetchNonce :: "address \<Rightarrow> 'f \<Rightarrow> 64 word fetched \<times> 'f"
  fetchCode :: "address \<Rightarrow> 'f \<Rightarrow> byte list fetched \<times> 'f"
  fetchBlockHash :: "64 word \<Rightarrow> 'f \<Rightarrow> hash fetched \<times> 'f"

type_synonym evm_log = "address \<times> hash list \<times> byte list"

record state_snapshot =
  ss_id :: int
  ss_immutable :: nat
  ss_refund :: "64 word"

record 'f state_db =
  sd_objects :: "immutable_state list"
  sd_immutable :: nat
  sd_bfStorage :: storage_map
  sd_bfCode :: "(address, byte list) fmap"
  sd_bfCodeHash :: "(address, hash) fmap"
  sd_bfBalance :: "(address, u256) fmap"
  sd_bfNonce :: "(address, 64 word) fmap"
  sd_fetcher :: "'f option"
  sd_accessList :: "(address, hash, bool) nested"
  sd_refund :: "64 word"
  sd_logs :: "evm_log list"
  sd_snapshots :: "state_snapshot list"
  sd_snapID :: int
  sd_transient :: storage_map

definition NewStateDB :: "'f option \<Rightarrow> 'f state_db" where
  "NewStateDB fetcher =
     \<lparr>sd_objects = [NewImmutableState 0 0], sd_immutable = 0, sd_bfStorage = fmempty,
      sd_bfCode = fmempty, sd_bfCodeHash = fmempty, sd_bfBalance = fmempty, sd_bfNonce = fmempty,
      sd_fetcher = fetcher, sd_accessList = fmempty, sd_refund = 0, sd_logs = [],
      sd_snapshots = [], sd_snapID = 0, sd_transient = fmempty\<rparr>"

definition Immutable :: "'f state_db \<Rightarrow> immutable_state" where
  "Immutable s = sd_objects s ! sd_immutable s"

definition SetImmutable :: "immutable_state \<Rightarrow> 'f state_db \<Rightarrow> 'f state_db" where
  "SetImmutable im s = s\<lparr>sd_objects := sd_objects s @ [im], sd_immutable := length (sd_objects s)\<rparr>"

definition ApplyBlockDiff :: "keccak \<Rightarrow> block_diff \<Rightarrow> 'f state_db \<Rightarrow> 'f state_db" where
  "ApplyBlockDiff keccak diff s =
     s\<lparr>sd_objects := (sd_objects s)[sd_immutable s :=
          ApplyDiffInPlace keccak diff (sd_bfStorage s) (sd_bfCode s) (sd_bfBalance s) (sd_bfNonce s)
            (Immutable s)],
       sd_bfStorage := fmempty, sd_bfCode := fmempty, sd_bfCodeHash := fmempty,
       sd_bfBalance := fmempty, sd_bfNonce := fmempty\<rparr>"

subsection \<open>Storage\<close>

text \<open>The message of a wrapped error; the printed address and slot are left out.\<close>

definition wrap_err :: "string \<Rightarrow> string" where
  "wrap_err e = ''FetchStorage: '' @ e"

definition getStorageWithErr ::
  "'f fetcher \<Rightarrow> address \<Rightarrow> hash \<Rightarrow> 'f state_db \<Rightarrow> hash fetched \<times> 'f state_db" where
  "getStorageWithErr F addr key s =
     (case im_GetStorage (Immutable s) addr key of
        Some val \<Rightarrow> (Inr val, s)
      | None \<Rightarrow> (case nget (sd_bfStorage s) addr key of
          Some val \<Rightarrow> (Inr val, s)
        | None \<Rightarrow> (case sd_fetcher s of
            None \<Rightarrow> (Inr 0, s)
          | Some f \<Rightarrow> (case fetchStorage F addr key f of
              (Inl err, f') \<Rightarrow> (Inl (wrap_err err), s\<lparr>sd_fetcher := Some f'\<rparr>)
            | (Inr val, f') \<Rightarrow> (Inr val, s\<lparr>sd_fetcher := Some f',
                 sd_bfStorage := nset addr key val (sd_bfStorage s)\<rparr>)))))"

definition getStorage :: "'f fetcher \<Rightarrow> address \<Rightarrow> hash \<Rightarrow> 'f state_db \<Rightarrow> hash \<times> 'f state_db" where
  "getStorage F addr key s = (case getStorageWithErr F addr key s of
     (Inl err, s') \<Rightarrow> (0, s') | (Inr val, s') \<Rightarrow> (val, s'))"

definition sd_GetState :: "'f fetcher \<Rightarrow> address \<Rightarrow> hash \<Rightarrow> 'f state_db \<Rightarrow> hash \<times> 'f state_db" where
  "sd_GetState F addr key s = getStorage F addr key s"

definition sd_GetCommittedState ::
  "'f fetcher \<Rightarrow> address \<Rightarrow> hash \<Rightarrow> 'f state_db \<Rightarrow> hash \<times> 'f state_db" where
  "sd_GetCommittedState F addr key s = getStorage F addr key s"

definition sd_SetState :: "address \<Rightarrow> hash \<Rightarrow> hash \<Rightarrow> 'f state_db \<Rightarrow> 'f state_db" where
  "sd_SetState addr key value s = s\<lparr>sd_bfStorage := nset addr key value (sd_bfStorage s)\<rparr>"

definition SetStorageSlot :: "address \<Rightarrow> hash \<Rightarrow> hash \<Rightarrow> 'f state_db \<Rightarrow> 'f state_db" where
  "SetStorageSlot addr slot value s = s\<lparr>sd_bfStorage := nset addr slot value (sd_bfStorage s)\<rparr>"

definition sd_HasStorageSlot :: "address \<Rightarrow> hash \<Rightarrow> 'f state_db \<Rightarrow> bool" where
  "sd_HasStorageSlot addr slot s =
     (if im_HasStorageSlot (Immutable s) addr slot then True
      else case fmlookup (sd_bfStorage s) addr of
             None \<Rightarrow> False | Some slots \<Rightarrow> fmlookup slots slot \<noteq> None)"

subsection \<open>Balance, nonce and code\<close>

definition getBalanceWithErr ::
  "'f fetcher \<Rightarrow> address \<Rightarrow> 'f state_db \<Rightarrow> u256 fetched \<times> 'f state_db" where
  "getBalanceWithErr F addr s =
     (case im_GetBalance (Immutable s) addr of
        Some bal \<Rightarrow> (Inr bal, s)
      | None \<Rightarrow> (case fmlookup (sd_bfBalance s) addr of
          Some bal \<Rightarrow> (Inr bal, s)
        | None \<Rightarrow> (case sd_fetcher s of
            None \<Rightarrow> (Inr 0, s)
          | Some f \<Rightarrow> (case fetchBalance F addr f of
              (Inl err, f') \<Rightarrow> (Inl err, s\<lparr>sd_fetcher := Some f'\<rparr>)
            | (Inr bal, f') \<Rightarrow> (Inr bal, s\<lparr>sd_fetcher := Some f',
                 sd_bfBalance := fmupd addr bal (sd_bfBalance s)\<rparr>)))))"

definition sd_GetBalance :: "'f fetcher \<Rightarrow> address \<Rightarrow> 'f state_db \<Rightarrow> u256 \<times> 'f state_db" where
  "sd_GetBalance F addr s = (case getBalanceWithErr F addr s of
     (Inl err, s') \<Rightarrow> (0, s') | (Inr bal, s') \<Rightarrow> (bal, s'))"

definition sd_SubBalance :: "'f fetcher \<Rightarrow> address \<Rightarrow> u256 \<Rightarrow> 'f state_db \<Rightarrow> 'f state_db" where
  "sd_SubBalance F addr amount s = (case sd_GetBalance F addr s of
     (bal, s') \<Rightarrow> s'\<lparr>sd_bfBalance := fmupd addr (bal - amount) (sd_bfBalance s')\<rparr>)"

definition sd_AddBalance :: "'f fetcher \<Rightarrow> address \<Rightarrow> u256 \<Rightarrow> 'f state_db \<Rightarrow> 'f state_db" where
  "sd_AddBalance F addr amount s = (case sd_GetBalance F addr s of
     (bal, s') \<Rightarrow> s'\<lparr>sd_bfBalance := fmupd addr (bal + amount) (sd_bfBalance s')\<rparr>)"

definition sd_GetNonce :: "'f fetcher \<Rightarrow> address \<Rightarrow> 'f state_db \<Rightarrow> 64 word \<times> 'f state_db" where
  "sd_GetNonce F addr s =
     (case im_GetNonce (Immutable s) addr of
        Some n \<Rightarrow> (n, s)
      | None \<Rightarrow> (case fmlookup (sd_bfNonce s) addr of
          Some n \<Rightarrow> (n, s)
        | None \<Rightarrow> (case sd_fetcher s of
            None \<Rightarrow> (0, s)
          | Some f \<Rightarrow> (case fetchNonce F addr f of
              (Inl err, f') \<Rightarrow> (0, s\<lparr>sd_fetcher := Some f'\<rparr>)
            | (Inr n, f') \<Rightarrow> (n, s\<lparr>sd_fetcher := Some f',
                 sd_bfNonce := fmupd addr n (sd_bfNonce s)\<rparr>)))))"

definition sd_SetNonce :: "address \<Rightarrow> 64 word \<Rightarrow> 'f state_db \<Rightarrow> 'f state_db" where
  "sd_SetNonce addr n s = s\<lparr>sd_bfNonce := fmupd addr n (sd_bfNonce s)\<rparr>"

definition getCodeWithErr ::
  "keccak \<Rightarrow> 'f fetcher \<Rightarrow> address \<Rightarrow> 'f state_db \<Rightarrow> byte list fetched \<times> 'f state_db" where
  "getCodeWithErr keccak F addr s =
     (case im_GetCode (Immutable s) addr of
        Some code \<Rightarrow> (Inr code, s)
      | None \<Rightarrow> (case fmlookup (sd_bfCode s) addr of
          Some code \<Rightarrow> (Inr code, s)
        | None \<Rightarrow> (case sd_fetcher s of
            None \<Rightarrow> (Inr [], s)
          | Some f \<Rightarrow> (case fetchCode F addr f of
              (Inl err, f') \<Rightarrow> (Inl err, s\<lparr>sd_fetcher := Some f'\<rparr>)
            | (Inr code, f') \<Rightarrow> (Inr code, s\<lparr>sd_fetcher := Some f',
                 sd_bfCode := fmupd addr code (sd_bfCode s),
                 sd_bfCodeHash := (if 0 < length code
                   then fmupd addr (keccak code) (sd_bfCodeHash s) else sd_bfCodeHash s)\<rparr>)))))"

definition sd_GetCode ::
  "keccak \<Rightarrow> 'f fetcher \<Rightarrow> address \<Rightarrow> 'f state_db \<Rightarrow> byte list \<times> 'f state_db" where
  "sd_GetCode keccak F addr s = (case getCodeWithErr keccak F addr s of
     (Inl err, s') \<Rightarrow> ([], s') | (Inr code, s') \<Rightarrow> (code, s'))"

definition sd_GetCodeHash ::
  "keccak \<Rightarrow> 'f fetcher \<Rightarrow> address \<Rightarrow> 'f state_db \<Rightarrow> hash \<times> 'f state_db" where
  "sd_GetCodeHash keccak F addr s =
     (case im_GetCodeHash (Immutable s) addr of
        Some h \<Rightarrow> (h, s)
      | None \<Rightarrow> (case fmlookup (sd_bfCodeHash s) addr of
          Some h \<Rightarrow> (h, s)
        | None \<Rightarrow> (case sd_GetCode keccak F addr s of
            (code, s') \<Rightarrow> if length code = 0 then (0, s') else (keccak code, s'))))"

definition sd_SetCode :: "keccak \<Rightarrow> address \<Rightarrow> byte list \<Rightarrow> 'f state_db \<Rightarrow> 'f state_db" where
  "sd_SetCode keccak addr code s =
     s\<lparr>sd_bfCode := fmupd addr code (sd_bfCode s),
       sd_bfCodeHash := (if 0 < length code then fmupd addr (keccak code) (sd_bfCodeHash s)
                         else fmdrop addr (sd_bfCodeHash s))\<rparr>"

definition sd_GetCodeSize ::
  "keccak \<Rightarrow> 'f fetcher \<Rightarrow> address \<Rightarrow> 'f state_db \<Rightarrow> nat \<times> 'f state_db" where
  "sd_GetCodeSize keccak F addr s = (case sd_GetCode keccak F addr s of (c, s') \<Rightarrow> (length c, s'))"

subsection \<open>Per-call state\<close>

definition sd_AddRefund :: "64 word \<Rightarrow> 'f state_db \<Rightarrow> 'f state_db" where
  "sd_AddRefund gas s = s\<lparr>sd_refund := sd_refund s + gas\<rparr>"

definition sd_SubRefund :: "64 word \<Rightarrow> 'f state_db \<Rightarrow> 'f state_db" where
  "sd_SubRefund gas s = s\<lparr>sd_refund := sd_refund s - gas\<rparr>"

definition sd_GetTransientState :: "address \<Rightarrow> hash \<Rightarrow> 'f state_db \<Rightarrow> hash" where
  "sd_GetTransientState addr key s = (case nget (sd_transient s) addr key of None \<Rightarrow> 0 | Some v \<Rightarrow> v)"

definition sd_SetTransientState :: "address \<Rightarrow> hash \<Rightarrow> hash \<Rightarrow> 'f state_db \<Rightarrow> 'f state_db" where
  "sd_SetTransientState addr key value s = s\<lparr>sd_transient := nset addr key value (sd_transient s)\<rparr>"

text \<open>The conditions are evaluated in the code's order, each read threading the state.\<close>

definition sd_Exist :: "keccak \<Rightarrow> 'f fetcher \<Rightarrow> address \<Rightarrow> 'f state_db \<Rightarrow> bool \<times> 'f state_db" where
  "sd_Exist keccak F addr s =
     (case sd_GetCodeSize keccak F addr s of (n, s) \<Rightarrow>
        if 0 < n then (True, s)
        else (case sd_GetBalance F addr s of (bal, s) \<Rightarrow> (if 0 <s bal then (True, s) else (False, s))))"

definition sd_Empty :: "keccak \<Rightarrow> 'f fetcher \<Rightarrow> address \<Rightarrow> 'f state_db \<Rightarrow> bool \<times> 'f state_db" where
  "sd_Empty keccak F addr s =
     (case sd_GetBalance F addr s of (bal, s) \<Rightarrow>
        if bal \<noteq> 0 then (False, s)
        else (case sd_GetNonce F addr s of (n, s) \<Rightarrow>
          if n \<noteq> 0 then (False, s)
          else (case sd_GetCodeSize keccak F addr s of (c, s) \<Rightarrow> (c = 0, s))))"

definition sd_AddressInAccessList :: "address \<Rightarrow> 'f state_db \<Rightarrow> bool" where
  "sd_AddressInAccessList addr s = (fmlookup (sd_accessList s) addr \<noteq> None)"

definition sd_SlotInAccessList :: "address \<Rightarrow> hash \<Rightarrow> 'f state_db \<Rightarrow> bool \<times> bool" where
  "sd_SlotInAccessList addr slot s = (case fmlookup (sd_accessList s) addr of
     None \<Rightarrow> (False, False) | Some slots \<Rightarrow> (True, fmlookup slots slot \<noteq> None))"

definition sd_AddAddressToAccessList :: "address \<Rightarrow> 'f state_db \<Rightarrow> 'f state_db" where
  "sd_AddAddressToAccessList addr s = (if fmlookup (sd_accessList s) addr = None
     then s\<lparr>sd_accessList := fmupd addr fmempty (sd_accessList s)\<rparr> else s)"

definition sd_AddSlotToAccessList :: "address \<Rightarrow> hash \<Rightarrow> 'f state_db \<Rightarrow> 'f state_db" where
  "sd_AddSlotToAccessList addr slot s = (let s = sd_AddAddressToAccessList addr s
     in s\<lparr>sd_accessList := nset addr slot True (sd_accessList s)\<rparr>)"

definition sd_Prepare ::
  "address \<Rightarrow> address \<Rightarrow> address option \<Rightarrow> address list \<Rightarrow> (address \<times> hash list) list
    \<Rightarrow> 'f state_db \<Rightarrow> 'f state_db" where
  "sd_Prepare sender coinbase dest precompiles txAccesses s =
     (let s = s\<lparr>sd_accessList := fmempty, sd_refund := 0, sd_logs := [], sd_transient := fmempty\<rparr>;
          s = sd_AddAddressToAccessList sender s;
          s = (case dest of None \<Rightarrow> s | Some d \<Rightarrow> sd_AddAddressToAccessList d s);
          s = sd_AddAddressToAccessList coinbase s;
          s = fold sd_AddAddressToAccessList precompiles s
      in fold (\<lambda>(addr, keys) s. fold (sd_AddSlotToAccessList addr) keys
                (sd_AddAddressToAccessList addr s)) txAccesses s)"

definition sd_Snapshot :: "'f state_db \<Rightarrow> int \<times> 'f state_db" where
  "sd_Snapshot s = (let i = sd_snapID s + 1
     in (i, s\<lparr>sd_snapID := i, sd_snapshots := sd_snapshots s @
           [\<lparr>ss_id = i, ss_immutable = sd_immutable s, ss_refund = sd_refund s\<rparr>]\<rparr>))"

text \<open>The search from the newest snapshot down; an unknown id changes nothing.\<close>

fun find_snapshot :: "state_snapshot list \<Rightarrow> int \<Rightarrow> nat \<Rightarrow> nat option" where
  "find_snapshot snaps i 0 = None"
| "find_snapshot snaps i (Suc n) = (if ss_id (snaps ! n) = i then Some n else find_snapshot snaps i n)"

definition sd_RevertToSnapshot :: "int \<Rightarrow> 'f state_db \<Rightarrow> 'f state_db" where
  "sd_RevertToSnapshot i s = (case find_snapshot (sd_snapshots s) i (length (sd_snapshots s)) of
     None \<Rightarrow> s
   | Some n \<Rightarrow> s\<lparr>sd_immutable := ss_immutable (sd_snapshots s ! n),
                sd_refund := ss_refund (sd_snapshots s ! n),
                sd_snapshots := take n (sd_snapshots s)\<rparr>)"

definition sd_AddLog :: "evm_log \<Rightarrow> 'f state_db \<Rightarrow> 'f state_db" where
  "sd_AddLog l s = s\<lparr>sd_logs := sd_logs s @ [l]\<rparr>"

text \<open>On an error the fetcher's hash is the zero hash.\<close>

definition sd_FetchBlockHash :: "'f fetcher \<Rightarrow> 64 word \<Rightarrow> 'f state_db \<Rightarrow> hash fetched \<times> 'f state_db" where
  "sd_FetchBlockHash F num s = (case sd_fetcher s of
     None \<Rightarrow> (Inr 0, s)
   | Some f \<Rightarrow> (case fetchBlockHash F num f of (r, f') \<Rightarrow> (r, s\<lparr>sd_fetcher := Some f'\<rparr>)))"

definition sd_GetBlockHash :: "'f fetcher \<Rightarrow> 64 word \<Rightarrow> 'f state_db \<Rightarrow> hash \<times> 'f state_db" where
  "sd_GetBlockHash F num s = (case sd_fetcher s of
     None \<Rightarrow> (0, s)
   | Some f \<Rightarrow> (case fetchBlockHash F num f of
       (Inl err, f') \<Rightarrow> (0, s\<lparr>sd_fetcher := Some f'\<rparr>) | (Inr h, f') \<Rightarrow> (h, s\<lparr>sd_fetcher := Some f'\<rparr>)))"

subsection \<open>Overlays\<close>

definition sd_FetchStorage :: "'f fetcher \<Rightarrow> address \<Rightarrow> hash \<Rightarrow> 'f state_db \<Rightarrow> hash fetched \<times> 'f state_db" where
  "sd_FetchStorage F addr slot s = getStorageWithErr F addr slot s"

definition sd_FetchBalance :: "'f fetcher \<Rightarrow> address \<Rightarrow> 'f state_db \<Rightarrow> u256 fetched \<times> 'f state_db" where
  "sd_FetchBalance F addr s = getBalanceWithErr F addr s"

definition sd_FetchNonce :: "'f fetcher \<Rightarrow> address \<Rightarrow> 'f state_db \<Rightarrow> 64 word fetched \<times> 'f state_db" where
  "sd_FetchNonce F addr s = (case sd_GetNonce F addr s of (n, s') \<Rightarrow> (Inr n, s'))"

definition sd_FetchCode ::
  "keccak \<Rightarrow> 'f fetcher \<Rightarrow> address \<Rightarrow> 'f state_db \<Rightarrow> byte list fetched \<times> 'f state_db" where
  "sd_FetchCode keccak F addr s = getCodeWithErr keccak F addr s"

text \<open>The database as the fetcher of another database.\<close>

definition state_fetcher :: "keccak \<Rightarrow> 'f fetcher \<Rightarrow> 'f state_db fetcher" where
  "state_fetcher keccak F =
     \<lparr>fetchStorage = sd_FetchStorage F, fetchBalance = sd_FetchBalance F, fetchNonce = sd_FetchNonce F,
      fetchCode = sd_FetchCode keccak F, fetchBlockHash = sd_FetchBlockHash F\<rparr>"

definition NewOverlay :: "'f state_db \<Rightarrow> 'f state_db state_db" where
  "NewOverlay s = NewStateDB (Some s)"

definition sd_Reset :: "'f state_db \<Rightarrow> 'f state_db" where
  "sd_Reset s = s\<lparr>sd_bfStorage := fmempty, sd_bfCode := fmempty, sd_bfCodeHash := fmempty,
     sd_bfBalance := fmempty, sd_bfNonce := fmempty, sd_accessList := fmempty,
     sd_transient := fmempty, sd_refund := 0, sd_logs := [], sd_snapshots := [], sd_snapID := 0\<rparr>"

definition sd_SetAccount ::
  "keccak \<Rightarrow> address \<Rightarrow> u256 option \<Rightarrow> 64 word \<Rightarrow> byte list \<Rightarrow> 'f state_db \<Rightarrow> 'f state_db" where
  "sd_SetAccount keccak addr balance nonce code s =
     (let s = (case balance of None \<Rightarrow> s | Some b \<Rightarrow> s\<lparr>sd_bfBalance := fmupd addr b (sd_bfBalance s)\<rparr>);
          s = s\<lparr>sd_bfNonce := fmupd addr nonce (sd_bfNonce s)\<rparr>
      in if 0 < length code
         then s\<lparr>sd_bfCode := fmupd addr code (sd_bfCode s),
                sd_bfCodeHash := fmupd addr (keccak code) (sd_bfCodeHash s)\<rparr>
         else s)"

text \<open>Overrides of a search (\<open>pathfinder/bfs.go\<close>); nil code and nil balance are \<open>None\<close>.\<close>

record parsed_override =
  po_Addr :: address
  po_Balance :: "u256 option"
  po_Nonce :: "64 word"
  po_Code :: "byte list option"
  po_Slots :: "(hash \<times> hash) list"

definition code_bytes :: "byte list option \<Rightarrow> byte list" where
  "code_bytes c = (case c of None \<Rightarrow> [] | Some bs \<Rightarrow> bs)"

definition apply_override :: "keccak \<Rightarrow> parsed_override \<Rightarrow> 'f state_db \<Rightarrow> 'f state_db" where
  "apply_override keccak po overlay =
     (let overlay = (if po_Code po \<noteq> None \<or> po_Balance po \<noteq> None
                     then sd_SetAccount keccak (po_Addr po) (po_Balance po) (po_Nonce po)
                            (code_bytes (po_Code po)) overlay
                     else overlay)
      in fold (\<lambda>(slot, value). SetStorageSlot (po_Addr po) slot value) (po_Slots po) overlay)"

text \<open>Without overrides the base itself is returned (\<open>Inl\<close>), otherwise an overlay of it (\<open>Inr\<close>).\<close>

definition ApplyOverrides ::
  "keccak \<Rightarrow> 'f state_db \<Rightarrow> parsed_override list \<Rightarrow> 'f state_db + 'f state_db state_db" where
  "ApplyOverrides keccak base overrides =
     (if length overrides = 0 then Inl base
      else Inr (fold (apply_override keccak) overrides (NewOverlay base)))"

definition ApplyOverridesFlat ::
  "keccak \<Rightarrow> 'f state_db \<Rightarrow> parsed_override list \<Rightarrow> 'f state_db + 'f state_db state_db" where
  "ApplyOverridesFlat keccak base overrides =
     (if length overrides = 0 then Inl base
      else Inr (fold (apply_override keccak) overrides (NewOverlay base)))"

end
