(* ===== verification/State_View.thy ===== *)
theory State_View
  imports State_Db
begin

text \<open>
  What a fetcher shows: its view, the answers it would give now.  The locale \<open>fetch_source\<close> is
  the contract of a fetcher whose answers do not change by asking.  A state database over such a
  fetcher is again one (\<open>overlay_source\<close>), whatever its layers hold, so overlays of any depth
  read like their specification.  The second half is the life of the live database: loading,
  reads and block diffs.
\<close>

record view =
  v_Storage :: "address \<Rightarrow> hash \<Rightarrow> hash fetched"
  v_Balance :: "address \<Rightarrow> u256 fetched"
  v_Nonce :: "address \<Rightarrow> 64 word fetched"
  v_Code :: "address \<Rightarrow> byte list fetched"
  v_BlockHash :: "64 word \<Rightarrow> hash fetched"

definition observe :: "'f fetcher \<Rightarrow> 'f \<Rightarrow> view" where
  "observe F f = \<lparr>v_Storage = \<lambda>a k. fst (fetchStorage F a k f), v_Balance = \<lambda>a. fst (fetchBalance F a f),
     v_Nonce = \<lambda>a. fst (fetchNonce F a f), v_Code = \<lambda>a. fst (fetchCode F a f),
     v_BlockHash = \<lambda>n. fst (fetchBlockHash F n f)\<rparr>"

locale fetch_source =
  fixes F :: "'f fetcher"
  assumes stable_storage: "observe F (snd (fetchStorage F a k f)) = observe F f"
    and stable_balance: "observe F (snd (fetchBalance F a f)) = observe F f"
    and stable_nonce: "observe F (snd (fetchNonce F a f)) = observe F f"
    and stable_code: "observe F (snd (fetchCode F a f)) = observe F f"
    and stable_block_hash: "observe F (snd (fetchBlockHash F n f)) = observe F f"

subsection \<open>The view of a database\<close>

text \<open>The view of a nil fetcher is the zero state; a database shows its layers over it.\<close>

definition zero_view :: view where
  "zero_view = \<lparr>v_Storage = \<lambda>a k. Inr 0, v_Balance = \<lambda>a. Inr 0, v_Nonce = \<lambda>a. Inr 0,
     v_Code = \<lambda>a. Inr [], v_BlockHash = \<lambda>n. Inr 0\<rparr>"

definition below :: "'f fetcher \<Rightarrow> 'f state_db \<Rightarrow> view" where
  "below F s = (case sd_fetcher s of None \<Rightarrow> zero_view | Some f \<Rightarrow> observe F f)"

definition layered :: "'v option \<Rightarrow> 'v fetched \<Rightarrow> 'v fetched" where
  "layered c r = (case c of Some v \<Rightarrow> Inr v | None \<Rightarrow> r)"

definition wrapped :: "hash fetched \<Rightarrow> hash fetched" where
  "wrapped r = (case r of Inl e \<Rightarrow> Inl (wrap_err e) | Inr v \<Rightarrow> Inr v)"

definition or_zero :: "'v::zero fetched \<Rightarrow> 'v" where
  "or_zero r = (case r of Inl e \<Rightarrow> 0 | Inr v \<Rightarrow> v)"

definition cached_Storage :: "'f state_db \<Rightarrow> address \<Rightarrow> hash \<Rightarrow> hash option" where
  "cached_Storage s a k = or_else (im_GetStorage (Immutable s) a k) (nget (sd_bfStorage s) a k)"

definition cached_Balance :: "'f state_db \<Rightarrow> address \<Rightarrow> u256 option" where
  "cached_Balance s a = or_else (im_GetBalance (Immutable s) a) (fmlookup (sd_bfBalance s) a)"

definition cached_Nonce :: "'f state_db \<Rightarrow> address \<Rightarrow> 64 word option" where
  "cached_Nonce s a = or_else (im_GetNonce (Immutable s) a) (fmlookup (sd_bfNonce s) a)"

definition cached_Code :: "'f state_db \<Rightarrow> address \<Rightarrow> byte list option" where
  "cached_Code s a = or_else (im_GetCode (Immutable s) a) (fmlookup (sd_bfCode s) a)"

lemmas cached_defs = cached_Storage_def cached_Balance_def cached_Nonce_def cached_Code_def

definition db_view :: "'f fetcher \<Rightarrow> 'f state_db \<Rightarrow> view" where
  "db_view F s =
     \<lparr>v_Storage = \<lambda>a k. layered (cached_Storage s a k) (wrapped (v_Storage (below F s) a k)),
      v_Balance = \<lambda>a. layered (cached_Balance s a) (v_Balance (below F s) a),
      v_Nonce = \<lambda>a. Inr (or_zero (layered (cached_Nonce s a) (v_Nonce (below F s) a))),
      v_Code = \<lambda>a. layered (cached_Code s a) (v_Code (below F s) a),
      v_BlockHash = v_BlockHash (below F s)\<rparr>"

lemma layered_simps [simp]: "layered (Some v) r = Inr v" "layered None r = r"
  by (simp_all add: layered_def)

lemma wrapped_simps [simp]: "wrapped (Inr v) = Inr v" "wrapped (Inl e) = Inl (wrap_err e)"
  by (simp_all add: wrapped_def)

lemma or_zero_simps [simp]: "or_zero (Inr v) = v" "or_zero (Inl e) = 0"
  by (simp_all add: or_zero_def)

lemma wrapped_Inr: "wrapped r = Inr v \<longleftrightarrow> r = Inr v"
  by (cases r) simp_all

lemmas read_defs = sd_FetchStorage_def sd_FetchBalance_def sd_FetchNonce_def sd_FetchCode_def
  sd_FetchBlockHash_def getStorageWithErr_def getBalanceWithErr_def sd_GetNonce_def getCodeWithErr_def

lemma fst_reads:
  "fst (getStorageWithErr F a k s) = layered (cached_Storage s a k) (wrapped (v_Storage (below F s) a k))"
  "fst (getBalanceWithErr F a s) = layered (cached_Balance s a) (v_Balance (below F s) a)"
  "fst (sd_GetNonce F a s) = or_zero (layered (cached_Nonce s a) (v_Nonce (below F s) a))"
  "fst (getCodeWithErr kc F a s) = layered (cached_Code s a) (v_Code (below F s) a)"
  "fst (sd_FetchBlockHash F n s) = v_BlockHash (below F s) n"
  by (auto simp: read_defs cached_defs below_def zero_view_def observe_def or_else_def
      split: option.splits prod.splits sum.splits dest: arg_cong [where f = fst])

lemma state_fetcher_simps [simp]:
  "fetchStorage (state_fetcher kc F) = getStorageWithErr F"
  "fetchBalance (state_fetcher kc F) = getBalanceWithErr F"
  "fetchNonce (state_fetcher kc F) = (\<lambda>a s. (Inr (fst (sd_GetNonce F a s)), snd (sd_GetNonce F a s)))"
  "fetchCode (state_fetcher kc F) = getCodeWithErr kc F"
  "fetchBlockHash (state_fetcher kc F) = sd_FetchBlockHash F"
  by (auto simp: state_fetcher_def sd_FetchStorage_def sd_FetchBalance_def sd_FetchNonce_def
      sd_FetchCode_def fun_eq_iff split_beta)

lemma observe_state_fetcher: "observe (state_fetcher kc F) s = db_view F s"
  by (simp add: observe_def db_view_def fst_reads)

subsection \<open>Reading does not change the view\<close>

text \<open>What the reads leave alone, and the view of what they change.\<close>

lemma db_view_cong:
  assumes "below F s' = below F s"
    and "\<And>a k. layered (cached_Storage s' a k) (wrapped (v_Storage (below F s) a k))
      = layered (cached_Storage s a k) (wrapped (v_Storage (below F s) a k))"
    and "\<And>a. layered (cached_Balance s' a) (v_Balance (below F s) a)
      = layered (cached_Balance s a) (v_Balance (below F s) a)"
    and "\<And>a. layered (cached_Nonce s' a) (v_Nonce (below F s) a)
      = layered (cached_Nonce s a) (v_Nonce (below F s) a)"
    and "\<And>a. layered (cached_Code s' a) (v_Code (below F s) a)
      = layered (cached_Code s a) (v_Code (below F s) a)"
  shows "db_view F s' = db_view F s"
  by (simp add: db_view_def assms)

lemmas db_simps = Immutable_def below_def cached_defs

context fetch_source
begin

lemma below_step:
  assumes "sd_fetcher s = Some f" and "observe F f' = observe F f" and "sd_fetcher s' = Some f'"
  shows "below F s' = below F s"
  using assms by (simp add: below_def)

lemma stable_pair:
  "fetchStorage F a k f = (r, f') \<Longrightarrow> observe F f' = observe F f \<and> v_Storage (observe F f) a k = r"
  "fetchBalance F a f = (rb, f') \<Longrightarrow> observe F f' = observe F f \<and> v_Balance (observe F f) a = rb"
  "fetchNonce F a f = (rn, f') \<Longrightarrow> observe F f' = observe F f \<and> v_Nonce (observe F f) a = rn"
  "fetchCode F a f = (rc, f') \<Longrightarrow> observe F f' = observe F f \<and> v_Code (observe F f) a = rc"
  "fetchBlockHash F n f = (rh, f') \<Longrightarrow> observe F f' = observe F f \<and> v_BlockHash (observe F f) n = rh"
  using stable_storage [of a k f] stable_balance [of a f] stable_nonce [of a f] stable_code [of a f]
    stable_block_hash [of n f] by (auto simp: observe_def)

text \<open>Each read: either a layer answers and nothing changes, or the answer of the fetcher enters the
  backfill, where it hides the equal answer below.\<close>

lemma storage_read_view: "db_view F (snd (getStorageWithErr F a k s)) = db_view F s"
  by (auto simp: getStorageWithErr_def db_simps split: option.split prod.split sum.split
      intro!: db_view_cong dest!: stable_pair(1))

lemma balance_read_view: "db_view F (snd (getBalanceWithErr F a s)) = db_view F s"
  by (auto simp: getBalanceWithErr_def db_simps split: option.split prod.split sum.split
      intro!: db_view_cong dest!: stable_pair(2))

lemma nonce_read_view: "db_view F (snd (sd_GetNonce F a s)) = db_view F s"
  by (auto simp: sd_GetNonce_def db_simps split: option.split prod.split sum.split
      intro!: db_view_cong dest!: stable_pair(3))

lemma code_read_view: "db_view F (snd (getCodeWithErr kc F a s)) = db_view F s"
  by (auto simp: getCodeWithErr_def db_simps split: option.split prod.split sum.split
      intro!: db_view_cong dest!: stable_pair(4))

lemma block_hash_read_view: "db_view F (snd (sd_FetchBlockHash F n s)) = db_view F s"
  by (auto simp: sd_FetchBlockHash_def db_simps split: option.split prod.split
      intro!: db_view_cong dest!: stable_pair(5))

lemmas read_views = storage_read_view balance_read_view nonce_read_view code_read_view
  block_hash_read_view

text \<open>A database over a stable fetcher is a stable fetcher.\<close>

lemma overlay_source: "fetch_source (state_fetcher kc F)"
  by unfold_locales (simp_all add: observe_state_fetcher read_views)

end

subsection \<open>Sequences of reads\<close>

datatype db_read = Read_Storage address hash | Read_Balance address | Read_Nonce address
  | Read_Code address | Read_CodeHash address | Read_BlockHash "64 word"

fun do_read :: "keccak \<Rightarrow> 'f fetcher \<Rightarrow> db_read \<Rightarrow> 'f state_db \<Rightarrow> 'f state_db" where
  "do_read kc F (Read_Storage a k) s = snd (getStorageWithErr F a k s)"
| "do_read kc F (Read_Balance a) s = snd (getBalanceWithErr F a s)"
| "do_read kc F (Read_Nonce a) s = snd (sd_GetNonce F a s)"
| "do_read kc F (Read_Code a) s = snd (getCodeWithErr kc F a s)"
| "do_read kc F (Read_CodeHash a) s = snd (sd_GetCodeHash kc F a s)"
| "do_read kc F (Read_BlockHash n) s = snd (sd_FetchBlockHash F n s)"

lemma snd_sd_GetCode: "snd (sd_GetCode kc F a s) = snd (getCodeWithErr kc F a s)"
  by (simp add: sd_GetCode_def split: prod.split sum.split)

lemma fst_sd_GetCode: "fst (sd_GetCode kc F a s) = (case fst (getCodeWithErr kc F a s) of Inl e \<Rightarrow> [] | Inr c \<Rightarrow> c)"
  by (simp add: sd_GetCode_def split: prod.split sum.split)

lemma snd_sd_GetCodeHash:
  "snd (sd_GetCodeHash kc F a s) = s \<or> snd (sd_GetCodeHash kc F a s) = snd (getCodeWithErr kc F a s)"
  using snd_sd_GetCode [of kc F a s] by (auto simp: sd_GetCodeHash_def split: option.split prod.split)

context fetch_source
begin

lemma read_view: "db_view F (do_read kc F r s) = db_view F s"
  using snd_sd_GetCodeHash [of kc F _ s] by (cases r) (auto simp: read_views, metis code_read_view)

lemma reads_view: "db_view F (fold (do_read kc F) rs s) = db_view F s"
  by (induction rs arbitrary: s) (simp_all add: read_view)

end

subsection \<open>Overlays and overrides\<close>

text \<open>What a fresh overlay shows of its base: the same state, storage errors wrapped once more.\<close>

definition through_overlay :: "view \<Rightarrow> view" where
  "through_overlay v = v\<lparr>v_Storage := \<lambda>a k. wrapped (v_Storage v a k)\<rparr>"

definition override_view :: "parsed_override \<Rightarrow> view \<Rightarrow> view" where
  "override_view po v =
     v\<lparr>v_Storage := \<lambda>a k. (case (if a = po_Addr po then map_of (rev (po_Slots po)) k else None) of
          Some w \<Rightarrow> Inr w | None \<Rightarrow> v_Storage v a k),
       v_Balance := \<lambda>a. (case (if a = po_Addr po then po_Balance po else None) of
          Some b \<Rightarrow> Inr b | None \<Rightarrow> v_Balance v a),
       v_Nonce := \<lambda>a. (if a = po_Addr po \<and> (po_Code po \<noteq> None \<or> po_Balance po \<noteq> None)
          then Inr (po_Nonce po) else v_Nonce v a),
       v_Code := \<lambda>a. (if a = po_Addr po \<and> code_bytes (po_Code po) \<noteq> []
          then Inr (code_bytes (po_Code po)) else v_Code v a)\<rparr>"

text \<open>The primary layer of an overlay is the empty one, so that everything written is seen.\<close>

definition bare_layer :: "'f state_db \<Rightarrow> bool" where
  "bare_layer s = (Immutable s = NewImmutableState 0 0)"

lemma bare_layer_cached [simp]:
  assumes "bare_layer s"
  shows "cached_Storage s a k = nget (sd_bfStorage s) a k"
    and "cached_Balance s a = fmlookup (sd_bfBalance s) a"
    and "cached_Nonce s a = fmlookup (sd_bfNonce s) a"
    and "cached_Code s a = fmlookup (sd_bfCode s) a"
  using assms by (simp_all add: cached_defs bare_layer_def NewImmutableState_def im_GetStorage_def
      im_GetBalance_def im_GetNonce_def im_GetCode_def)

lemma bare_layer_NewOverlay [simp]: "bare_layer (NewOverlay s)"
  by (simp add: bare_layer_def NewOverlay_def NewStateDB_def Immutable_def)

lemma db_view_NewOverlay:
  "db_view (state_fetcher kc F) (NewOverlay s) = through_overlay (db_view F s)"
proof -
  have "below (state_fetcher kc F) (NewOverlay s) = db_view F s"
    by (simp add: below_def NewOverlay_def NewStateDB_def observe_state_fetcher)
  moreover have "Inr (or_zero (v_Nonce (db_view F s) a)) = v_Nonce (db_view F s) a" for a
    by (simp add: db_view_def)
  ultimately show ?thesis
    using bare_layer_NewOverlay [of s]
    by (auto simp: db_view_def [of "state_fetcher kc F"] through_overlay_def
        NewOverlay_def NewStateDB_def)
qed

lemma SetStorageSlots:
  "fold (\<lambda>(slot, value). SetStorageSlot a slot value) xs s =
    s\<lparr>sd_bfStorage := fold (\<lambda>(k, v). nset a k v) xs (sd_bfStorage s)\<rparr>"
  by (induction xs arbitrary: s) (auto simp: SetStorageSlot_def)

lemma nget_fold_nset:
  "nget (fold (\<lambda>(k, v). nset a k v) xs m) b k =
    (case (if b = a then map_of (rev xs) k else None) of Some v \<Rightarrow> Some v | None \<Rightarrow> nget m b k)"
  by (induction xs arbitrary: m) (auto simp: map_add_def split: option.splits)

lemma apply_override_view:
  assumes "bare_layer s"
  shows "bare_layer (apply_override kc po s) \<and> sd_fetcher (apply_override kc po s) = sd_fetcher s
    \<and> db_view F (apply_override kc po s) = override_view po (db_view F s)"
proof -
  have b: "bare_layer (apply_override kc po s)" and f: "sd_fetcher (apply_override kc po s) = sd_fetcher s"
    using assms by (auto simp: apply_override_def sd_SetAccount_def SetStorageSlots bare_layer_def
        Immutable_def Let_def split: option.split)
  moreover have "db_view F (apply_override kc po s) = override_view po (db_view F s)"
    unfolding db_view_def override_view_def bare_layer_cached [OF b] bare_layer_cached [OF assms]
    by (auto simp: fun_eq_iff below_def f apply_override_def sd_SetAccount_def SetStorageSlots
        nget_fold_nset Let_def code_bytes_def split: option.split)
  ultimately show ?thesis by simp
qed

lemma apply_overrides_view:
  assumes "bare_layer s"
  shows "bare_layer (fold (apply_override kc) pos s) \<and> sd_fetcher (fold (apply_override kc) pos s) = sd_fetcher s
    \<and> db_view F (fold (apply_override kc) pos s) = fold override_view pos (db_view F s)"
  using assms
proof (induction pos arbitrary: s)
  case (Cons po pos)
  from apply_override_view [OF Cons.prems, of kc po F] Cons.IH [of "apply_override kc po s"]
  show ?case by simp
qed simp

text \<open>Reads of an overlay reach its base only as reads: the view below does not change.\<close>

context fetch_source
begin

lemma reads_below_each:
  "below F (snd (getStorageWithErr F a k s)) = below F s"
  "below F (snd (getBalanceWithErr F a s)) = below F s"
  "below F (snd (sd_GetNonce F a s)) = below F s"
  "below F (snd (getCodeWithErr kc F a s)) = below F s"
  "below F (snd (sd_FetchBlockHash F n s)) = below F s"
  by (auto simp: read_defs below_def split: option.split prod.split sum.split dest!: stable_pair)

lemma read_below: "below F (do_read kc F r s) = below F s"
  using snd_sd_GetCodeHash [of kc F _ s] by (cases r) (auto simp: reads_below_each, metis reads_below_each(4))

lemma reads_below: "below F (fold (do_read kc F) rs s) = below F s"
  by (induction rs arbitrary: s) (simp_all add: read_below)

end

subsection \<open>The live database\<close>

text \<open>Loaded once, then reads and block diffs in any order.\<close>

definition hash_of_code :: "keccak \<Rightarrow> byte list option \<Rightarrow> hash option" where
  "hash_of_code kc c = (case c of None \<Rightarrow> None | Some bs \<Rightarrow> if bs = [] then None else Some (kc bs))"

definition hashes_match :: "keccak \<Rightarrow> immutable_state \<Rightarrow> bool" where
  "hashes_match kc im = (\<forall>a. im_GetCodeHash im a = hash_of_code kc (im_GetCode im a))"

inductive live_db :: "keccak \<Rightarrow> 'f fetcher \<Rightarrow> 'f state_db \<Rightarrow> bool" for kc F where
  live_load: "hashes_match kc im \<Longrightarrow> live_db kc F (SetImmutable im (NewStateDB f))"
| live_read: "live_db kc F s \<Longrightarrow> live_db kc F (do_read kc F r s)"
| live_diff: "live_db kc F s \<Longrightarrow> live_db kc F (ApplyBlockDiff kc d s)"

text \<open>The two layers never hold the same key, and each layer has the hashes of its code.\<close>

definition layers_ok :: "keccak \<Rightarrow> 'f state_db \<Rightarrow> bool" where
  "layers_ok kc s \<longleftrightarrow> sd_immutable s < length (sd_objects s)
    \<and> (\<forall>a k. im_GetStorage (Immutable s) a k = None \<or> nget (sd_bfStorage s) a k = None)
    \<and> (\<forall>a. im_GetBalance (Immutable s) a = None \<or> fmlookup (sd_bfBalance s) a = None)
    \<and> (\<forall>a. im_GetNonce (Immutable s) a = None \<or> fmlookup (sd_bfNonce s) a = None)
    \<and> (\<forall>a. im_GetCode (Immutable s) a = None \<or> fmlookup (sd_bfCode s) a = None)
    \<and> hashes_match kc (Immutable s)
    \<and> (\<forall>a. fmlookup (sd_bfCodeHash s) a = hash_of_code kc (fmlookup (sd_bfCode s) a))"

lemma hash_of_code_simps [simp]: "hash_of_code kc None = None"
  "hash_of_code kc (Some bs) = (if bs = [] then None else Some (kc bs))"
  by (simp_all add: hash_of_code_def)

lemma or_else_comm: "x = None \<or> y = None \<Longrightarrow> or_else x y = or_else y x"
  by auto

lemma layers_ok_load: "hashes_match kc im \<Longrightarrow> layers_ok kc (SetImmutable im (NewStateDB f))"
  by (simp add: layers_ok_def SetImmutable_def NewStateDB_def Immutable_def)

lemma layers_ok_read:
  assumes "layers_ok kc s"
  shows "layers_ok kc (snd (getStorageWithErr F a k s))" "layers_ok kc (snd (getBalanceWithErr F a s))"
    "layers_ok kc (snd (sd_GetNonce F a s))" "layers_ok kc (snd (getCodeWithErr kc F a s))"
    "layers_ok kc (snd (sd_FetchBlockHash F n s))"
  using assms by (simp_all add: read_defs layers_ok_def Immutable_def split: option.split prod.split sum.split)

lemma layers_ok_do_read: "layers_ok kc s \<Longrightarrow> layers_ok kc (do_read kc F r s)"
  using snd_sd_GetCodeHash [of kc F _ s] layers_ok_read [of kc s F]
  by (cases r) (auto, metis)

lemma Immutable_ApplyBlockDiff:
  assumes "layers_ok kc s"
  shows "Immutable (ApplyBlockDiff kc d s) =
    ApplyDiffInPlace kc d (sd_bfStorage s) (sd_bfCode s) (sd_bfBalance s) (sd_bfNonce s) (Immutable s)"
  using assms by (simp add: layers_ok_def ApplyBlockDiff_def Immutable_def)

lemma layers_ok_diff:
  assumes "layers_ok kc s"
  shows "layers_ok kc (ApplyBlockDiff kc d s)"
proof -
  have "hashes_match kc (Immutable (ApplyBlockDiff kc d s))"
    unfolding hashes_match_def Immutable_ApplyBlockDiff [OF assms] ApplyDiffInPlace_reads
  proof
    fix a
    have "im_GetCodeHash (Immutable s) a = hash_of_code kc (im_GetCode (Immutable s) a)"
      and "im_GetCode (Immutable s) a = None \<or> fmlookup (sd_bfCode s) a = None"
      using assms by (simp_all add: layers_ok_def hashes_match_def)
    then show "(case fmlookup (sd_bfCode s) a of
        None \<Rightarrow> im_GetCodeHash (Immutable s) a
      | Some c \<Rightarrow> if c = [] then im_GetCodeHash (Immutable s) a else Some (kc c)) =
      hash_of_code kc (or_else (fmlookup (sd_bfCode s) a) (im_GetCode (Immutable s) a))"
      by (auto split: option.split)
  qed
  then show ?thesis using assms by (simp add: layers_ok_def ApplyBlockDiff_def Immutable_def)
qed

lemma live_layers_ok: "live_db kc F s \<Longrightarrow> layers_ok kc s"
  by (induction rule: live_db.induct) (simp_all add: layers_ok_load layers_ok_do_read layers_ok_diff)

text \<open>A block diff changes what it names and nothing else.\<close>

definition diff_view :: "block_diff \<Rightarrow> view \<Rightarrow> view" where
  "diff_view d v =
     v\<lparr>v_Storage := \<lambda>a k. layered (nget (bd_Storage d) a k) (v_Storage v a k),
       v_Balance := \<lambda>a. layered (fmlookup (bd_Balance d) a) (v_Balance v a),
       v_Nonce := \<lambda>a. layered (fmlookup (bd_Nonce d) a) (v_Nonce v a)\<rparr>"

lemma layers_ok_order:
  assumes "layers_ok kc s"
  shows "or_else (nget (sd_bfStorage s) a k) (im_GetStorage (Immutable s) a k) = cached_Storage s a k"
    "or_else (fmlookup (sd_bfBalance s) a) (im_GetBalance (Immutable s) a) = cached_Balance s a"
    "or_else (fmlookup (sd_bfNonce s) a) (im_GetNonce (Immutable s) a) = cached_Nonce s a"
    "or_else (fmlookup (sd_bfCode s) a) (im_GetCode (Immutable s) a) = cached_Code s a"
  using assms unfolding cached_defs layers_ok_def by (metis or_else_comm)+

lemma ApplyBlockDiff_view:
  assumes "layers_ok kc s"
  shows "db_view F (ApplyBlockDiff kc d s) = diff_view d (db_view F s)"
proof -
  have bf: "sd_bfStorage (ApplyBlockDiff kc d s) = fmempty" "sd_bfCode (ApplyBlockDiff kc d s) = fmempty"
    "sd_bfBalance (ApplyBlockDiff kc d s) = fmempty" "sd_bfNonce (ApplyBlockDiff kc d s) = fmempty"
    "below F (ApplyBlockDiff kc d s) = below F s"
    by (simp_all add: ApplyBlockDiff_def below_def)
  have l: "layered (or_else x y) r = layered x (layered y r)" for x y :: "'b option" and r
    by (simp add: layered_def or_else_def split: option.split)
  have z: "Inr (or_zero (layered x r)) = layered x (Inr (or_zero r))" for x :: "64 word option" and r
    by (simp add: layered_def split: option.split)
  show ?thesis
    unfolding db_view_def [of F "ApplyBlockDiff kc d s"] cached_defs Immutable_ApplyBlockDiff [OF assms]
      ApplyDiffInPlace_reads bf
    by (simp add: layers_ok_order [OF assms] l z db_view_def diff_view_def)
qed

text \<open>The code hash is the hash of the code, and the zero hash for empty or unavailable code.\<close>

lemma GetCodeHash_correct:
  assumes "layers_ok kc s"
  shows "fst (sd_GetCodeHash kc F a s) = (case v_Code (db_view F s) a of
    Inl e \<Rightarrow> 0 | Inr c \<Rightarrow> if c = [] then 0 else kc c)"
proof -
  have im: "im_GetCodeHash (Immutable s) a = hash_of_code kc (im_GetCode (Immutable s) a)"
    and bf: "fmlookup (sd_bfCodeHash s) a = hash_of_code kc (fmlookup (sd_bfCode s) a)"
    and dj: "im_GetCode (Immutable s) a = None \<or> fmlookup (sd_bfCode s) a = None"
    using assms by (auto simp: layers_ok_def hashes_match_def)
  have "fst (sd_GetCodeHash kc F a s) = (case or_else (hash_of_code kc (im_GetCode (Immutable s) a))
      (hash_of_code kc (fmlookup (sd_bfCode s) a)) of Some h \<Rightarrow> h
    | None \<Rightarrow> (let code = fst (sd_GetCode kc F a s) in if code = [] then 0 else kc code))"
    by (simp add: sd_GetCodeHash_def im bf or_else_def split: option.split prod.split)
  also have "\<dots> = (case v_Code (db_view F s) a of Inl e \<Rightarrow> 0 | Inr c \<Rightarrow> if c = [] then 0 else kc c)"
    using dj by (auto simp: fst_sd_GetCode fst_reads db_view_def cached_Code_def hash_of_code_def
        or_else_def Let_def split: option.splits sum.splits)
  finally show ?thesis .
qed

subsection \<open>A node whose answers are fixed\<close>

text \<open>The plainest source: a state that answers by lookup.  Databases over it, and overlays over
  those, are sources again.\<close>

definition fixed_node :: "view fetcher" where
  "fixed_node = \<lparr>fetchStorage = \<lambda>a k v. (v_Storage v a k, v), fetchBalance = \<lambda>a v. (v_Balance v a, v),
     fetchNonce = \<lambda>a v. (v_Nonce v a, v), fetchCode = \<lambda>a v. (v_Code v a, v),
     fetchBlockHash = \<lambda>n v. (v_BlockHash v n, v)\<rparr>"

interpretation node: fetch_source fixed_node
  by unfold_locales (simp_all add: fixed_node_def observe_def)

interpretation database: fetch_source "state_fetcher kc fixed_node" for kc
  by (rule node.overlay_source)

interpretation overlay: fetch_source "state_fetcher kc (state_fetcher kc fixed_node)" for kc
  by (rule database.overlay_source)

end
