(* ===== verification/Call_State.thy ===== *)
theory Call_State
  imports State_View
begin

text \<open>
  The overlay of a single EVM call (\<open>statedb/callstate.go\<close>): per-call overrides over a state
  database, with a journal that undoes each mutation and snapshots that are journal lengths.  The
  fields the journal protects are grouped in the record \<open>call_overlay\<close>.  A Go pair
  \<open>(prev, had)\<close> is an option; a panic is \<open>None\<close>.
\<close>

record call_overlay =
  ov_storage :: storage_map
  ov_balance :: "(address, u256) fmap"
  ov_transient :: storage_map
  ov_addrs :: "(address, bool) fmap"
  ov_slots :: "(address, hash, bool) nested"
  ov_refund :: "64 word"
  ov_logs :: "evm_log list"

datatype journal_entry =
    journalStorageChange address hash "hash option"
  | journalBalanceChange address "u256 option"
  | journalRefundChange "64 word"
  | journalAccessListAddr address
  | journalAccessListSlot address hash bool
  | journalTransientChange address hash "hash option"
  | journalLogChange nat

text \<open>Writing into a missing inner map of a Go map panics.\<close>

definition nset_existing :: "'a \<Rightarrow> 'k \<Rightarrow> 'v \<Rightarrow> ('a, 'k, 'v) nested \<Rightarrow> ('a, 'k, 'v) nested option" where
  "nset_existing a k v m = (if fmlookup m a = None then None else Some (nset a k v m))"

fun revert :: "journal_entry \<Rightarrow> call_overlay \<Rightarrow> call_overlay option" where
  "revert (journalStorageChange addr key prev) s = (case prev of
     None \<Rightarrow> Some (s\<lparr>ov_storage := ndel addr key (ov_storage s)\<rparr>)
   | Some p \<Rightarrow> map_option (\<lambda>m. s\<lparr>ov_storage := m\<rparr>) (nset_existing addr key p (ov_storage s)))"
| "revert (journalBalanceChange addr prev) s = (case prev of
     None \<Rightarrow> Some (s\<lparr>ov_balance := fmdrop addr (ov_balance s)\<rparr>)
   | Some p \<Rightarrow> Some (s\<lparr>ov_balance := fmupd addr p (ov_balance s)\<rparr>))"
| "revert (journalRefundChange prev) s = Some (s\<lparr>ov_refund := prev\<rparr>)"
| "revert (journalAccessListAddr addr) s = Some (s\<lparr>ov_addrs := fmdrop addr (ov_addrs s)\<rparr>)"
| "revert (journalAccessListSlot addr slot hadAddr) s =
     (let s = s\<lparr>ov_slots := ndel addr slot (ov_slots s)\<rparr>
      in Some (if hadAddr then s else s\<lparr>ov_addrs := fmdrop addr (ov_addrs s)\<rparr>))"
| "revert (journalTransientChange addr key prev) s = (case prev of
     None \<Rightarrow> Some (s\<lparr>ov_transient := ndel addr key (ov_transient s)\<rparr>)
   | Some p \<Rightarrow> map_option (\<lambda>m. s\<lparr>ov_transient := m\<rparr>) (nset_existing addr key p (ov_transient s)))"
| "revert (journalLogChange prevLen) s =
     (if prevLen \<le> length (ov_logs s) then Some (s\<lparr>ov_logs := take prevLen (ov_logs s)\<rparr>) else None)"

record 'f call_state =
  cs_base :: "'f state_db"
  cs_ov :: call_overlay
  cs_journal :: "journal_entry list"
  cs_snapshots :: "nat list"
  cs_lastErr :: "string option"

definition empty_overlay :: call_overlay where
  "empty_overlay = \<lparr>ov_storage = fmempty, ov_balance = fmempty, ov_transient = fmempty,
     ov_addrs = fmempty, ov_slots = fmempty, ov_refund = 0, ov_logs = []\<rparr>"

definition NewCallState :: "'f state_db \<Rightarrow> 'f call_state" where
  "NewCallState base = \<lparr>cs_base = base, cs_ov = empty_overlay, cs_journal = [], cs_snapshots = [],
     cs_lastErr = None\<rparr>"

definition cs_Err :: "'f call_state \<Rightarrow> string option \<times> 'f call_state" where
  "cs_Err s = (cs_lastErr s, s\<lparr>cs_lastErr := None\<rparr>)"

definition cs_Reset :: "'f call_state \<Rightarrow> 'f call_state" where
  "cs_Reset s = s\<lparr>cs_ov := (cs_ov s)\<lparr>ov_storage := fmempty, ov_balance := fmempty, ov_refund := 0,
       ov_logs := []\<rparr>, cs_journal := [], cs_snapshots := [], cs_lastErr := None\<rparr>"

text \<open>Append an undo entry and update the protected fields.\<close>

definition record_change ::
  "journal_entry \<Rightarrow> (call_overlay \<Rightarrow> call_overlay) \<Rightarrow> 'f call_state \<Rightarrow> 'f call_state" where
  "record_change j f s = s\<lparr>cs_journal := cs_journal s @ [j], cs_ov := f (cs_ov s)\<rparr>"

subsection \<open>Storage and balances\<close>

definition cs_GetState :: "'f fetcher \<Rightarrow> address \<Rightarrow> hash \<Rightarrow> 'f call_state \<Rightarrow> hash \<times> 'f call_state" where
  "cs_GetState F addr key s =
     (case nget (ov_storage (cs_ov s)) addr key of
        Some val \<Rightarrow> (val, s)
      | None \<Rightarrow> (case getStorageWithErr F addr key (cs_base s) of
          (Inl err, b) \<Rightarrow> (0, s\<lparr>cs_base := b, cs_lastErr := Some err\<rparr>)
        | (Inr val, b) \<Rightarrow> (val, s\<lparr>cs_base := b\<rparr>)))"

definition cs_GetCommittedState ::
  "'f fetcher \<Rightarrow> address \<Rightarrow> hash \<Rightarrow> 'f call_state \<Rightarrow> hash \<times> 'f call_state" where
  "cs_GetCommittedState F addr key s =
     (case sd_GetState F addr key (cs_base s) of (v, b) \<Rightarrow> (v, s\<lparr>cs_base := b\<rparr>))"

definition cs_SetState :: "address \<Rightarrow> hash \<Rightarrow> hash \<Rightarrow> 'f call_state \<Rightarrow> 'f call_state" where
  "cs_SetState addr key value s =
     record_change (journalStorageChange addr key (nget (ov_storage (cs_ov s)) addr key))
       (\<lambda>ov. ov\<lparr>ov_storage := nset addr key value (ov_storage ov)\<rparr>) s"

definition cs_GetBalance :: "'f fetcher \<Rightarrow> address \<Rightarrow> 'f call_state \<Rightarrow> u256 \<times> 'f call_state" where
  "cs_GetBalance F addr s =
     (case fmlookup (ov_balance (cs_ov s)) addr of
        Some bal \<Rightarrow> (bal, s)
      | None \<Rightarrow> (case getBalanceWithErr F addr (cs_base s) of
          (Inl err, b) \<Rightarrow> (0, s\<lparr>cs_base := b, cs_lastErr := Some err\<rparr>)
        | (Inr val, b) \<Rightarrow> (val, s\<lparr>cs_base := b\<rparr>)))"

definition journal_balance :: "address \<Rightarrow> 'f call_state \<Rightarrow> 'f call_state" where
  "journal_balance addr s = s\<lparr>cs_journal := cs_journal s @
     [journalBalanceChange addr (fmlookup (ov_balance (cs_ov s)) addr)]\<rparr>"

definition put_balance :: "address \<Rightarrow> u256 \<Rightarrow> 'f call_state \<Rightarrow> 'f call_state" where
  "put_balance addr v s = s\<lparr>cs_ov := (cs_ov s)\<lparr>ov_balance := fmupd addr v (ov_balance (cs_ov s))\<rparr>\<rparr>"

definition cs_SubBalance :: "'f fetcher \<Rightarrow> address \<Rightarrow> u256 \<Rightarrow> 'f call_state \<Rightarrow> 'f call_state" where
  "cs_SubBalance F addr amount s =
     (case cs_GetBalance F addr (journal_balance addr s) of (bal, s) \<Rightarrow> put_balance addr (bal - amount) s)"

definition cs_AddBalance :: "'f fetcher \<Rightarrow> address \<Rightarrow> u256 \<Rightarrow> 'f call_state \<Rightarrow> 'f call_state" where
  "cs_AddBalance F addr amount s =
     (case cs_GetBalance F addr (journal_balance addr s) of (bal, s) \<Rightarrow> put_balance addr (bal + amount) s)"

subsection \<open>Code and nonce: the base answers\<close>

definition cs_GetCodeHash ::
  "keccak \<Rightarrow> 'f fetcher \<Rightarrow> address \<Rightarrow> 'f call_state \<Rightarrow> hash \<times> 'f call_state" where
  "cs_GetCodeHash kc F addr s =
     (case sd_GetCodeHash kc F addr (cs_base s) of (h, b) \<Rightarrow> (h, s\<lparr>cs_base := b\<rparr>))"

definition cs_GetCode ::
  "keccak \<Rightarrow> 'f fetcher \<Rightarrow> address \<Rightarrow> 'f call_state \<Rightarrow> byte list \<times> 'f call_state" where
  "cs_GetCode kc F addr s =
     (case getCodeWithErr kc F addr (cs_base s) of
        (Inl err, b) \<Rightarrow> ([], s\<lparr>cs_base := b, cs_lastErr := Some err\<rparr>)
      | (Inr code, b) \<Rightarrow> (code, s\<lparr>cs_base := b\<rparr>))"

definition cs_GetCodeSize ::
  "keccak \<Rightarrow> 'f fetcher \<Rightarrow> address \<Rightarrow> 'f call_state \<Rightarrow> nat \<times> 'f call_state" where
  "cs_GetCodeSize kc F addr s = (case cs_GetCode kc F addr s of (c, s) \<Rightarrow> (length c, s))"

definition cs_GetNonce :: "'f fetcher \<Rightarrow> address \<Rightarrow> 'f call_state \<Rightarrow> 64 word \<times> 'f call_state" where
  "cs_GetNonce F addr s =
     (case sd_GetNonce F addr (cs_base s) of (n, b) \<Rightarrow> (n, s\<lparr>cs_base := b\<rparr>))"

definition cs_GetBlockHash :: "'f fetcher \<Rightarrow> 64 word \<Rightarrow> 'f call_state \<Rightarrow> hash \<times> 'f call_state" where
  "cs_GetBlockHash F num s =
     (case sd_GetBlockHash F num (cs_base s) of (h, b) \<Rightarrow> (h, s\<lparr>cs_base := b\<rparr>))"

subsection \<open>Refund, transient storage, self-destruct, logs\<close>

definition cs_AddRefund :: "64 word \<Rightarrow> 'f call_state \<Rightarrow> 'f call_state" where
  "cs_AddRefund gas s = record_change (journalRefundChange (ov_refund (cs_ov s)))
     (\<lambda>ov. ov\<lparr>ov_refund := ov_refund ov + gas\<rparr>) s"

definition cs_SubRefund :: "64 word \<Rightarrow> 'f call_state \<Rightarrow> 'f call_state" where
  "cs_SubRefund gas s = record_change (journalRefundChange (ov_refund (cs_ov s)))
     (\<lambda>ov. ov\<lparr>ov_refund := ov_refund ov - gas\<rparr>) s"

definition cs_GetTransientState :: "address \<Rightarrow> hash \<Rightarrow> 'f call_state \<Rightarrow> hash" where
  "cs_GetTransientState addr key s =
     (case nget (ov_transient (cs_ov s)) addr key of None \<Rightarrow> 0 | Some v \<Rightarrow> v)"

definition cs_SetTransientState :: "address \<Rightarrow> hash \<Rightarrow> hash \<Rightarrow> 'f call_state \<Rightarrow> 'f call_state" where
  "cs_SetTransientState addr key value s =
     record_change (journalTransientChange addr key (nget (ov_transient (cs_ov s)) addr key))
       (\<lambda>ov. ov\<lparr>ov_transient := nset addr key value (ov_transient ov)\<rparr>) s"

definition cs_SelfDestruct :: "address \<Rightarrow> 'f call_state \<Rightarrow> 'f call_state" where
  "cs_SelfDestruct addr s = put_balance addr 0 (journal_balance addr s)"

definition cs_AddLog :: "evm_log \<Rightarrow> 'f call_state \<Rightarrow> 'f call_state" where
  "cs_AddLog l s = record_change (journalLogChange (length (ov_logs (cs_ov s))))
     (\<lambda>ov. ov\<lparr>ov_logs := ov_logs ov @ [l]\<rparr>) s"

subsection \<open>Account queries\<close>

definition cs_Exist :: "keccak \<Rightarrow> 'f fetcher \<Rightarrow> address \<Rightarrow> 'f call_state \<Rightarrow> bool \<times> 'f call_state" where
  "cs_Exist kc F addr s =
     (case cs_GetCodeSize kc F addr s of (n, s) \<Rightarrow>
        if 0 < n then (True, s)
        else (case cs_GetBalance F addr s of (bal, s) \<Rightarrow> (if 0 <s bal then (True, s) else (False, s))))"

definition cs_Empty :: "keccak \<Rightarrow> 'f fetcher \<Rightarrow> address \<Rightarrow> 'f call_state \<Rightarrow> bool \<times> 'f call_state" where
  "cs_Empty kc F addr s =
     (case cs_GetBalance F addr s of (bal, s) \<Rightarrow>
        if bal \<noteq> 0 then (False, s)
        else (case cs_GetNonce F addr s of (n, s) \<Rightarrow>
          if n \<noteq> 0 then (False, s)
          else (case cs_GetCodeSize kc F addr s of (c, s) \<Rightarrow> (c = 0, s))))"

subsection \<open>Access list\<close>

text \<open>Reading a missing key of a Go map of booleans gives false.\<close>

definition flag :: "bool option \<Rightarrow> bool" where
  "flag b = (b = Some True)"

definition cs_AddressInAccessList :: "address \<Rightarrow> 'f call_state \<Rightarrow> bool" where
  "cs_AddressInAccessList addr s = flag (fmlookup (ov_addrs (cs_ov s)) addr)"

definition cs_SlotInAccessList :: "address \<Rightarrow> hash \<Rightarrow> 'f call_state \<Rightarrow> bool \<times> bool" where
  "cs_SlotInAccessList addr slot s =
     (flag (fmlookup (ov_addrs (cs_ov s)) addr), flag (nget (ov_slots (cs_ov s)) addr slot))"

definition cs_AddAddressToAccessList :: "address \<Rightarrow> 'f call_state \<Rightarrow> 'f call_state" where
  "cs_AddAddressToAccessList addr s =
     (let s = (if \<not> flag (fmlookup (ov_addrs (cs_ov s)) addr)
               then s\<lparr>cs_journal := cs_journal s @ [journalAccessListAddr addr]\<rparr> else s)
      in s\<lparr>cs_ov := (cs_ov s)\<lparr>ov_addrs := fmupd addr True (ov_addrs (cs_ov s))\<rparr>\<rparr>)"

definition cs_AddSlotToAccessList :: "address \<Rightarrow> hash \<Rightarrow> 'f call_state \<Rightarrow> 'f call_state" where
  "cs_AddSlotToAccessList addr slot s =
     (let hadAddr = flag (fmlookup (ov_addrs (cs_ov s)) addr);
          hadSlot = flag (nget (ov_slots (cs_ov s)) addr slot);
          s = (if \<not> hadSlot
               then s\<lparr>cs_journal := cs_journal s @ [journalAccessListSlot addr slot hadAddr]\<rparr> else s)
      in s\<lparr>cs_ov := (cs_ov s)\<lparr>ov_addrs := fmupd addr True (ov_addrs (cs_ov s)),
                             ov_slots := nset addr slot True (ov_slots (cs_ov s))\<rparr>\<rparr>)"

definition mark_addr :: "address \<Rightarrow> call_overlay \<Rightarrow> call_overlay" where
  "mark_addr addr ov = ov\<lparr>ov_addrs := fmupd addr True (ov_addrs ov)\<rparr>"

definition mark_slot :: "address \<Rightarrow> hash \<Rightarrow> call_overlay \<Rightarrow> call_overlay" where
  "mark_slot addr slot ov = ov\<lparr>ov_slots := nset addr slot True (ov_slots ov)\<rparr>"

definition cs_Prepare ::
  "address \<Rightarrow> address \<Rightarrow> address option \<Rightarrow> address list \<Rightarrow> (address \<times> hash list) list
    \<Rightarrow> 'f call_state \<Rightarrow> 'f call_state" where
  "cs_Prepare sender coinbase dest precompiles txAccesses s =
     (let ov = (cs_ov s)\<lparr>ov_addrs := fmempty, ov_slots := fmempty, ov_transient := fmempty\<rparr>;
          ov = mark_addr sender ov;
          ov = (case dest of None \<Rightarrow> ov | Some d \<Rightarrow> mark_addr d ov);
          ov = mark_addr coinbase ov;
          ov = fold mark_addr precompiles ov;
          ov = fold (\<lambda>(addr, keys) ov. fold (mark_slot addr) keys (mark_addr addr ov)) txAccesses ov
      in s\<lparr>cs_ov := ov\<rparr>)"

subsection \<open>Snapshots\<close>

definition cs_Snapshot :: "'f call_state \<Rightarrow> nat \<times> 'f call_state" where
  "cs_Snapshot s = (length (cs_snapshots s),
     s\<lparr>cs_snapshots := cs_snapshots s @ [length (cs_journal s)]\<rparr>)"

definition cs_RevertToSnapshot :: "nat \<Rightarrow> 'f call_state \<Rightarrow> 'f call_state option" where
  "cs_RevertToSnapshot i s =
     (if length (cs_snapshots s) \<le> i then None
      else let target = cs_snapshots s ! i
           in do {
             ov \<leftarrow> foldo revert (rev (drop target (cs_journal s))) (cs_ov s);
             (if target \<le> length (cs_journal s)
              then Some (s\<lparr>cs_snapshots := take i (cs_snapshots s), cs_ov := ov,
                           cs_journal := take target (cs_journal s)\<rparr>)
              else None)
           })"

end
