(* ===== verification/Call_Journal.thy ===== *)
theory Call_Journal
  imports Call_State
begin

text \<open>
  The journal of the call state restores every snapshot.  A run of the EVM is a sequence of
  operations, nested snapshots and reverts (\<open>evm_run\<close>, a step relation); its invariant says that
  undoing the entries added since the snapshot leads, through well-formed overlays only, back to
  the overlay of the snapshot.
\<close>

named_theorems call_ops

datatype cs_op =
    Op_GetState address hash | Op_GetCommittedState address hash | Op_GetBalance address
  | Op_GetCode address | Op_GetCodeHash address | Op_GetNonce address | Op_GetBlockHash "64 word"
  | Op_SetState address hash hash | Op_SubBalance address u256 | Op_AddBalance address u256
  | Op_SelfDestruct address | Op_AddRefund "64 word" | Op_SubRefund "64 word"
  | Op_SetTransientState address hash hash | Op_AddAddress address | Op_AddSlot address hash
  | Op_AddLog evm_log

fun cs_do :: "keccak \<Rightarrow> 'f fetcher \<Rightarrow> cs_op \<Rightarrow> 'f call_state \<Rightarrow> 'f call_state" where
  "cs_do kc F (Op_GetState a k) s = snd (cs_GetState F a k s)"
| "cs_do kc F (Op_GetCommittedState a k) s = snd (cs_GetCommittedState F a k s)"
| "cs_do kc F (Op_GetBalance a) s = snd (cs_GetBalance F a s)"
| "cs_do kc F (Op_GetCode a) s = snd (cs_GetCode kc F a s)"
| "cs_do kc F (Op_GetCodeHash a) s = snd (cs_GetCodeHash kc F a s)"
| "cs_do kc F (Op_GetNonce a) s = snd (cs_GetNonce F a s)"
| "cs_do kc F (Op_GetBlockHash n) s = snd (cs_GetBlockHash F n s)"
| "cs_do kc F (Op_SetState a k v) s = cs_SetState a k v s"
| "cs_do kc F (Op_SubBalance a v) s = cs_SubBalance F a v s"
| "cs_do kc F (Op_AddBalance a v) s = cs_AddBalance F a v s"
| "cs_do kc F (Op_SelfDestruct a) s = cs_SelfDestruct a s"
| "cs_do kc F (Op_AddRefund g) s = cs_AddRefund g s"
| "cs_do kc F (Op_SubRefund g) s = cs_SubRefund g s"
| "cs_do kc F (Op_SetTransientState a k v) s = cs_SetTransientState a k v s"
| "cs_do kc F (Op_AddAddress a) s = cs_AddAddressToAccessList a s"
| "cs_do kc F (Op_AddSlot a k) s = cs_AddSlotToAccessList a k s"
| "cs_do kc F (Op_AddLog l) s = cs_AddLog l s"

text \<open>What happens between a snapshot and its revert; ids below \<open>n\<close> belong to outer calls.\<close>

inductive evm_run :: "keccak \<Rightarrow> 'f fetcher \<Rightarrow> nat \<Rightarrow> 'f call_state \<Rightarrow> 'f call_state \<Rightarrow> bool"
  for kc F n s where
  run_start: "evm_run kc F n s s"
| run_op: "evm_run kc F n s t \<Longrightarrow> evm_run kc F n s (cs_do kc F op t)"
| run_snapshot: "evm_run kc F n s t \<Longrightarrow> evm_run kc F n s (snd (cs_Snapshot t))"
| run_revert: "evm_run kc F n s t \<Longrightarrow> n \<le> i \<Longrightarrow> cs_RevertToSnapshot i t = Some u \<Longrightarrow> evm_run kc F n s u"

subsection \<open>Well-formed overlays\<close>

definition ov_ok :: "call_overlay \<Rightarrow> bool" where
  "ov_ok ov \<longleftrightarrow> no_empty (ov_storage ov) \<and> no_empty (ov_transient ov) \<and> no_empty (ov_slots ov)
    \<and> (\<forall>a. fmlookup (ov_addrs ov) a \<noteq> Some False)
    \<and> (\<forall>a k. nget (ov_slots ov) a k \<noteq> Some False)
    \<and> (\<forall>a k. nget (ov_slots ov) a k = None \<or> fmlookup (ov_addrs ov) a = Some True)"

lemma ov_ok_flags:
  assumes "ov_ok ov"
  shows "\<not> flag (fmlookup (ov_addrs ov) a) \<longleftrightarrow> fmlookup (ov_addrs ov) a = None"
    and "\<not> flag (nget (ov_slots ov) a k) \<longleftrightarrow> nget (ov_slots ov) a k = None"
proof -
  have b: "x \<noteq> Some False \<Longrightarrow> \<not> flag x \<longleftrightarrow> x = None" for x by (cases x) (auto simp: flag_def)
  show "\<not> flag (fmlookup (ov_addrs ov) a) \<longleftrightarrow> fmlookup (ov_addrs ov) a = None"
    and "\<not> flag (nget (ov_slots ov) a k) \<longleftrightarrow> nget (ov_slots ov) a k = None"
    using assms by (auto simp: ov_ok_def intro!: b)
qed

definition revert_ok :: "journal_entry \<Rightarrow> call_overlay \<Rightarrow> call_overlay option" where
  "revert_ok j ov = do { ov' \<leftarrow> revert j ov; (if ov_ok ov' then Some ov' else None) }"

lemma foldo_revert_ok: "foldo revert_ok js ov = Some ov' \<Longrightarrow> foldo revert js ov = Some ov'"
  by (induction js arbitrary: ov) (auto simp: revert_ok_def bind_eq_Some_conv split: if_splits)

lemma foldo_revert_ok_wf: "foldo revert_ok js ov = Some ov' \<Longrightarrow> ov_ok ov \<Longrightarrow> ov_ok ov'"
  by (rule foldo_inv [where P = ov_ok]) (auto simp: revert_ok_def bind_eq_Some_conv split: if_splits)

text \<open>An operation changes the overlay by entries that undo the change.\<close>

definition undone_by :: "journal_entry list \<Rightarrow> call_overlay \<Rightarrow> call_overlay \<Rightarrow> bool" where
  "undone_by js ov ov' \<longleftrightarrow> ov_ok ov' \<and> foldo revert_ok (rev js) ov' = Some ov"

lemma undone_by_none: "ov_ok ov \<Longrightarrow> undone_by [] ov ov"
  by (simp add: undone_by_def)

lemma undone_by_one: "ov_ok ov \<Longrightarrow> ov_ok ov' \<Longrightarrow> revert j ov' = Some ov \<Longrightarrow> undone_by [j] ov ov'"
  by (simp add: undone_by_def revert_ok_def)

lemma undone_by_trans: "undone_by js ov ov' \<Longrightarrow> undone_by ks ov' ov'' \<Longrightarrow> undone_by (js @ ks) ov ov''"
  by (auto simp: undone_by_def foldo_append)

subsection \<open>Each change is undone by its entry\<close>

lemma undo_storage:
  assumes "ov_ok ov"
  shows "undone_by [journalStorageChange a k (nget (ov_storage ov) a k)] ov
    (ov\<lparr>ov_storage := nset a k v (ov_storage ov)\<rparr>)"
proof (rule undone_by_one [OF assms])
  show "ov_ok (ov\<lparr>ov_storage := nset a k v (ov_storage ov)\<rparr>)" using assms by (simp add: ov_ok_def)
  obtain m where "fmlookup (nset a k v (ov_storage ov)) a = Some m" by (simp add: nset_def)
  moreover have "no_empty (ov_storage ov)" using assms by (simp add: ov_ok_def)
  ultimately show "revert (journalStorageChange a k (nget (ov_storage ov) a k)) (ov\<lparr>ov_storage := nset a k v (ov_storage ov)\<rparr>) = Some ov"
    by (simp add: nset_existing_def ndel_nset nset_back split: option.split)
qed

lemma undo_transient:
  assumes "ov_ok ov"
  shows "undone_by [journalTransientChange a k (nget (ov_transient ov) a k)] ov
    (ov\<lparr>ov_transient := nset a k v (ov_transient ov)\<rparr>)"
proof (rule undone_by_one [OF assms])
  show "ov_ok (ov\<lparr>ov_transient := nset a k v (ov_transient ov)\<rparr>)" using assms by (simp add: ov_ok_def)
  obtain m where "fmlookup (nset a k v (ov_transient ov)) a = Some m" by (simp add: nset_def)
  moreover have "no_empty (ov_transient ov)" using assms by (simp add: ov_ok_def)
  ultimately show "revert (journalTransientChange a k (nget (ov_transient ov) a k)) (ov\<lparr>ov_transient := nset a k v (ov_transient ov)\<rparr>) = Some ov"
    by (simp add: nset_existing_def ndel_nset nset_back split: option.split)
qed

lemma undo_balance:
  assumes "ov_ok ov"
  shows "undone_by [journalBalanceChange a (fmlookup (ov_balance ov) a)] ov
    (ov\<lparr>ov_balance := fmupd a v (ov_balance ov)\<rparr>)"
proof (rule undone_by_one [OF assms])
  show "ov_ok (ov\<lparr>ov_balance := fmupd a v (ov_balance ov)\<rparr>)" using assms by (simp add: ov_ok_def)
qed (simp add: fmupd_same fmdrop_upd_fresh split: option.split)

lemma undo_refund: "ov_ok ov \<Longrightarrow> undone_by [journalRefundChange (ov_refund ov)] ov (ov\<lparr>ov_refund := g\<rparr>)"
  by (rule undone_by_one) (simp_all add: ov_ok_def)

lemma undo_log:
  "ov_ok ov \<Longrightarrow> undone_by [journalLogChange (length (ov_logs ov))] ov (ov\<lparr>ov_logs := ov_logs ov @ [l]\<rparr>)"
  by (rule undone_by_one) (simp_all add: ov_ok_def)

lemma undo_addr:
  assumes "ov_ok ov" and "\<not> flag (fmlookup (ov_addrs ov) a)"
  shows "undone_by [journalAccessListAddr a] ov (ov\<lparr>ov_addrs := fmupd a True (ov_addrs ov)\<rparr>)"
  using assms ov_ok_flags(1) [OF assms(1)]
  by (intro undone_by_one) (simp_all add: ov_ok_def fmdrop_upd_fresh)

lemma undo_slot:
  assumes "ov_ok ov" and "\<not> flag (nget (ov_slots ov) a k)"
  shows "undone_by [journalAccessListSlot a k (flag (fmlookup (ov_addrs ov) a))] ov
    (ov\<lparr>ov_addrs := fmupd a True (ov_addrs ov), ov_slots := nset a k True (ov_slots ov)\<rparr>)"
proof (rule undone_by_one [OF assms(1)])
  have n: "nget (ov_slots ov) a k = None" using assms ov_ok_flags(2) by blast
  have e: "no_empty (ov_slots ov)" using assms(1) by (simp add: ov_ok_def)
  show "ov_ok (ov\<lparr>ov_addrs := fmupd a True (ov_addrs ov), ov_slots := nset a k True (ov_slots ov)\<rparr>)"
    using assms(1) by (simp add: ov_ok_def)
  show "revert (journalAccessListSlot a k (flag (fmlookup (ov_addrs ov) a)))
      (ov\<lparr>ov_addrs := fmupd a True (ov_addrs ov), ov_slots := nset a k True (ov_slots ov)\<rparr>) = Some ov"
  proof (cases "flag (fmlookup (ov_addrs ov) a)")
    case True
    then show ?thesis by (simp add: ndel_nset [OF e n] Let_def flag_def fmupd_same)
  next
    case False
    with ov_ok_flags(1) [OF assms(1)] have "fmlookup (ov_addrs ov) a = None" by blast
    with False show ?thesis by (simp add: ndel_nset [OF e n] Let_def fmdrop_upd_fresh)
  qed
qed

text \<open>Marking again what is marked changes nothing.\<close>

lemma remark:
  assumes "ov_ok ov"
  shows "flag (fmlookup (ov_addrs ov) a) \<Longrightarrow> ov\<lparr>ov_addrs := fmupd a True (ov_addrs ov)\<rparr> = ov"
    and "flag (nget (ov_slots ov) a k) \<Longrightarrow>
      ov\<lparr>ov_addrs := fmupd a True (ov_addrs ov), ov_slots := nset a k True (ov_slots ov)\<rparr> = ov"
proof -
  show "flag (fmlookup (ov_addrs ov) a) \<Longrightarrow> ov\<lparr>ov_addrs := fmupd a True (ov_addrs ov)\<rparr> = ov"
    by (simp add: flag_def fmupd_same)
  assume h: "flag (nget (ov_slots ov) a k)"
  then have "nget (ov_slots ov) a k \<noteq> None" by (auto simp: flag_def)
  then have a: "fmlookup (ov_addrs ov) a = Some True" using assms unfolding ov_ok_def by metis
  from h obtain m where m: "fmlookup (ov_slots ov) a = Some m" "fmlookup m k = Some True"
    by (auto simp: flag_def nget_def split: option.splits)
  then have "nset a k True (ov_slots ov) = ov_slots ov" by (simp add: nset_def inner_def fmupd_same)
  with a show "ov\<lparr>ov_addrs := fmupd a True (ov_addrs ov), ov_slots := nset a k True (ov_slots ov)\<rparr> = ov"
    by (simp add: fmupd_same)
qed

subsection \<open>Every operation\<close>

text \<open>What an operation does to the journal, the overlay and the snapshots.\<close>

definition logged :: "'f call_state \<Rightarrow> 'f call_state \<Rightarrow> bool" where
  "logged s t \<longleftrightarrow> cs_snapshots t = cs_snapshots s
    \<and> (\<exists>js. cs_journal t = cs_journal s @ js \<and> undone_by js (cs_ov s) (cs_ov t))"

lemma logged_same:
  "ov_ok (cs_ov s) \<Longrightarrow> cs_ov t = cs_ov s \<Longrightarrow> cs_journal t = cs_journal s \<Longrightarrow> cs_snapshots t = cs_snapshots s
    \<Longrightarrow> logged s t"
  by (auto simp: logged_def undone_by_none)

lemma logged_one:
  "cs_journal t = cs_journal s @ [j] \<Longrightarrow> cs_snapshots t = cs_snapshots s \<Longrightarrow> undone_by [j] (cs_ov s) (cs_ov t)
    \<Longrightarrow> logged s t"
  by (auto simp: logged_def)

lemma cs_read_fields:
  "cs_ov (snd (cs_GetState F a k s)) = cs_ov s" "cs_journal (snd (cs_GetState F a k s)) = cs_journal s"
  "cs_snapshots (snd (cs_GetState F a k s)) = cs_snapshots s"
  "cs_ov (snd (cs_GetBalance F a s)) = cs_ov s" "cs_journal (snd (cs_GetBalance F a s)) = cs_journal s"
  "cs_snapshots (snd (cs_GetBalance F a s)) = cs_snapshots s"
  "cs_ov (snd (cs_GetCode kc F a s)) = cs_ov s" "cs_journal (snd (cs_GetCode kc F a s)) = cs_journal s"
  "cs_snapshots (snd (cs_GetCode kc F a s)) = cs_snapshots s"
  by (simp_all add: cs_GetState_def cs_GetBalance_def cs_GetCode_def split: option.split prod.split sum.split)

lemma logged_op:
  assumes "ov_ok (cs_ov s)"
  shows "logged s (cs_do kc F op s)"
proof (cases op)
  case (Op_SubBalance a v)
  let ?b = "cs_GetBalance F a (journal_balance a s)"
  have "undone_by [journalBalanceChange a (fmlookup (ov_balance (cs_ov s)) a)] (cs_ov s)
    ((cs_ov s)\<lparr>ov_balance := fmupd a (fst ?b - v) (ov_balance (cs_ov s))\<rparr>)" by (rule undo_balance [OF assms])
  then show ?thesis
    by (intro logged_one) (auto simp: Op_SubBalance cs_SubBalance_def split_beta put_balance_def
        cs_read_fields journal_balance_def)
next
  case (Op_AddBalance a v)
  let ?b = "cs_GetBalance F a (journal_balance a s)"
  have "undone_by [journalBalanceChange a (fmlookup (ov_balance (cs_ov s)) a)] (cs_ov s)
    ((cs_ov s)\<lparr>ov_balance := fmupd a (fst ?b + v) (ov_balance (cs_ov s))\<rparr>)" by (rule undo_balance [OF assms])
  then show ?thesis
    by (intro logged_one) (auto simp: Op_AddBalance cs_AddBalance_def split_beta put_balance_def
        cs_read_fields journal_balance_def)
next
  case (Op_AddAddress a)
  show ?thesis
  proof (cases "flag (fmlookup (ov_addrs (cs_ov s)) a)")
    case True
    then show ?thesis using remark(1) [OF assms True] assms
      by (intro logged_same) (simp_all add: Op_AddAddress cs_AddAddressToAccessList_def)
  next
    case False
    then show ?thesis using undo_addr [OF assms False]
      by (intro logged_one) (simp_all add: Op_AddAddress cs_AddAddressToAccessList_def)
  qed
next
  case (Op_AddSlot a k)
  show ?thesis
  proof (cases "flag (nget (ov_slots (cs_ov s)) a k)")
    case True
    then show ?thesis using remark(2) [OF assms True] assms
      by (intro logged_same) (simp_all add: Op_AddSlot cs_AddSlotToAccessList_def)
  next
    case False
    then show ?thesis using undo_slot [OF assms False]
      by (intro logged_one) (simp_all add: Op_AddSlot cs_AddSlotToAccessList_def)
  qed
next
  case (Op_SelfDestruct a)
  then show ?thesis using undo_balance [OF assms, of a 0]
    by (intro logged_one) (simp_all add: cs_SelfDestruct_def put_balance_def journal_balance_def)
qed (auto intro: logged_one logged_same intro!: undo_storage undo_transient undo_refund undo_log assms
    simp: cs_SetState_def cs_SetTransientState_def cs_AddRefund_def cs_SubRefund_def cs_AddLog_def
      record_change_def cs_read_fields cs_GetCommittedState_def cs_GetCodeHash_def cs_GetNonce_def
      cs_GetBlockHash_def split_beta assms)

subsection \<open>Runs\<close>

text \<open>The invariant of a run from \<open>s\<close>: the snapshots of \<open>s\<close> are kept, the later ones are
  increasing journal lengths, and the entries since \<open>s\<close> undo the run.\<close>

definition run_inv :: "'f call_state \<Rightarrow> 'f call_state \<Rightarrow> bool" where
  "run_inv s t \<longleftrightarrow> (\<exists>js ns. cs_journal t = cs_journal s @ js \<and> undone_by js (cs_ov s) (cs_ov t)
    \<and> cs_snapshots t = cs_snapshots s @ ns \<and> sorted ns
    \<and> (\<forall>m\<in>set ns. length (cs_journal s) \<le> m \<and> m \<le> length (cs_journal t)))"

lemma run_inv_start: "ov_ok (cs_ov s) \<Longrightarrow> run_inv s s"
  by (auto simp: run_inv_def undone_by_none)

lemma run_inv_wf: "run_inv s t \<Longrightarrow> ov_ok (cs_ov t)"
  by (auto simp: run_inv_def undone_by_def)

lemma run_inv_logged:
  assumes "run_inv s t" and "logged t u"
  shows "run_inv s u"
  using assms undone_by_trans unfolding run_inv_def logged_def by fastforce

lemma run_inv_snapshot:
  assumes "run_inv s t"
  shows "run_inv s (snd (cs_Snapshot t))"
proof -
  from assms obtain js ns where r: "cs_journal t = cs_journal s @ js" "undone_by js (cs_ov s) (cs_ov t)"
    "cs_snapshots t = cs_snapshots s @ ns" "sorted ns"
    "\<forall>m\<in>set ns. length (cs_journal s) \<le> m \<and> m \<le> length (cs_journal t)"
    unfolding run_inv_def by blast
  then show ?thesis unfolding run_inv_def
    by (intro exI [of _ js] exI [of _ "ns @ [length (cs_journal t)]"])
      (auto simp: cs_Snapshot_def sorted_append)
qed

lemma run_inv_revert:
  assumes inv: "run_inv s t" and i: "length (cs_snapshots s) \<le> i" "i < length (cs_snapshots t)"
  shows "\<exists>u. cs_RevertToSnapshot i t = Some u \<and> run_inv s u
    \<and> cs_snapshots u = take i (cs_snapshots t)
    \<and> cs_journal u = take (cs_snapshots t ! i) (cs_journal t)"
proof -
  from inv obtain js ns where j: "cs_journal t = cs_journal s @ js" and un: "undone_by js (cs_ov s) (cs_ov t)"
    and sn: "cs_snapshots t = cs_snapshots s @ ns" and so: "sorted ns"
    and bd: "\<forall>m\<in>set ns. length (cs_journal s) \<le> m \<and> m \<le> length (cs_journal t)"
    unfolding run_inv_def by blast
  define n where "n = i - length (cs_snapshots s)"
  define target where "target = cs_snapshots t ! i"
  have nl: "n < length ns" and tn: "target = ns ! n"
    using i sn by (auto simp: n_def target_def nth_append)
  then have tb: "length (cs_journal s) \<le> target" "target \<le> length (cs_journal t)" using bd by auto
  define d where "d = target - length (cs_journal s)"
  have split: "rev js = rev (drop d js) @ rev (take d js)" by (simp flip: rev_append)
  have dr: "drop target (cs_journal t) = drop d js" using tb(1) j by (simp add: d_def)
  from un split obtain ov where ov: "foldo revert_ok (rev (drop d js)) (cs_ov t) = Some ov"
    "foldo revert_ok (rev (take d js)) ov = Some (cs_ov s)"
    by (auto simp: undone_by_def foldo_append bind_eq_Some_conv)
  have "ov_ok ov" using foldo_revert_ok_wf [OF ov(1)] un by (simp add: undone_by_def)
  with ov(2) have un': "undone_by (take d js) (cs_ov s) ov" by (simp add: undone_by_def)
  define u where "u = t\<lparr>cs_snapshots := take i (cs_snapshots t), cs_ov := ov,
    cs_journal := take target (cs_journal t)\<rparr>"
  have "cs_RevertToSnapshot i t = Some u"
    using i tb(2) foldo_revert_ok [OF ov(1)]
    by (simp add: cs_RevertToSnapshot_def u_def dr flip: target_def)
  moreover have "run_inv s u"
    unfolding run_inv_def
  proof (intro exI [of _ "take d js"] exI [of _ "take n ns"] conjI ballI)
    show "cs_journal u = cs_journal s @ take d js" using tb(1) j by (simp add: u_def d_def)
    show "undone_by (take d js) (cs_ov s) (cs_ov u)" using un' by (simp add: u_def)
    show "cs_snapshots u = cs_snapshots s @ take n ns" using i(1) sn by (simp add: u_def n_def)
    show "sorted (take n ns)" using so by (rule sorted_wrt_take)
    fix m assume m: "m \<in> set (take n ns)"
    then have "m \<in> set ns" by (rule in_set_takeD)
    with bd show "length (cs_journal s) \<le> m" by blast
    obtain p where p: "p < n" "m = ns ! p" using m nl by (auto simp: in_set_conv_nth)
    then have "m \<le> target" using so nl tn by (simp add: sorted_nth_mono)
    then show "m \<le> length (cs_journal u)" using tb(2) by (simp add: u_def)
  qed
  ultimately show ?thesis by (auto simp: u_def target_def)
qed

lemma evm_run_inv:
  assumes "evm_run kc F n s t" and "ov_ok (cs_ov s)" and "n = length (cs_snapshots s)"
  shows "run_inv s t"
  using assms(1)
proof induction
  case run_start
  show ?case by (rule run_inv_start [OF assms(2)])
next
  case (run_op t op)
  from run_inv_logged [OF run_op.IH logged_op [OF run_inv_wf [OF run_op.IH]]] show ?case .
next
  case (run_snapshot t)
  from run_inv_snapshot [OF run_snapshot.IH] show ?case .
next
  case (run_revert t i u)
  then have "i < length (cs_snapshots t)"
    by (auto simp: cs_RevertToSnapshot_def split: if_splits)
  moreover have "length (cs_snapshots s) \<le> i" using run_revert.hyps assms(3) by simp
  ultimately obtain u' where "cs_RevertToSnapshot i t = Some u'" "run_inv s u'"
    using run_inv_revert [OF run_revert.IH] by blast
  with run_revert.hyps show ?case by simp
qed

text \<open>Reverting to a snapshot after any run restores the protected fields, the journal and the
  snapshots.\<close>

lemma revert_after_run:
  assumes ok: "ov_ok (cs_ov s)" and snap: "cs_Snapshot s = (i, s1)" and run: "evm_run kc F (Suc i) s1 t"
  shows "\<exists>u. cs_RevertToSnapshot i t = Some u \<and> cs_ov u = cs_ov s \<and> cs_journal u = cs_journal s
    \<and> cs_snapshots u = cs_snapshots s"
proof -
  have s1: "cs_ov s1 = cs_ov s" "cs_journal s1 = cs_journal s" "i = length (cs_snapshots s)"
    "cs_snapshots s1 = cs_snapshots s @ [length (cs_journal s)]"
    using snap by (auto simp: cs_Snapshot_def)
  have "run_inv s1 t" by (rule evm_run_inv [OF run]) (use ok s1 in simp_all)
  then obtain js ns where t: "cs_journal t = cs_journal s @ js" "undone_by js (cs_ov s) (cs_ov t)"
    "cs_snapshots t = cs_snapshots s1 @ ns" by (auto simp: run_inv_def s1)
  have "foldo revert (rev js) (cs_ov t) = Some (cs_ov s)"
    using t(2) by (auto simp: undone_by_def intro: foldo_revert_ok)
  with t s1 show ?thesis by (auto simp: cs_RevertToSnapshot_def nth_append)
qed

end
