(* ===== verification/Call_Spec.thy ===== *)
theory Call_Spec
  imports Call_Journal
begin

text \<open>
  The call state against its specification: plain storage, balances and per-transaction data, as
  an EVM sees them, without layers, journals or errors.  Every operation of the call state is the
  operation of the specification under \<open>abs_call\<close>, and none changes what the base shows.
\<close>

record account_state =
  as_storage :: "address \<Rightarrow> hash \<Rightarrow> hash"
  as_balance :: "address \<Rightarrow> u256"
  as_transient :: "address \<Rightarrow> hash \<Rightarrow> hash"
  as_addrs :: "address set"
  as_slots :: "(address \<times> hash) set"
  as_refund :: "64 word"
  as_logs :: "evm_log list"

text \<open>What the overlay hides and what it lets through.\<close>

definition overrides :: "'v option \<Rightarrow> 'v::zero fetched \<Rightarrow> 'v" where
  "overrides c r = or_zero (layered c r)"

definition abs_call :: "'f fetcher \<Rightarrow> 'f call_state \<Rightarrow> account_state" where
  "abs_call F s =
     \<lparr>as_storage = \<lambda>a k. overrides (nget (ov_storage (cs_ov s)) a k) (v_Storage (db_view F (cs_base s)) a k),
      as_balance = \<lambda>a. overrides (fmlookup (ov_balance (cs_ov s)) a) (v_Balance (db_view F (cs_base s)) a),
      as_transient = \<lambda>a k. overrides (nget (ov_transient (cs_ov s)) a k) (Inr 0),
      as_addrs = {a. flag (fmlookup (ov_addrs (cs_ov s)) a)},
      as_slots = {(a, k). flag (nget (ov_slots (cs_ov s)) a k)},
      as_refund = ov_refund (cs_ov s),
      as_logs = ov_logs (cs_ov s)\<rparr>"

fun spec_do :: "cs_op \<Rightarrow> account_state \<Rightarrow> account_state" where
  "spec_do (Op_SetState a k v) m = m\<lparr>as_storage := (as_storage m)(a := (as_storage m a)(k := v))\<rparr>"
| "spec_do (Op_SubBalance a v) m = m\<lparr>as_balance := (as_balance m)(a := as_balance m a - v)\<rparr>"
| "spec_do (Op_AddBalance a v) m = m\<lparr>as_balance := (as_balance m)(a := as_balance m a + v)\<rparr>"
| "spec_do (Op_SelfDestruct a) m = m\<lparr>as_balance := (as_balance m)(a := 0)\<rparr>"
| "spec_do (Op_AddRefund g) m = m\<lparr>as_refund := as_refund m + g\<rparr>"
| "spec_do (Op_SubRefund g) m = m\<lparr>as_refund := as_refund m - g\<rparr>"
| "spec_do (Op_SetTransientState a k v) m =
     m\<lparr>as_transient := (as_transient m)(a := (as_transient m a)(k := v))\<rparr>"
| "spec_do (Op_AddAddress a) m = m\<lparr>as_addrs := insert a (as_addrs m)\<rparr>"
| "spec_do (Op_AddSlot a k) m = m\<lparr>as_addrs := insert a (as_addrs m), as_slots := insert (a, k) (as_slots m)\<rparr>"
| "spec_do (Op_AddLog l) m = m\<lparr>as_logs := as_logs m @ [l]\<rparr>"
| "spec_do _ m = m"

lemma overrides_simps [simp]: "overrides (Some v) r = v" "overrides None r = or_zero r"
  by (simp_all add: overrides_def)

lemma snd_sd_GetState: "snd (sd_GetState F a k s) = snd (getStorageWithErr F a k s)"
  by (simp add: sd_GetState_def getStorage_def split: prod.split sum.split)

lemma snd_sd_GetBlockHash: "snd (sd_GetBlockHash F n s) = snd (sd_FetchBlockHash F n s)"
  by (simp add: sd_GetBlockHash_def sd_FetchBlockHash_def split: option.split prod.split sum.split)

lemma cs_base_reads:
  "cs_base (snd (cs_GetState F a k s)) = (if nget (ov_storage (cs_ov s)) a k = None
     then snd (getStorageWithErr F a k (cs_base s)) else cs_base s)"
  "cs_base (snd (cs_GetBalance F a s)) = (if fmlookup (ov_balance (cs_ov s)) a = None
     then snd (getBalanceWithErr F a (cs_base s)) else cs_base s)"
  "cs_base (snd (cs_GetCode kc F a s)) = snd (getCodeWithErr kc F a (cs_base s))"
  "cs_base (snd (cs_GetCodeHash kc F a s)) = snd (sd_GetCodeHash kc F a (cs_base s))"
  "cs_base (snd (cs_GetNonce F a s)) = snd (sd_GetNonce F a (cs_base s))"
  "cs_base (snd (cs_GetBlockHash F n s)) = snd (sd_FetchBlockHash F n (cs_base s))"
  "cs_base (snd (cs_GetCommittedState F a k s)) = snd (getStorageWithErr F a k (cs_base s))"
  by (auto simp: cs_GetState_def cs_GetBalance_def cs_GetCode_def cs_GetCodeHash_def cs_GetNonce_def
      cs_GetBlockHash_def cs_GetCommittedState_def split_beta snd_sd_GetState [symmetric]
      snd_sd_GetBlockHash [symmetric] split: option.split sum.split)

lemma cs_read_values:
  "fst (cs_GetState F a k s) = as_storage (abs_call F s) a k"
  "fst (cs_GetBalance F a s) = as_balance (abs_call F s) a"
  using fst_reads(1) [of F a k "cs_base s"] fst_reads(2) [of F a "cs_base s"]
  by (auto simp: cs_GetState_def cs_GetBalance_def abs_call_def overrides_def layered_def or_zero_def db_view_def
      split: option.split prod.split sum.split)

context fetch_source
begin

lemma code_hash_view: "db_view F (snd (sd_GetCodeHash kc F a s)) = db_view F s"
  using snd_sd_GetCodeHash [of kc F a s] code_read_view [of kc a s] by auto

lemma op_keeps_base_view: "db_view F (cs_base (cs_do kc F op s)) = db_view F (cs_base s)"
  by (cases op) (simp_all add: cs_base_reads read_views code_hash_view cs_SetState_def record_change_def
      cs_SubBalance_def cs_AddBalance_def cs_SelfDestruct_def cs_AddRefund_def cs_SubRefund_def
      cs_SetTransientState_def cs_AddAddressToAccessList_def cs_AddSlotToAccessList_def cs_AddLog_def
      put_balance_def journal_balance_def split_beta Let_def)

lemma revert_keeps_base: "cs_RevertToSnapshot i s = Some u \<Longrightarrow> cs_base u = cs_base s"
  by (auto simp: cs_RevertToSnapshot_def Let_def bind_eq_Some_conv split: if_splits)

lemma run_keeps_base_view: "evm_run kc F n s t \<Longrightarrow> db_view F (cs_base t) = db_view F (cs_base s)"
  by (induction rule: evm_run.induct) (auto simp: op_keeps_base_view cs_Snapshot_def dest: revert_keeps_base)

end

text \<open>The specification sees only the overlay and the view of the base.\<close>

definition abs_ov :: "view \<Rightarrow> call_overlay \<Rightarrow> account_state" where
  "abs_ov v ov =
     \<lparr>as_storage = \<lambda>a k. overrides (nget (ov_storage ov) a k) (v_Storage v a k),
      as_balance = \<lambda>a. overrides (fmlookup (ov_balance ov) a) (v_Balance v a),
      as_transient = \<lambda>a k. overrides (nget (ov_transient ov) a k) (Inr 0),
      as_addrs = {a. flag (fmlookup (ov_addrs ov) a)},
      as_slots = {(a, k). flag (nget (ov_slots ov) a k)},
      as_refund = ov_refund ov, as_logs = ov_logs ov\<rparr>"

lemma abs_call_ov: "abs_call F s = abs_ov (db_view F (cs_base s)) (cs_ov s)"
  by (simp add: abs_call_def abs_ov_def)

lemma flag_Some [simp]: "flag (Some b) = b" "flag None = False"
  by (simp_all add: flag_def)

lemma abs_ov_updates:
  "abs_ov v (ov\<lparr>ov_storage := nset a k w (ov_storage ov)\<rparr>) = spec_do (Op_SetState a k w) (abs_ov v ov)"
  "abs_ov v (ov\<lparr>ov_transient := nset a k w (ov_transient ov)\<rparr>) = spec_do (Op_SetTransientState a k w) (abs_ov v ov)"
  "abs_ov v (ov\<lparr>ov_balance := fmupd a b (ov_balance ov)\<rparr>) =
    (abs_ov v ov)\<lparr>as_balance := (as_balance (abs_ov v ov))(a := b)\<rparr>"
  "abs_ov v (ov\<lparr>ov_addrs := fmupd a True (ov_addrs ov)\<rparr>) = spec_do (Op_AddAddress a) (abs_ov v ov)"
  "abs_ov v (ov\<lparr>ov_addrs := fmupd a True (ov_addrs ov), ov_slots := nset a k True (ov_slots ov)\<rparr>) =
    spec_do (Op_AddSlot a k) (abs_ov v ov)"
  by (auto simp: abs_ov_def fun_eq_iff)

lemma abs_journal_balance: "abs_call F (journal_balance a s) = abs_call F s"
  by (simp add: abs_call_def journal_balance_def)

lemma cs_ov_read: "cs_ov (snd (cs_GetBalance F a s)) = cs_ov s"
  by (rule cs_read_fields)

context fetch_source
begin

lemma op_refines: "abs_call F (cs_do kc F op s) = spec_do op (abs_call F s)"
proof -
  have v: "db_view F (cs_base (cs_do kc F op s)) = db_view F (cs_base s)" by (rule op_keeps_base_view)
  have bal: "fst (cs_GetBalance F a (journal_balance a s)) = as_balance (abs_ov (db_view F (cs_base s)) (cs_ov s)) a"
    for a by (simp add: cs_read_values abs_journal_balance) (simp add: abs_call_ov)
  show ?thesis unfolding abs_call_ov v
    by (cases op) (simp_all add: cs_SetState_def cs_SetTransientState_def cs_SelfDestruct_def
        cs_SubBalance_def cs_AddBalance_def cs_AddRefund_def cs_SubRefund_def cs_AddLog_def
        cs_AddAddressToAccessList_def cs_AddSlotToAccessList_def record_change_def put_balance_def
        journal_balance_def [of _ s] split_beta Let_def abs_ov_updates cs_read_fields bal [unfolded journal_balance_def]
        cs_GetCommittedState_def cs_GetCodeHash_def cs_GetNonce_def cs_GetBlockHash_def del: spec_do.simps(1,7,8,9),
      simp_all add: abs_ov_def)
qed

lemma ops_refine: "abs_call F (fold (cs_do kc F) ops s) = fold spec_do ops (abs_call F s)"
  by (induction ops arbitrary: s) (simp_all add: op_refines)

lemma ops_keep_base_view: "db_view F (cs_base (fold (cs_do kc F) ops s)) = db_view F (cs_base s)"
  by (induction ops arbitrary: s) (simp_all add: op_keeps_base_view)

end

subsection \<open>Reuse between calls\<close>

lemma ov_ok_marks:
  "ov_ok ov \<Longrightarrow> ov_ok (mark_addr a ov)"
  "ov_ok ov \<Longrightarrow> fmlookup (ov_addrs ov) a = Some True \<Longrightarrow> ov_ok (mark_slot a k ov)"
  by (auto simp: ov_ok_def mark_addr_def mark_slot_def)

lemma ov_ok_mark_slots:
  assumes "ov_ok ov" and "fmlookup (ov_addrs ov) a = Some True"
  shows "ov_ok (fold (mark_slot a) ks ov) \<and> fmlookup (ov_addrs (fold (mark_slot a) ks ov)) a = Some True"
  using assms
proof (induction ks arbitrary: ov)
  case (Cons k ks)
  have "fmlookup (ov_addrs (mark_slot a k ov)) a = Some True" using Cons.prems by (simp add: mark_slot_def)
  with Cons.IH [OF ov_ok_marks(2) [OF Cons.prems]] show ?case by simp
qed simp

lemma ov_ok_fold: "ov_ok ov \<Longrightarrow> (\<And>x ov. ov_ok ov \<Longrightarrow> ov_ok (f x ov)) \<Longrightarrow> ov_ok (fold f xs ov)"
  by (induction xs arbitrary: ov) simp_all

lemma Prepare_ok:
  assumes "no_empty (ov_storage (cs_ov s))"
  shows "ov_ok (cs_ov (cs_Prepare sender coinbase dest pre acc s))"
proof -
  have "ov_ok ((cs_ov s)\<lparr>ov_addrs := fmempty, ov_slots := fmempty, ov_transient := fmempty\<rparr>)"
    using assms by (simp add: ov_ok_def)
  then show ?thesis
    unfolding cs_Prepare_def Let_def
    by (cases dest) (auto intro!: ov_ok_fold ov_ok_marks ov_ok_mark_slots [THEN conjunct1]
        simp: mark_addr_def [of "fst _"] split: prod.split, auto simp: mark_addr_def)
qed

lemma Prepare_Reset_ok: "ov_ok (cs_ov (cs_Prepare sender coinbase dest pre acc (cs_Reset s)))"
  by (rule Prepare_ok) (simp add: cs_Reset_def)

lemma cleared_overlay:
  "ov\<lparr>ov_storage := fmempty, ov_balance := fmempty, ov_refund := 0, ov_logs := [], ov_addrs := fmempty,
     ov_slots := fmempty, ov_transient := fmempty\<rparr> = empty_overlay"
  for ov :: call_overlay
  by (cases ov) (simp add: empty_overlay_def)

lemma Prepare_Reset_fresh:
  "cs_Prepare sender coinbase dest pre acc (cs_Reset s) =
   cs_Prepare sender coinbase dest pre acc (NewCallState (cs_base s))"
proof -
  have "empty_overlay\<lparr>ov_addrs := fmempty, ov_slots := fmempty, ov_transient := fmempty\<rparr> = empty_overlay"
    by (simp add: empty_overlay_def)
  then show ?thesis
    by (cases s) (simp add: cs_Prepare_def cs_Reset_def NewCallState_def cleared_overlay Let_def)
qed

lemma Prepare_fields:
  "cs_snapshots (cs_Prepare sender coinbase dest pre acc (cs_Reset s)) = []"
  by (simp add: cs_Prepare_def cs_Reset_def Let_def)

end
