(* ===== verification/Evm_Context.thy ===== *)
theory Evm_Context
  imports Call_Spec
begin

text \<open>
  EVM execution (\<open>statedb/statedb.go\<close>, second half): the block context with its process-wide
  cache, the transfer hooks, and the calls on a database or on a call state.  The EVM itself, the
  chain rules and the list of precompiles come from libevm and are parameters.
\<close>

record evm_config =
  cfg_BlockNumber :: "64 word"
  cfg_Timestamp :: "64 word"
  cfg_ChainID :: int
  cfg_BaseFee :: "64 word"
  cfg_GasLimit :: "64 word"

record chain_config =
  cf_ChainID :: int
  cf_HomesteadBlock :: int
  cf_EIP150Block :: int
  cf_EIP155Block :: int
  cf_EIP158Block :: int
  cf_ByzantiumBlock :: int
  cf_ConstantinopleBlock :: int
  cf_PetersburgBlock :: int
  cf_IstanbulBlock :: int
  cf_MuirGlacierBlock :: int
  cf_BerlinBlock :: int
  cf_LondonBlock :: int
  cf_ShanghaiTime :: "64 word"
  cf_CancunTime :: "64 word"

definition AvalancheCChainConfig :: chain_config where
  "AvalancheCChainConfig = \<lparr>cf_ChainID = 43114, cf_HomesteadBlock = 0, cf_EIP150Block = 0,
     cf_EIP155Block = 0, cf_EIP158Block = 0, cf_ByzantiumBlock = 0, cf_ConstantinopleBlock = 0,
     cf_PetersburgBlock = 0, cf_IstanbulBlock = 0, cf_MuirGlacierBlock = 0, cf_BerlinBlock = 1640340,
     cf_LondonBlock = 3308552, cf_ShanghaiTime = 1709740800, cf_CancunTime = 1734368400\<rparr>"

record block_context =
  bc_Coinbase :: address
  bc_BlockNumber :: int
  bc_Time :: "64 word"
  bc_Difficulty :: int
  bc_Random :: hash
  bc_GasLimit :: "64 word"
  bc_BaseFee :: int

record 'r cached_context =
  cc_blockCtx :: block_context
  cc_rules :: 'r
  cc_chainCfg :: chain_config
  cc_gasPrice :: int

type_synonym 'r chain_rules = "chain_config \<Rightarrow> int \<Rightarrow> bool \<Rightarrow> 64 word \<Rightarrow> 'r"

text \<open>The context built from a configuration; 0 stands for the defaults.\<close>

definition make_context :: "'r chain_rules \<Rightarrow> evm_config \<Rightarrow> 'r cached_context" where
  "make_context Rules cfg =
     (let baseFee = (if cfg_BaseFee cfg = 0 then 25000000000 else cfg_BaseFee cfg);
          blockGasLimit = (if cfg_GasLimit cfg = 0 then 40000000 else cfg_GasLimit cfg);
          blockNumber = uint (cfg_BlockNumber cfg);
          blockCtx = \<lparr>bc_Coinbase = 0x0100000000000000000000000000000000000000,
             bc_BlockNumber = blockNumber, bc_Time = cfg_Timestamp cfg, bc_Difficulty = 1, bc_Random = 0,
             bc_GasLimit = blockGasLimit, bc_BaseFee = uint baseFee\<rparr>
      in \<lparr>cc_blockCtx = blockCtx, cc_rules = Rules AvalancheCChainConfig blockNumber True (cfg_Timestamp cfg),
          cc_chainCfg = AvalancheCChainConfig, cc_gasPrice = uint baseFee\<rparr>)"

text \<open>The second component is the package variable \<open>cachedCtx\<close>.\<close>

definition GetCachedContext ::
  "'r chain_rules \<Rightarrow> evm_config \<Rightarrow> 'r cached_context option \<Rightarrow> 'r cached_context \<times> 'r cached_context option" where
  "GetCachedContext Rules cfg cachedCtx =
     (case cachedCtx of
        Some ctx \<Rightarrow> (if bc_Time (cc_blockCtx ctx) = cfg_Timestamp cfg then (ctx, cachedCtx)
                     else (make_context Rules cfg, Some (make_context Rules cfg)))
      | None \<Rightarrow> (make_context Rules cfg, Some (make_context Rules cfg)))"

definition ctx_GetHash :: "64 word \<Rightarrow> hash" where
  "ctx_GetHash n = 0"

subsection \<open>The transfer hooks\<close>

definition CanTransfer :: "'f fetcher \<Rightarrow> 'f call_state \<Rightarrow> address \<Rightarrow> u256 \<Rightarrow> bool \<times> 'f call_state" where
  "CanTransfer F db addr amount = (case cs_GetBalance F addr db of (bal, db) \<Rightarrow> (amount \<le> bal, db))"

definition Transfer :: "'f fetcher \<Rightarrow> 'f call_state \<Rightarrow> address \<Rightarrow> address \<Rightarrow> u256 \<Rightarrow> 'f call_state" where
  "Transfer F db sender recipient amount =
     cs_AddBalance F recipient amount (cs_SubBalance F sender amount db)"

subsection \<open>Calls\<close>

text \<open>The EVM's \<open>Call\<close> on a state \<open>'s\<close>: result bytes, gas left and error, and the state after it.\<close>

type_synonym 's evm_call =
  "block_context \<Rightarrow> address \<Rightarrow> int \<Rightarrow> chain_config \<Rightarrow> address \<Rightarrow> byte list \<Rightarrow> 64 word \<Rightarrow> u256 \<Rightarrow> 's
    \<Rightarrow> (byte list \<times> 64 word \<times> string option) \<times> 's"

type_synonym call_result = "byte list \<times> 64 word \<times> string option"

definition ExecuteWithGas ::
  "('r \<Rightarrow> address list) \<Rightarrow> 'f state_db evm_call \<Rightarrow> 'r cached_context \<Rightarrow> 'f state_db \<Rightarrow> address \<Rightarrow> address
    \<Rightarrow> byte list \<Rightarrow> 64 word \<Rightarrow> call_result \<times> 'f state_db" where
  "ExecuteWithGas ActivePrecompiles evm ctx state from_addr to_addr data gasLimit =
     (let precompiles = ActivePrecompiles (cc_rules ctx);
          state = sd_Prepare from_addr (bc_Coinbase (cc_blockCtx ctx)) (Some to_addr) precompiles [] state
      in case evm (cc_blockCtx ctx) from_addr (cc_gasPrice ctx) (cc_chainCfg ctx) to_addr data gasLimit 0 state of
           ((ret, gasLeft, err), state) \<Rightarrow> ((ret, gasLimit - gasLeft, err), state))"

definition Execute ::
  "('r \<Rightarrow> address list) \<Rightarrow> 'f state_db evm_call \<Rightarrow> 'r cached_context \<Rightarrow> 'f state_db \<Rightarrow> address \<Rightarrow> address
    \<Rightarrow> byte list \<Rightarrow> call_result \<times> 'f state_db" where
  "Execute ActivePrecompiles evm ctx state from_addr to_addr data =
     (let precompiles = ActivePrecompiles (cc_rules ctx);
          state = sd_Prepare from_addr (bc_Coinbase (cc_blockCtx ctx)) (Some to_addr) precompiles [] state;
          gasLimit = 5000000
      in case evm (cc_blockCtx ctx) from_addr (cc_gasPrice ctx) (cc_chainCfg ctx) to_addr data gasLimit 0 state of
           ((ret, gasLeft, err), state) \<Rightarrow> ((ret, gasLimit - gasLeft, err), state))"

definition ExecuteCall ::
  "'r chain_rules \<Rightarrow> ('r \<Rightarrow> address list) \<Rightarrow> 'f state_db evm_call \<Rightarrow> 'f state_db \<Rightarrow> evm_config \<Rightarrow> address
    \<Rightarrow> address \<Rightarrow> byte list \<Rightarrow> 'r cached_context option
    \<Rightarrow> (call_result \<times> 'f state_db) \<times> 'r cached_context option" where
  "ExecuteCall Rules ActivePrecompiles evm state cfg from_addr to_addr data cachedCtx =
     (case GetCachedContext Rules cfg cachedCtx of
        (ctx, cachedCtx) \<Rightarrow> (Execute ActivePrecompiles evm ctx state from_addr to_addr data, cachedCtx))"

definition ExecuteWithCallState ::
  "('r \<Rightarrow> address list) \<Rightarrow> 'f call_state evm_call \<Rightarrow> 'r cached_context \<Rightarrow> 'f call_state \<Rightarrow> address
    \<Rightarrow> address \<Rightarrow> byte list \<Rightarrow> call_result \<times> 'f call_state" where
  "ExecuteWithCallState ActivePrecompiles evm ctx cs from_addr to_addr data =
     (let precompiles = ActivePrecompiles (cc_rules ctx);
          cs = cs_Prepare from_addr (bc_Coinbase (cc_blockCtx ctx)) (Some to_addr) precompiles [] cs;
          gasLimit = 5000000
      in case evm (cc_blockCtx ctx) from_addr (cc_gasPrice ctx) (cc_chainCfg ctx) to_addr data gasLimit 0 cs of
           ((ret, gasLeft, err), cs) \<Rightarrow> ((ret, gasLimit - gasLeft, err), cs))"

subsection \<open>Facts\<close>

lemma make_context_simps [simp]:
  "bc_Time (cc_blockCtx (make_context Rules cfg)) = cfg_Timestamp cfg"
  "bc_BlockNumber (cc_blockCtx (make_context Rules cfg)) = uint (cfg_BlockNumber cfg)"
  by (simp_all add: make_context_def Let_def)

lemma GetCachedContext_twice:
  "fst (GetCachedContext Rules cfg2 (snd (GetCachedContext Rules cfg1 None))) =
    make_context Rules (if cfg_Timestamp cfg1 = cfg_Timestamp cfg2 then cfg1 else cfg2)"
  by (simp add: GetCachedContext_def)

lemma Execute_is_ExecuteWithGas:
  "Execute pre evm ctx s from_addr to_addr data = ExecuteWithGas pre evm ctx s from_addr to_addr data 5000000"
  by (simp add: Execute_def ExecuteWithGas_def Let_def)

context fetch_source
begin

lemma Transfer_refines:
  "abs_call F (Transfer F db sender recipient amount) =
    spec_do (Op_AddBalance recipient amount) (spec_do (Op_SubBalance sender amount) (abs_call F db))"
proof -
  have "Transfer F db sender recipient amount =
    cs_do undefined F (Op_AddBalance recipient amount) (cs_do undefined F (Op_SubBalance sender amount) db)"
    by (simp add: Transfer_def)
  then show ?thesis by (simp only: op_refines)
qed

end

end
