(* ===== verification/Splitter.thy ===== *)
theory Splitter
  imports Bfs Evm_Context
begin

text \<open>
  Order splitting (\<open>pathfinder/splitter\<close>): what the strategies share (the parameters, a leg, running
  a leg on the EVM, keeping the slots it wrote) and the strategies that search a route for every chunk:
  \<open>Greedy\<close>, \<open>GreedyFine\<close>, \<open>GreedyFast\<close>, \<open>GreedySplit\<close>, \<open>GreedyMixed\<close> with its schedules and
  \<open>GreedyDynamic\<close>.

  A strategy returns \<open>None\<close> when the Go code panics, \<open>Some None\<close> for a nil result.  The answers of a
  quoter source are a function of the slots it was made from (theory \<open>Pool_Cache\<close>); the cached reads
  a search leaves in a state are not part of the model (they are not observable, theory
  \<open>State_View\<close>).  The wall time of a result is left out.
\<close>

subsection \<open>Parameters and results\<close>

text \<open>
  A state is the database of the caller or an overlay on it; in Go both are \<open>*StateDB\<close>.  Of
  \<open>Params\<close>, \<open>sp_PM\<close> is the quoter \<open>PM\<close>, and \<open>sp_NewOverlay\<close>, \<open>sp_Update\<close> and
  \<open>sp_quoter\<close> are \<open>NewPoolManagerOverlay(p.BasePM, _)\<close>, \<open>UpdateDirtySlots\<close> and the quotes of an
  overlay.  \<open>sp_evm\<close> and \<open>sp_evm_over\<close> are the EVM on a call over the two kinds of state,
  \<open>sp_ctx\<close> is the cached context of \<open>EVMConfig\<close>, \<open>sp_order\<close> the iteration order of Go's maps in
  a search, \<open>sp_hex\<close> the parser of addresses.
\<close>

datatype 'f split_db = Base_db "'f state_db" | Overlay_db "'f state_db state_db"

record ('f, 'r, 'o) params =
  sp_PM :: quoter
  sp_NewOverlay :: "storage_map \<Rightarrow> 'o"
  sp_Update :: "storage_map \<Rightarrow> 'o \<Rightarrow> 'o"
  sp_quoter :: "'o \<Rightarrow> quoter"
  sp_Adj :: "address \<Rightarrow> pool_edge list"
  sp_Pools :: "pool list"
  sp_State :: "'f state_db"
  sp_ctx :: "'r cached_context"
  sp_precompiles :: "'r \<Rightarrow> address list"
  sp_evm :: "'f call_state evm_call"
  sp_evm_over :: "'f state_db call_state evm_call"
  sp_hex :: "string \<Rightarrow> address"
  sp_order :: "nat \<Rightarrow> address list \<Rightarrow> address list"
  sp_RouterAddr :: address
  sp_Sender :: address
  sp_TokenIn :: address
  sp_TokenOut :: address
  sp_MaxHops :: int

record leg =
  lg_Steps :: "route_step list"
  lg_Volume :: u256
  lg_Output :: u256
  lg_GasUsed :: "64 word"

record split_result =
  sr_Legs :: "leg list"
  sr_Total :: u256
  sr_TotalGas :: "64 word"

definition buildCalldata :: "('f, 'r, 'o) params \<Rightarrow> route_step list \<Rightarrow> u256 \<Rightarrow> byte list option" where
  "buildCalldata p steps volume =
     EncodeSwapMulti (sp_hex p) (map rs_pool steps) (map rs_type steps)
       (concat (map (\<lambda>s. [rs_in s, rs_out s]) steps)) volume (map rs_extra steps) (Some 0)"

text \<open>
  \<open>uint256.NewInt(uint64(_))\<close> of a Go \<open>int\<close>, a 64-bit word whose value is its \<open>sint\<close>; a loop
  \<open>for i := 0; i < n; i++\<close> runs \<open>nat (sint n)\<close> times.
\<close>

definition NewInt :: "64 word \<Rightarrow> u256" where
  "NewInt n = ucast n"

subsection \<open>Running a leg\<close>

definition StorageOverrides :: "'f call_state \<Rightarrow> storage_map" where
  "StorageOverrides cs = ov_storage (cs_ov cs)"

definition run_router :: "('f, 'r, 'o) params \<Rightarrow> 'f split_db \<Rightarrow> byte list \<Rightarrow> call_result \<times> storage_map" where
  "run_router p db data =
     (case db of
        Base_db s \<Rightarrow>
          (case ExecuteWithCallState (sp_precompiles p) (sp_evm p) (sp_ctx p) (NewCallState s)
                  (sp_Sender p) (sp_RouterAddr p) data of (res, cs) \<Rightarrow> (res, StorageOverrides cs))
      | Overlay_db s \<Rightarrow>
          (case ExecuteWithCallState (sp_precompiles p) (sp_evm_over p) (sp_ctx p) (NewCallState s)
                  (sp_Sender p) (sp_RouterAddr p) data of (res, cs) \<Rightarrow> (res, StorageOverrides cs)))"

text \<open>The router's answer as the route search sees it.\<close>

definition router_evm :: "('f, 'r, 'o) params \<Rightarrow> 'f split_db \<Rightarrow> byte list \<Rightarrow> (byte list \<times> nat) option" where
  "router_evm p db data =
     (case run_router p db data of ((ret, gas, err), _) \<Rightarrow> (if err = None then Some (ret, unat gas) else None))"

definition find_route ::
  "('f, 'r, 'o) params \<Rightarrow> quoter \<Rightarrow> 'f split_db \<Rightarrow> u256 \<Rightarrow> route option option" where
  "find_route p quote db vol =
     FindBestRoute quote (sp_Adj p) (sp_Pools p) (sp_hex p) (router_evm p db) (sp_order p)
       (sp_TokenIn p) (sp_TokenOut p) vol (sp_MaxHops p)"

text \<open>
  Execute the steps at a volume: \<open>Some None\<close> when the call fails or its output, a signed word,
  is not positive; else the output, the gas used and the slots written.
\<close>

definition run_leg ::
  "('f, 'r, 'o) params \<Rightarrow> 'f split_db \<Rightarrow> route_step list \<Rightarrow> u256 \<Rightarrow> (u256 \<times> 64 word \<times> storage_map) option option" where
  "run_leg p db steps vol =
     do {
       data \<leftarrow> buildCalldata p steps vol;
       case run_router p db data of ((ret, gasUsed, err), dirty) \<Rightarrow>
         if err \<noteq> None \<or> length ret < 32 then Some None
         else let evmOut = be_word (take 32 ret)
              in if ret ! 0 AND 0x80 \<noteq> 0 \<or> evmOut = 0 then Some None
                 else Some (Some (evmOut, gasUsed, dirty))
     }"

subsection \<open>The slots written so far\<close>

text \<open>The loop \<open>for addr, slots := range new\<close> that sets every slot of a state (any order).\<close>

definition put_slots :: "storage_map \<Rightarrow> 'f state_db \<Rightarrow> 'f state_db" where
  "put_slots new s = s\<lparr>sd_bfStorage := nmerge (sd_bfStorage s) new\<rparr>"

fun put_slots_db :: "storage_map \<Rightarrow> 'f split_db \<Rightarrow> 'f split_db" where
  "put_slots_db new (Base_db s) = Base_db (put_slots new s)"
| "put_slots_db new (Overlay_db s) = Overlay_db (put_slots new s)"

definition overlay_state :: "('f, 'r, 'o) params \<Rightarrow> storage_map \<Rightarrow> 'f split_db" where
  "overlay_state p acc = Overlay_db (put_slots acc (NewOverlay (sp_State p)))"

text \<open>The variables a strategy carries from chunk to chunk.\<close>

record ('f, 'o) run =
  rn_dirty :: storage_map
  rn_state :: "'f split_db"
  rn_overlay :: "'o option"
  rn_Legs :: "leg list"
  rn_Total :: u256
  rn_Gas :: "64 word"
  rn_routed :: u256

definition new_run :: "'f split_db \<Rightarrow> ('f, 'o) run" where
  "new_run db = \<lparr>rn_dirty = fmempty, rn_state = db, rn_overlay = None, rn_Legs = [], rn_Total = 0,
     rn_Gas = 0, rn_routed = 0\<rparr>"

definition result_of :: "('f, 'o) run \<Rightarrow> split_result" where
  "result_of r = \<lparr>sr_Legs = rn_Legs r, sr_Total = rn_Total r, sr_TotalGas = rn_Gas r\<rparr>"

text \<open>A result without legs is nil.\<close>

definition result_or_nil :: "('f, 'o) run \<Rightarrow> split_result option" where
  "result_or_nil r = (if rn_Legs r = [] then None else Some (result_of r))"

definition book_leg :: "route_step list \<Rightarrow> u256 \<Rightarrow> u256 \<Rightarrow> 64 word \<Rightarrow> ('f, 'o) run \<Rightarrow> ('f, 'o) run" where
  "book_leg steps vol out gas r =
     r\<lparr>rn_Legs := rn_Legs r @ [\<lparr>lg_Steps = steps, lg_Volume = vol, lg_Output = out, lg_GasUsed = gas\<rparr>],
       rn_Total := rn_Total r + out, rn_Gas := rn_Gas r + gas, rn_routed := rn_routed r + vol\<rparr>"

text \<open>Merge the new slots into the accumulator, the state and, when there is one, the overlay.\<close>

definition spread_dirty :: "('f, 'r, 'o) params \<Rightarrow> storage_map \<Rightarrow> ('f, 'o) run \<Rightarrow> ('f, 'o) run" where
  "spread_dirty p newDirty r =
     r\<lparr>rn_dirty := nmerge (rn_dirty r) newDirty, rn_state := put_slots_db newDirty (rn_state r),
       rn_overlay := map_option (sp_Update p newDirty) (rn_overlay r)\<rparr>"

text \<open>Merge into the accumulator and rebuild the state from it.\<close>

definition rebuild_dirty :: "('f, 'r, 'o) params \<Rightarrow> storage_map \<Rightarrow> ('f, 'o) run \<Rightarrow> ('f, 'o) run" where
  "rebuild_dirty p newDirty r =
     (let acc = nmerge (rn_dirty r) newDirty in r\<lparr>rn_dirty := acc, rn_state := overlay_state p acc\<rparr>)"

text \<open>The source of chunk \<open>i\<close>: \<open>PM\<close> for the first, then one overlay that is made on demand.\<close>

definition next_source :: "('f, 'r, 'o) params \<Rightarrow> bool \<Rightarrow> ('f, 'o) run \<Rightarrow> quoter \<times> ('f, 'o) run" where
  "next_source p first r =
     (if first then (sp_PM p, r)
      else case rn_overlay r of
             None \<Rightarrow> (let ov = sp_NewOverlay p (rn_dirty r) in (sp_quoter p ov, r\<lparr>rn_overlay := Some ov\<rparr>))
           | Some ov \<Rightarrow> (sp_quoter p ov, r))"

text \<open>
  Search at the probe volume, execute what was found at the volume of the chunk, keep the leg;
  \<open>Some None\<close> when the strategy stops here.
\<close>

definition run_chunk ::
  "('f, 'r, 'o) params \<Rightarrow> bool \<Rightarrow> u256 \<Rightarrow> u256 \<Rightarrow> ('f, 'o) run \<Rightarrow> ('f, 'o) run option option" where
  "run_chunk p first probeVol vol r =
     (case next_source p first r of (pqs, r) \<Rightarrow>
        do {
          route \<leftarrow> find_route p pqs (rn_state r) probeVol;
          case route of None \<Rightarrow> Some None
          | Some rt \<Rightarrow>
              do {
                done \<leftarrow> run_leg p (rn_state r) (r_steps rt) vol;
                case done of None \<Rightarrow> Some None
                | Some (evmOut, gasUsed, newDirty) \<Rightarrow>
                    Some (Some (spread_dirty p newDirty (book_leg (r_steps rt) vol evmOut gasUsed r)))
              }
        })"

subsection \<open>Greedy, GreedyFine and GreedyFast\<close>

text \<open>One chunk: the leg is booked with the output of the search, then executed again for its slots.\<close>

definition greedy_chunk ::
  "('f, 'r, 'o) params \<Rightarrow> (storage_map \<Rightarrow> ('f, 'o) run \<Rightarrow> ('f, 'o) run) \<Rightarrow> quoter \<Rightarrow> u256 \<Rightarrow> ('f, 'o) run
    \<Rightarrow> (bool \<times> ('f, 'o) run) option" where
  "greedy_chunk p keep pqs chunkAmount r =
     do {
       route \<leftarrow> find_route p pqs (rn_state r) chunkAmount;
       case route of None \<Rightarrow> Some (False, r)
       | Some rt \<Rightarrow>
           let r' = book_leg (r_steps rt) chunkAmount (r_out rt) (of_nat (r_gas rt)) r
           in case run_router p (rn_state r) (r_data rt) of ((ret, _, err), dirty) \<Rightarrow>
                if err \<noteq> None \<or> length ret < 32 then Some (False, r') else Some (True, keep dirty r')
     }"

fun greedy_loop ::
  "('f, 'r, 'o) params \<Rightarrow> u256 \<Rightarrow> nat \<Rightarrow> nat \<Rightarrow> ('f, 'o) run \<Rightarrow> ('f, 'o) run option" where
  "greedy_loop p chunkAmount i 0 r = Some r"
| "greedy_loop p chunkAmount i (Suc n) r =
     (let pqs = (if i = 0 then sp_PM p else sp_quoter p (sp_NewOverlay p (rn_dirty r)))
      in do {
        (more, r) \<leftarrow> greedy_chunk p (rebuild_dirty p) pqs chunkAmount r;
        if more then greedy_loop p chunkAmount (i + 1) n r else Some r
      })"

definition Greedy :: "('f, 'r, 'o) params \<Rightarrow> u256 \<Rightarrow> 64 word \<Rightarrow> split_result option option" where
  "Greedy p amountIn chunks =
     (let chunkAmount = amountIn div NewInt chunks
      in if chunkAmount = 0 then Some None
         else map_option (Some \<circ> result_of) (greedy_loop p chunkAmount 0 (nat (sint chunks)) (new_run (Base_db (sp_State p)))))"

definition GreedyFine :: "('f, 'r, 'o) params \<Rightarrow> u256 \<Rightarrow> 64 word \<Rightarrow> split_result option option" where
  "GreedyFine p amountIn chunks = Greedy p amountIn (chunks * 4)"

fun fast_loop ::
  "('f, 'r, 'o) params \<Rightarrow> u256 \<Rightarrow> nat \<Rightarrow> nat \<Rightarrow> ('f, 'o) run \<Rightarrow> ('f, 'o) run option" where
  "fast_loop p chunkAmount i 0 r = Some r"
| "fast_loop p chunkAmount i (Suc n) r =
     (case next_source p (i = 0) r of (pqs, r) \<Rightarrow>
        do {
          (more, r) \<leftarrow> greedy_chunk p (spread_dirty p) pqs chunkAmount r;
          if more then fast_loop p chunkAmount (i + 1) n r else Some r
        })"

definition GreedyFast :: "('f, 'r, 'o) params \<Rightarrow> u256 \<Rightarrow> 64 word \<Rightarrow> split_result option option" where
  "GreedyFast p amountIn chunks =
     (let chunkAmount = amountIn div NewInt chunks
      in if chunkAmount = 0 then Some None
         else map_option (Some \<circ> result_of) (fast_loop p chunkAmount 0 (nat (sint chunks)) (new_run (overlay_state p fmempty))))"

subsection \<open>GreedySplit\<close>

fun split_loop ::
  "('f, 'r, 'o) params \<Rightarrow> u256 \<Rightarrow> u256 \<Rightarrow> 64 word \<Rightarrow> nat \<Rightarrow> nat \<Rightarrow> ('f, 'o) run \<Rightarrow> ('f, 'o) run option" where
  "split_loop p amountIn execVol probePct i 0 r = Some r"
| "split_loop p amountIn execVol probePct i (Suc n) r =
     (let remaining = amountIn - rn_routed r
      in if remaining = 0 then Some r
         else
           let vol = (if remaining < execVol then remaining else execVol);
               probeVol = remaining div 100 * ucast probePct;
               probeVol = (if probeVol = 0 then remaining else probeVol)
           in do {
             outcome \<leftarrow> run_chunk p (i = 0) probeVol vol r;
             case outcome of None \<Rightarrow> Some r
             | Some r' \<Rightarrow> split_loop p amountIn execVol probePct (i + 1) n r'
           })"

definition GreedySplit :: "('f, 'r, 'o) params \<Rightarrow> u256 \<Rightarrow> 64 word \<Rightarrow> 64 word \<Rightarrow> split_result option option" where
  "GreedySplit p amountIn probePct execPct =
     (let execVol = amountIn div 100 * ucast execPct
      in if execVol = 0 then Some None
         else map_option result_or_nil (split_loop p amountIn execVol probePct 0 200 (new_run (overlay_state p fmempty))))"

subsection \<open>GreedyMixed and its schedules\<close>

record chunk_schedule =
  cs_Name :: string
  cs_Chunks :: "64 word list"

definition SchedFrontLoaded :: chunk_schedule where
  "SchedFrontLoaded = \<lparr>cs_Name = ''front'', cs_Chunks =
     [15, 12, 10, 8, 5, 5, 3, 3, 3, 2, 2, 2, 2, 2, 2, 2, 2,
      1, 1, 1, 1, 1, 1, 1, 1, 1, 1, 1, 1, 1, 1, 1, 1, 1, 1, 1]\<rparr>"

definition SchedGradual :: chunk_schedule where
  "SchedGradual = \<lparr>cs_Name = ''grad'', cs_Chunks =
     [6, 6, 5, 5, 5, 5, 4, 4, 4, 4, 3, 3, 3, 3, 3,
      2, 2, 2, 2, 2, 2, 2, 2, 2, 2, 2, 2, 2, 2, 2, 2, 2]\<rparr>"

definition SchedPlateau :: chunk_schedule where
  "SchedPlateau = \<lparr>cs_Name = ''plat'', cs_Chunks =
     [8, 8, 8, 8, 8, 4, 4, 4, 4, 4, 2, 2, 2, 2, 2, 2, 2, 2, 2, 2, 2, 2, 2, 2, 2, 2, 2, 2, 2, 2]\<rparr>"

definition SchedMagic :: chunk_schedule where
  "SchedMagic = \<lparr>cs_Name = ''magic'', cs_Chunks =
     [10, 10, 5, 5, 5, 5,
      2, 2, 2, 2, 2, 2, 2, 2, 2, 2, 2, 2, 2, 2, 2, 2, 2, 2, 2, 2,
      2, 2, 2, 2, 2, 2, 2, 2, 2, 2]\<rparr>"

definition SchedShuffle1 :: chunk_schedule where
  "SchedShuffle1 = \<lparr>cs_Name = ''shuf1'', cs_Chunks =
     [10, 2, 2, 10, 2, 2, 5, 2, 2, 5, 2, 2, 5, 2, 2, 5, 2, 2,
      2, 2, 2, 2, 2, 2, 2, 2, 2, 2, 2, 2, 2, 2, 2, 2, 2, 2, 2]\<rparr>"

definition SchedShuffle2 :: chunk_schedule where
  "SchedShuffle2 = \<lparr>cs_Name = ''shuf2'', cs_Chunks =
     [10, 5, 2, 10, 5, 2, 10, 5, 2,
      5, 2, 5, 2, 5, 2, 5, 2, 5, 2, 5, 2, 2, 2, 2]\<rparr>"

definition SchedShuffle3 :: chunk_schedule where
  "SchedShuffle3 = \<lparr>cs_Name = ''shuf3'', cs_Chunks =
     [10, 2, 8, 2, 6, 2, 5, 2, 4, 2, 3, 2, 3, 2, 3, 2, 3, 2,
      2, 2, 2, 2, 2, 2, 2, 2, 2, 2, 2, 2, 2, 2, 2, 2, 2, 2, 2]\<rparr>"

definition SchedBulk :: chunk_schedule where
  "SchedBulk = \<lparr>cs_Name = ''bulk'', cs_Chunks =
     [40,
      2, 2, 2, 2, 2, 2, 2, 2, 2, 2, 2, 2, 2, 2, 2, 2, 2, 2, 2, 2,
      2, 2, 2, 2, 2, 2, 2, 2, 2, 2]\<rparr>"

definition SchedShuffle4 :: chunk_schedule where
  "SchedShuffle4 = \<lparr>cs_Name = ''shuf4'', cs_Chunks =
     [10, 2, 2, 2, 2, 8, 2, 2, 2, 2, 6, 2, 2, 2, 2, 4, 2, 2, 2, 2,
      2, 2, 2, 2, 2, 2, 2, 2, 2, 2, 2, 2, 2, 2, 2, 2, 2, 2, 2, 2]\<rparr>"

lemma next_source_fields:
  assumes "next_source p first r = (pqs, r')"
  shows "rn_routed r' = rn_routed r \<and> rn_state r' = rn_state r \<and> rn_dirty r' = rn_dirty r
    \<and> rn_Legs r' = rn_Legs r \<and> rn_Total r' = rn_Total r \<and> rn_Gas r' = rn_Gas r"
  using assms by (auto simp: next_source_def Let_def split: if_splits option.splits)

lemma run_chunk_routed:
  "run_chunk p first probeVol vol r = Some (Some r') \<Longrightarrow> rn_routed r' = rn_routed r + vol"
  by (auto simp: run_chunk_def bind_eq_Some_conv spread_dirty_def book_leg_def
      dest!: next_source_fields split: prod.splits option.splits)

text \<open>Every chunk makes what remains smaller.\<close>

lemma remaining_decreases:
  fixes amountIn routed vol :: u256
  assumes "vol \<noteq> 0" and "vol \<le> amountIn - routed"
  shows "unat (amountIn - (routed + vol)) < unat (amountIn - routed)"
proof -
  have e: "amountIn - (routed + vol) = amountIn - routed - vol" by simp
  have "unat (amountIn - routed - vol) = unat (amountIn - routed) - unat vol"
    using assms(2) by (rule unat_sub)
  moreover have "0 < unat vol" "unat vol \<le> unat (amountIn - routed)"
    using assms by (simp_all add: unat_gt_0 word_le_nat_alt)
  ultimately show ?thesis unfolding e by linarith
qed

function mixed_loop ::
  "('f, 'r, 'o) params \<Rightarrow> u256 \<Rightarrow> u256 \<Rightarrow> 64 word list \<Rightarrow> 64 word \<Rightarrow> nat \<Rightarrow> ('f, 'o) run \<Rightarrow> ('f, 'o) run option" where
  "mixed_loop p amountIn onePercent chunks lastPct i r =
     (let remaining = amountIn - rn_routed r
      in if remaining = 0 then Some r
         else
           let pct = (if i < length chunks then chunks ! i else lastPct);
               vol = onePercent * ucast pct;
               vol = (if remaining < vol then remaining else vol)
           in if vol = 0 then Some r
              else case run_chunk p (i = 0) vol vol r of
                     None \<Rightarrow> None
                   | Some None \<Rightarrow> Some r
                   | Some (Some r') \<Rightarrow> mixed_loop p amountIn onePercent chunks lastPct (i + 1) r')"
  by pat_completeness auto
termination
  by (relation "measure (\<lambda>(p, amountIn, _, _, _, _, r). unat (amountIn - rn_routed r))")
     (auto simp: run_chunk_routed Let_def unat_gt_0 intro!: remaining_decreases split: if_splits)

declare mixed_loop.simps [simp del]

definition GreedyMixed :: "('f, 'r, 'o) params \<Rightarrow> u256 \<Rightarrow> chunk_schedule \<Rightarrow> split_result option option" where
  "GreedyMixed p amountIn sched =
     (let onePercent = amountIn div 100; chunks = cs_Chunks sched
      in if onePercent = 0 then Some None
         else if chunks = [] then None
         else map_option result_or_nil
                (mixed_loop p amountIn onePercent chunks (last chunks) 0 (new_run (overlay_state p fmempty))))"

subsection \<open>GreedyDynamic\<close>

text \<open>
  The Go key of a path is the string of its pool addresses in hexadecimal, which determines their
  list; an empty string is the empty list.
\<close>

definition pathKey :: "route_step list \<Rightarrow> address list" where
  "pathKey steps = map rs_pool steps"

text \<open>The volume, the quoter's run and the route of one iteration; \<open>Some None\<close> is a \<open>break\<close>.\<close>

definition dynamic_pick ::
  "('f, 'r, 'o) params \<Rightarrow> quoter \<Rightarrow> 'f split_db \<Rightarrow> u256 \<Rightarrow> u256 \<Rightarrow> u256 \<Rightarrow> address list \<Rightarrow> u256
    \<Rightarrow> (u256 \<times> route) option option" where
  "dynamic_pick p pqs db remaining largeVol smallVol prevPath vol =
     do {
       found \<leftarrow> find_route p pqs db vol;
       case found of None \<Rightarrow> Some None
       | Some route \<Rightarrow>
           let currentPath = pathKey (r_steps route)
           in if prevPath \<noteq> [] \<and> currentPath \<noteq> prevPath \<and> vol = smallVol then
                let vol = (if remaining < largeVol then remaining else largeVol)
                in do {
                  again \<leftarrow> find_route p pqs db vol;
                  case again of None \<Rightarrow> Some None | Some route \<Rightarrow> Some (Some (vol, route))
                }
              else Some (Some (vol, route))
     }"

fun dynamic_loop ::
  "('f, 'r, 'o) params \<Rightarrow> u256 \<Rightarrow> u256 \<Rightarrow> u256 \<Rightarrow> int \<Rightarrow> nat \<Rightarrow> nat \<Rightarrow> address list \<Rightarrow> int \<Rightarrow> ('f, 'o) run
    \<Rightarrow> ('f, 'o) run option" where
  "dynamic_loop p amountIn largeVol smallVol forceEvery i 0 prevPath smalls r = Some r"
| "dynamic_loop p amountIn largeVol smallVol forceEvery i (Suc n) prevPath smalls r =
     (let remaining = amountIn - rn_routed r
      in if remaining = 0 then Some r
         else
           let forcedDiscovery = (0 < forceEvery \<and> forceEvery \<le> smalls);
               vol = (if i = 0 \<or> prevPath = [] \<or> forcedDiscovery then largeVol else smallVol);
               vol = (if remaining < vol then remaining else vol)
           in if vol = 0 then Some r
              else case next_source p (i = 0) r of (pqs, r1) \<Rightarrow>
                do {
                  picked \<leftarrow> dynamic_pick p pqs (rn_state r1) remaining largeVol smallVol prevPath vol;
                  case picked of None \<Rightarrow> Some r1
                  | Some (vol, route) \<Rightarrow>
                      let smalls = (if vol = smallVol then smalls + 1 else 0); prevPath = pathKey (r_steps route)
                      in do {
                        done \<leftarrow> run_leg p (rn_state r1) (r_steps route) vol;
                        case done of None \<Rightarrow> Some r1
                        | Some (evmOut, gasUsed, newDirty) \<Rightarrow>
                            dynamic_loop p amountIn largeVol smallVol forceEvery (i + 1) n prevPath smalls
                              (spread_dirty p newDirty (book_leg (r_steps route) vol evmOut gasUsed r1))
                      }
                })"

definition greedyDynamicInner ::
  "('f, 'r, 'o) params \<Rightarrow> u256 \<Rightarrow> 64 word \<Rightarrow> 64 word \<Rightarrow> int \<Rightarrow> split_result option option" where
  "greedyDynamicInner p amountIn largePct smallPct forceEvery =
     (let onePercent = amountIn div 100
      in if onePercent = 0 then Some None
         else map_option result_or_nil
                (dynamic_loop p amountIn (onePercent * ucast largePct) (onePercent * ucast smallPct) forceEvery
                   0 200 [] 0 (new_run (overlay_state p fmempty))))"

definition GreedyDynamic :: "('f, 'r, 'o) params \<Rightarrow> u256 \<Rightarrow> 64 word \<Rightarrow> 64 word \<Rightarrow> split_result option option" where
  "GreedyDynamic p amountIn largePct smallPct = greedyDynamicInner p amountIn largePct smallPct 0"

definition GreedyDynamicForced ::
  "('f, 'r, 'o) params \<Rightarrow> u256 \<Rightarrow> 64 word \<Rightarrow> 64 word \<Rightarrow> int \<Rightarrow> split_result option option" where
  "GreedyDynamicForced p amountIn largePct smallPct forceEvery =
     greedyDynamicInner p amountIn largePct smallPct forceEvery"

end
