(* ===== verification/Split_Compete.thy ===== *)
theory Split_Compete
  imports Splitter
begin

text \<open>
  The strategies that compare alternatives (\<open>greedycompete.go\<close>, \<open>greedyrecursive.go\<close>): one shot
  against chunks in every slab, one shot against two halves at every level of a recursion.
\<close>

subsection \<open>GreedyCompete\<close>

text \<open>Both loops of \<open>mergeDirtySlots\<close> copy into a fresh map.\<close>

definition mergeDirtySlots :: "storage_map \<Rightarrow> storage_map \<Rightarrow> storage_map" where
  "mergeDirtySlots a b = nmerge (nmerge fmempty a) b"

text \<open>
  The single shot of a slab: steps, output, gas and slots; a failed shot leaves the zero values.  The
  zero output of a successful call keeps its gas and its slots, as in the code.
\<close>

definition single_shot ::
  "('f, 'r, 'o) params \<Rightarrow> quoter \<Rightarrow> 'f split_db \<Rightarrow> u256 \<Rightarrow> (route_step list \<times> u256 \<times> 64 word \<times> storage_map) option" where
  "single_shot p pqs db vol =
     do {
       found \<leftarrow> find_route p pqs db vol;
       case found of None \<Rightarrow> Some ([], 0, 0, fmempty)
       | Some route \<Rightarrow>
           do {
             data \<leftarrow> buildCalldata p (r_steps route) vol;
             case run_router p db data of ((ret, gasUsed, err), dirty) \<Rightarrow>
               if err = None \<and> 32 \<le> length ret then
                 if ret ! 0 AND 0x80 \<noteq> 0 then Some (r_steps route, 0, 0, fmempty)
                 else Some (r_steps route, be_word (take 32 ret), gasUsed, dirty)
               else Some (r_steps route, 0, 0, fmempty)
           }
     }"

text \<open>
  The chunks of a slab work on a run of their own: its slots are \<open>chunkedDirty\<close>, its overlay
  \<open>tempFormula\<close>, its state \<open>tempState\<close>, which is rebuilt from the merged slots after every chunk.
\<close>

definition chunk_source ::
  "('f, 'r, 'o) params \<Rightarrow> quoter \<Rightarrow> storage_map \<Rightarrow> bool \<Rightarrow> ('f, 'o) run \<Rightarrow> quoter \<times> ('f, 'o) run" where
  "chunk_source p pqs acc first r =
     (if first then (pqs, r)
      else case rn_overlay r of
             None \<Rightarrow> (let ov = sp_NewOverlay p (mergeDirtySlots acc (rn_dirty r)) in (sp_quoter p ov, r\<lparr>rn_overlay := Some ov\<rparr>))
           | Some ov \<Rightarrow> (sp_quoter p ov, r))"

definition chunk_dirty ::
  "('f, 'r, 'o) params \<Rightarrow> storage_map \<Rightarrow> storage_map \<Rightarrow> ('f, 'o) run \<Rightarrow> ('f, 'o) run" where
  "chunk_dirty p acc new r =
     (let chunkedDirty = nmerge (rn_dirty r) new
      in r\<lparr>rn_dirty := chunkedDirty, rn_state := overlay_state p (mergeDirtySlots acc chunkedDirty),
           rn_overlay := map_option (sp_Update p new) (rn_overlay r)\<rparr>)"

definition slab_chunk ::
  "('f, 'r, 'o) params \<Rightarrow> quoter \<Rightarrow> storage_map \<Rightarrow> bool \<Rightarrow> u256 \<Rightarrow> ('f, 'o) run \<Rightarrow> ('f, 'o) run option option" where
  "slab_chunk p pqs acc first vol r =
     (case chunk_source p pqs acc first r of (cpqs, r) \<Rightarrow>
        do {
          found \<leftarrow> find_route p cpqs (rn_state r) vol;
          case found of None \<Rightarrow> Some None
          | Some rt \<Rightarrow>
              do {
                done \<leftarrow> run_leg p (rn_state r) (r_steps rt) vol;
                case done of None \<Rightarrow> Some None
                | Some (evmOut, gasUsed, new) \<Rightarrow>
                    Some (Some (chunk_dirty p acc new (book_leg (r_steps rt) vol evmOut gasUsed r)))
              }
        })"

lemma chunk_source_fields:
  assumes "chunk_source p pqs acc first r = (cpqs, r')"
  shows "rn_routed r' = rn_routed r \<and> rn_state r' = rn_state r \<and> rn_dirty r' = rn_dirty r
    \<and> rn_Legs r' = rn_Legs r \<and> rn_Total r' = rn_Total r \<and> rn_Gas r' = rn_Gas r"
  using assms by (auto simp: chunk_source_def Let_def split: if_splits option.splits)

lemma slab_chunk_routed:
  "slab_chunk p pqs acc first vol r = Some (Some r') \<Longrightarrow> rn_routed r' = rn_routed r + vol"
  by (auto simp: slab_chunk_def bind_eq_Some_conv chunk_dirty_def Let_def book_leg_def
      dest!: chunk_source_fields split: prod.splits option.splits)

function slab_loop ::
  "('f, 'r, 'o) params \<Rightarrow> quoter \<Rightarrow> storage_map \<Rightarrow> u256 \<Rightarrow> u256 \<Rightarrow> bool \<Rightarrow> ('f, 'o) run \<Rightarrow> ('f, 'o) run option" where
  "slab_loop p pqs acc slabVol chunkVol first r =
     (let chunkRemaining = slabVol - rn_routed r
      in if chunkRemaining = 0 then Some r
         else
           let vol = (if chunkRemaining < chunkVol then chunkRemaining else chunkVol)
           in if vol = 0 then Some r
              else case slab_chunk p pqs acc first vol r of
                     None \<Rightarrow> None
                   | Some None \<Rightarrow> Some r
                   | Some (Some r') \<Rightarrow> slab_loop p pqs acc slabVol chunkVol False r')"
  by pat_completeness auto
termination
  by (relation "measure (\<lambda>(_, _, _, slabVol, _, _, r). unat (slabVol - rn_routed r))")
     (auto simp: slab_chunk_routed Let_def unat_gt_0 intro!: remaining_decreases split: if_splits)

declare slab_loop.simps [simp del]

text \<open>Apply the winner: its legs, its total and gas, its slots; the result is the run of the strategy.\<close>

definition take_legs ::
  "('f, 'r, 'o) params \<Rightarrow> leg list \<Rightarrow> u256 \<Rightarrow> 64 word \<Rightarrow> u256 \<Rightarrow> storage_map \<Rightarrow> ('f, 'o) run \<Rightarrow> ('f, 'o) run" where
  "take_legs p legs out gas vol dirty r =
     r\<lparr>rn_Legs := rn_Legs r @ legs, rn_Total := rn_Total r + out, rn_Gas := rn_Gas r + gas,
       rn_routed := rn_routed r + vol, rn_dirty := nmerge (rn_dirty r) dirty,
       rn_state := put_slots_db dirty (rn_state r)\<rparr>"

definition pick_winner ::
  "('f, 'r, 'o) params \<Rightarrow> u256 \<Rightarrow> route_step list \<times> u256 \<times> 64 word \<times> storage_map \<Rightarrow> ('f, 'o) run
    \<Rightarrow> ('f, 'o) run \<Rightarrow> ('f, 'o) run option" where
  "pick_winner p thisSlabVol single chunked r =
     (case single of (steps, singleOut, singleGas, singleDirty) \<Rightarrow>
        let useSingle = (rn_Total chunked < singleOut \<or> (singleOut = rn_Total chunked \<and> singleGas \<le> rn_Gas chunked))
        in if useSingle \<and> singleOut \<noteq> 0 then
             Some (take_legs p [\<lparr>lg_Steps = steps, lg_Volume = thisSlabVol, lg_Output = singleOut, lg_GasUsed = singleGas\<rparr>]
                     singleOut singleGas thisSlabVol singleDirty r)
           else if rn_Total chunked \<noteq> 0 then
             Some (take_legs p (rn_Legs chunked) (rn_Total chunked) (rn_Gas chunked) (rn_routed chunked) (rn_dirty chunked) r)
           else None)"

definition compete_slab ::
  "('f, 'r, 'o) params \<Rightarrow> bool \<Rightarrow> u256 \<Rightarrow> u256 \<Rightarrow> ('f, 'o) run \<Rightarrow> ('f, 'o) run option option" where
  "compete_slab p first thisSlabVol chunkVol r =
     (case next_source p first r of (pqs, r) \<Rightarrow>
        do {
          single \<leftarrow> single_shot p pqs (rn_state r) thisSlabVol;
          chunked \<leftarrow> slab_loop p pqs (rn_dirty r) thisSlabVol chunkVol True (new_run (rn_state r));
          Some (map_option
            (\<lambda>r. r\<lparr>rn_overlay := Some (case rn_overlay r of
                  Some ov \<Rightarrow> sp_Update p (rn_dirty r) ov | None \<Rightarrow> sp_NewOverlay p (rn_dirty r))\<rparr>)
            (pick_winner p thisSlabVol single chunked r))
        })"

fun compete_loop ::
  "('f, 'r, 'o) params \<Rightarrow> u256 \<Rightarrow> u256 \<Rightarrow> u256 \<Rightarrow> nat \<Rightarrow> nat \<Rightarrow> ('f, 'o) run \<Rightarrow> ('f, 'o) run option" where
  "compete_loop p amountIn slabVol chunkVol slab 0 r = Some r"
| "compete_loop p amountIn slabVol chunkVol slab (Suc n) r =
     (let remaining = amountIn - rn_routed r
      in if remaining = 0 then Some r
         else
           let thisSlabVol = (if remaining < slabVol then remaining else slabVol)
           in case compete_slab p (slab = 0) thisSlabVol chunkVol r of
                None \<Rightarrow> None
              | Some None \<Rightarrow> Some r
              | Some (Some r') \<Rightarrow> compete_loop p amountIn slabVol chunkVol (slab + 1) n r')"

definition GreedyCompete :: "('f, 'r, 'o) params \<Rightarrow> u256 \<Rightarrow> 64 word \<Rightarrow> 64 word \<Rightarrow> split_result option option" where
  "GreedyCompete p amountIn slabPct chunkPct =
     (let onePercent = amountIn div 100
      in if onePercent = 0 then Some None
         else map_option result_or_nil
                (compete_loop p amountIn (onePercent * ucast slabPct) (onePercent * ucast chunkPct) 0 100
                   (new_run (overlay_state p fmempty))))"

subsection \<open>GreedyRecursive\<close>

text \<open>
  Execute legs again, each on the state its predecessors leave: the slots they write and the
  state after them.  Failed calls count with the slots they wrote, as in the code.
\<close>

fun rerun_legs ::
  "('f, 'r, 'o) params \<Rightarrow> storage_map \<Rightarrow> leg list \<Rightarrow> storage_map \<times> 'f split_db \<Rightarrow> (storage_map \<times> 'f split_db) option" where
  "rerun_legs p dirtySlots [] w = Some w"
| "rerun_legs p dirtySlots (l # ls) w =
     (case w of (firstDirty, tempState) \<Rightarrow>
        do {
          cd \<leftarrow> buildCalldata p (lg_Steps l) (lg_Volume l);
          let firstDirty = nmerge firstDirty (snd (run_router p tempState cd));
          rerun_legs p dirtySlots ls (firstDirty, overlay_state p (mergeDirtySlots dirtySlots firstDirty))
        })"

definition outputs :: "leg list \<Rightarrow> u256" where
  "outputs legs = sum_list (map lg_Output legs)"

text \<open>\<open>fuel\<close> is \<open>8 - depth\<close>: the code stops splitting at depth 8.\<close>

fun recurseSplit ::
  "('f, 'r, 'o) params \<Rightarrow> u256 \<Rightarrow> u256 \<Rightarrow> 'f split_db \<Rightarrow> storage_map \<Rightarrow> quoter \<Rightarrow> nat \<Rightarrow> leg list option" where
  "recurseSplit p vol minVol stateOvl dirtySlots pqs fuel =
     (if vol = 0 then Some []
      else do {
        found \<leftarrow> find_route p pqs stateOvl vol;
        case found of None \<Rightarrow> Some []
        | Some route \<Rightarrow>
            do {
              done \<leftarrow> run_leg p stateOvl (r_steps route) vol;
              case done of None \<Rightarrow> Some []
              | Some (singleOut, gasUsed, _) \<Rightarrow>
                  let singleLeg = \<lparr>lg_Steps = r_steps route, lg_Volume = vol, lg_Output = singleOut, lg_GasUsed = gasUsed\<rparr>;
                      halfVol = drop_bit 1 vol
                  in if halfVol < minVol then Some [singleLeg]
                     else (case fuel of 0 \<Rightarrow> Some [singleLeg]
                     | Suc d \<Rightarrow>
                       do {
                         firstLegs \<leftarrow> recurseSplit p halfVol minVol stateOvl dirtySlots pqs d;
                         if firstLegs = [] then Some [singleLeg]
                         else do {
                           (firstDirty, tempState) \<leftarrow> rerun_legs p dirtySlots firstLegs (fmempty, stateOvl);
                           let mergedDirty = mergeDirtySlots dirtySlots firstDirty;
                           let secondPqs = sp_quoter p (sp_NewOverlay p mergedDirty);
                           secondLegs \<leftarrow> recurseSplit p (vol - halfVol) minVol tempState mergedDirty secondPqs d;
                           if secondLegs = [] then Some [singleLeg]
                           else if singleOut < outputs firstLegs + outputs secondLegs then Some (firstLegs @ secondLegs)
                           else Some [singleLeg]
                         }
                       })
            }
      })"

declare recurseSplit.simps [simp del]

definition GreedyRecursive :: "('f, 'r, 'o) params \<Rightarrow> u256 \<Rightarrow> 64 word \<Rightarrow> split_result option option" where
  "GreedyRecursive p amountIn minPct =
     (let onePercent = amountIn div 100
      in if onePercent = 0 then Some None
         else
           let minVol = onePercent * ucast minPct; minVol = (if minVol = 0 then 1 else minVol)
           in do {
             legs \<leftarrow> recurseSplit p amountIn minVol (overlay_state p fmempty) fmempty (sp_PM p) 8;
             if legs = [] then Some None
             else Some (Some \<lparr>sr_Legs = legs, sr_Total = outputs legs, sr_TotalGas = sum_list (map lg_GasUsed legs)\<rparr>)
           })"

end
