(* ===== verification/Split_Paths.thy ===== *)
theory Split_Paths
  imports Split_Compete
begin

text \<open>
  The strategies that allocate volume over a fixed set of paths (\<open>optimized.go\<close>,
  \<open>optimized2.go\<close>, \<open>waterfill.go\<close>) and those that combine others (\<open>best.go\<close>, \<open>staged.go\<close>,
  \<open>splitmax.go\<close>, \<open>default.go\<close>).
\<close>

subsection \<open>Paths\<close>

text \<open>The first leg of every pool sequence, in order.\<close>

fun distinct_paths :: "address list list \<Rightarrow> route_step list list \<Rightarrow> route_step list list" where
  "distinct_paths seen [] = []"
| "distinct_paths seen (s # ss) =
     (if pathKey s \<in> set seen then distinct_paths seen ss
      else s # distinct_paths (pathKey s # seen) ss)"

definition CollectPaths :: "leg list \<Rightarrow> route_step list list" where
  "CollectPaths legs = distinct_paths [] (map lg_Steps legs)"

text \<open>The index and output of the live path with the greatest positive quote, the first among equals.\<close>

fun best_path ::
  "quoter \<Rightarrow> u256 \<Rightarrow> nat list \<Rightarrow> nat \<Rightarrow> route_step list list \<Rightarrow> (nat \<times> u256) option \<Rightarrow> (nat \<times> u256) option" where
  "best_path pqs vol dead i [] best = best"
| "best_path pqs vol dead i (path # paths) best =
     (if i \<in> set dead then best_path pqs vol dead (i + 1) paths best
      else let out = QuotePath pqs path vol
           in if out = 0 then best_path pqs vol dead (i + 1) paths best
              else best_path pqs vol dead (i + 1) paths
                     (case best of None \<Rightarrow> Some (i, out)
                      | Some (_, bestOut) \<Rightarrow> if bestOut < out then Some (i, out) else best))"

text \<open>The paths a search finds at 5% of the volume and at the full volume.\<close>

definition discover ::
  "('f, 'r, 'o) params \<Rightarrow> u256 \<Rightarrow> route list option" where
  "discover p amountIn =
     (let discoveryAmount = amountIn div 20;
          discoveryAmount = (if discoveryAmount = 0 then amountIn else discoveryAmount);
          top = (\<lambda>amount limit. FindTopRoutes (sp_PM p) (sp_Adj p) (sp_Pools p) (sp_hex p)
                   (router_evm p (Base_db (sp_State p))) (sp_order p) (sp_TokenIn p) (sp_TokenOut p) amount (sp_MaxHops p) limit)
      in do { candidates \<leftarrow> top discoveryAmount 5; fullCandidates \<leftarrow> top amountIn 3; Some (candidates @ fullCandidates) })"

subsection \<open>Optimized\<close>

lemma best_path_live:
  assumes "best_path pqs vol dead i paths best = Some (j, out)"
  shows "best = Some (j, out) \<or> (i \<le> j \<and> j < i + length paths \<and> j \<notin> set dead \<and> out \<noteq> 0
    \<and> out = QuotePath pqs (paths ! (j - i)) vol)"
  using assms
proof (induction paths arbitrary: i best)
  case (Cons path paths)
  define best' where "best' = (if i \<in> set dead \<or> QuotePath pqs path vol = 0 then best
    else case best of None \<Rightarrow> Some (i, QuotePath pqs path vol)
      | Some (_, bestOut) \<Rightarrow> if bestOut < QuotePath pqs path vol then Some (i, QuotePath pqs path vol) else best)"
  have "best_path pqs vol dead (i + 1) paths best' = Some (j, out)"
    using Cons.prems by (auto simp: best'_def Let_def split: if_splits)
  from Cons.IH [OF this] consider "best' = Some (j, out)"
    | "i + 1 \<le> j \<and> j < i + 1 + length paths \<and> j \<notin> set dead \<and> out \<noteq> 0 \<and> out = QuotePath pqs (paths ! (j - (i + 1))) vol"
    by blast
  then show ?case
  proof cases
    case 1
    then show ?thesis by (auto simp: best'_def split: if_splits option.splits)
  next
    case 2
    then have "j - i = Suc (j - (i + 1))" by arith
    with 2 show ?thesis by auto
  qed
qed simp

definition live_paths :: "route_step list list \<Rightarrow> nat list \<Rightarrow> nat" where
  "live_paths paths dead = card ({..<length paths} - set dead)"

lemma live_paths_kill:
  assumes "best_path pqs vol dead 0 paths None = Some (j, out)"
  shows "live_paths paths (j # dead) < live_paths paths dead"
proof -
  have "j \<in> {..<length paths} - set dead" using best_path_live [OF assms] by simp
  then have "{..<length paths} - set (j # dead) \<subset> {..<length paths} - set dead" by auto
  then show ?thesis unfolding live_paths_def by (intro psubset_card_mono) auto
qed

text \<open>
  \<open>chunk\<close> counts the chunks that were routed; a path whose execution fails is marked dead and
  the chunk tried again.
\<close>

function optimized_loop ::
  "('f, 'r, 'o) params \<Rightarrow> u256 \<Rightarrow> u256 \<Rightarrow> route_step list list \<Rightarrow> nat \<Rightarrow> nat \<Rightarrow> nat list \<Rightarrow> ('f, 'o) run \<Rightarrow> ('f, 'o) run option" where
  "optimized_loop p amountIn chunkAmount paths chunks chunk dead r =
     (if chunks \<le> chunk then Some r
      else
        let remaining = amountIn - rn_routed r;
            vol = (if chunk + 1 = chunks \<or> remaining < chunkAmount then remaining else chunkAmount)
        in if vol = 0 then Some r
           else
             let pqs = (if rn_dirty r = fmempty then sp_PM p else sp_quoter p (sp_NewOverlay p (rn_dirty r)))
             in case best_path pqs vol dead 0 paths None of
                  None \<Rightarrow> Some r
                | Some (bestPath, _) \<Rightarrow>
                    (case run_leg p (rn_state r) (paths ! bestPath) vol of
                       None \<Rightarrow> None
                     | Some None \<Rightarrow> optimized_loop p amountIn chunkAmount paths chunks chunk (bestPath # dead) r
                     | Some (Some (evmOut, gasUsed, new)) \<Rightarrow>
                         optimized_loop p amountIn chunkAmount paths chunks (chunk + 1) dead
                           (rebuild_dirty p new (book_leg (paths ! bestPath) vol evmOut gasUsed r))))"
  by pat_completeness auto
termination
  by (relation "measures [\<lambda>(_, _, _, _, chunks, chunk, _, _). chunks - chunk,
        \<lambda>(_, _, _, paths, _, _, dead, _). live_paths paths dead]")
     (auto simp: live_paths_kill)

declare optimized_loop.simps [simp del]

definition Optimized :: "('f, 'r, 'o) params \<Rightarrow> u256 \<Rightarrow> 64 word \<Rightarrow> split_result option option" where
  "Optimized p amountIn chunks =
     do {
       candidates \<leftarrow> discover p amountIn;
       if candidates = [] then Some None
       else
         let paths = distinct_paths [] (map r_steps candidates);
             chunkAmount = amountIn div NewInt chunks
         in if chunkAmount = 0 then Some None
            else map_option (Some \<circ> result_of)
                   (optimized_loop p amountIn chunkAmount paths (nat (sint chunks)) 0 [] (new_run (Base_db (sp_State p))))
     }"

subsection \<open>AllocateAcrossPaths\<close>

function allocate_loop ::
  "('f, 'r, 'o) params \<Rightarrow> u256 \<Rightarrow> u256 \<Rightarrow> route_step list list \<Rightarrow> nat list \<Rightarrow> ('f, 'o) run \<Rightarrow> ('f, 'o) run option" where
  "allocate_loop p amountIn chunkVol paths dead r =
     (let remaining = amountIn - rn_routed r
      in if remaining = 0 \<or> chunkVol = 0 then Some r
         else
           let vol = (if remaining < chunkVol then remaining else chunkVol)
           in case next_source p (rn_dirty r = fmempty) r of (pqs, r1) \<Rightarrow>
             (case best_path pqs vol dead 0 paths None of
                None \<Rightarrow> Some r1
              | Some (bestIdx, _) \<Rightarrow>
                  (case run_leg p (rn_state r1) (paths ! bestIdx) vol of
                     None \<Rightarrow> None
                   | Some None \<Rightarrow> allocate_loop p amountIn chunkVol paths (bestIdx # dead) r1
                   | Some (Some (evmOut, gasUsed, newDirty)) \<Rightarrow>
                       allocate_loop p amountIn chunkVol paths dead
                         (spread_dirty p newDirty (book_leg (paths ! bestIdx) vol evmOut gasUsed r1)))))"
  by pat_completeness auto
termination
  by (relation "measures [\<lambda>(_, amountIn, _, _, _, r). unat (amountIn - rn_routed r),
        \<lambda>(_, _, _, paths, dead, _). live_paths paths dead]")
     (auto simp: live_paths_kill spread_dirty_def book_leg_def Let_def unat_gt_0 dest!: next_source_fields [OF sym]
        intro!: remaining_decreases split: if_splits)

declare allocate_loop.simps [simp del]

text \<open>The loop is entered with a positive chunk only.\<close>

definition AllocateAcrossPaths :: "('f, 'r, 'o) params \<Rightarrow> u256 \<Rightarrow> route_step list list \<Rightarrow> split_result option option" where
  "AllocateAcrossPaths p amountIn paths =
     (let onePercent = amountIn div 100
      in if onePercent = 0 then Some None
         else
           let chunkVol = onePercent * 2
           in if chunkVol = 0 then Some None
              else map_option result_or_nil
                     (allocate_loop p amountIn chunkVol paths [] (new_run (overlay_state p fmempty))))"

end
