(* ===== verification/Split_Best.thy ===== *)
theory Split_Best
  imports Split_Paths
begin

text \<open>
  \<open>WaterFill\<close> (\<open>waterfill.go\<close>), the two-phase strategies of \<open>optimized2.go\<close>, and the strategies
  that run others and keep the best result: \<open>Best\<close>, \<open>Staged\<close>, \<open>SplitMax\<close> and \<open>Split\<close>.
\<close>

subsection \<open>WaterFill\<close>

definition marginal :: "quoter \<Rightarrow> u256 \<Rightarrow> route_step list \<Rightarrow> u256 \<Rightarrow> u256" where
  "marginal pm delta steps v =
     (let outHigh = QuotePath pm steps (v + delta)
      in if outHigh = 0 then 0
         else let outLow = QuotePath pm steps v in if outHigh < outLow then 0 else outHigh - outLow)"

text \<open>Two bisections with 20 and 30 rounds, as in the code.\<close>

fun volume_bisect :: "(u256 \<Rightarrow> u256) \<Rightarrow> u256 \<Rightarrow> nat \<Rightarrow> u256 \<Rightarrow> u256 \<Rightarrow> u256" where
  "volume_bisect marg goal 0 lo hi = lo"
| "volume_bisect marg goal (Suc n) lo hi =
     (let mid = drop_bit 1 (lo + hi)
      in if mid = lo then lo
         else if goal < marg mid then volume_bisect marg goal n mid hi else volume_bisect marg goal n lo mid)"

definition findVolumeForMarginal :: "(u256 \<Rightarrow> u256) \<Rightarrow> u256 \<Rightarrow> u256 \<Rightarrow> u256" where
  "findVolumeForMarginal marg goal maxVol = (if marg 0 < goal then 0 else volume_bisect marg goal 20 0 maxVol)"

fun rate_bisect :: "(u256 \<Rightarrow> u256) \<Rightarrow> u256 \<Rightarrow> nat \<Rightarrow> u256 \<Rightarrow> u256 \<Rightarrow> u256" where
  "rate_bisect totalVol amountIn 0 rLow rHigh = rHigh"
| "rate_bisect totalVol amountIn (Suc n) rLow rHigh =
     (let rMid = drop_bit 1 (rLow + rHigh)
      in if rMid = rLow then rHigh
         else if amountIn < totalVol rMid then rate_bisect totalVol amountIn n rMid rHigh
         else rate_bisect totalVol amountIn n rLow rMid)"

text \<open>The first index with the greatest value.\<close>

definition max_idx :: "(nat \<Rightarrow> u256) \<Rightarrow> nat \<Rightarrow> nat" where
  "max_idx f n = fold (\<lambda>i best. if f best < f i then i else best) [0..<n] 0"

definition bump :: "nat \<Rightarrow> u256 \<Rightarrow> u256 list \<Rightarrow> u256 list" where
  "bump i v allocs = allocs[i := allocs ! i + v]"

text \<open>The allocation at the converged rate, rounding residual and dust moved.\<close>

definition fill_allocs :: "(route_step list \<Rightarrow> u256 \<Rightarrow> u256) \<Rightarrow> u256 \<Rightarrow> route_step list list \<Rightarrow> u256 \<Rightarrow> u256 list" where
  "fill_allocs marg amountIn live rate =
     (let allocs = map (\<lambda>steps. findVolumeForMarginal (marg steps) rate amountIn) live;
          totalAlloc = sum_list allocs;
          remainder = (if totalAlloc < amountIn then amountIn - totalAlloc else 0)
      in if remainder = 0 then allocs
         else bump (max_idx (\<lambda>i. marg (live ! i) (allocs ! i)) (length live)) remainder allocs)"

definition sweep_dust :: "u256 \<Rightarrow> u256 list \<Rightarrow> u256 list" where
  "sweep_dust amountIn allocs =
     (let allocs = map (\<lambda>v. if v < amountIn div 1000 then 0 else v) allocs;
          checkSum = sum_list allocs;
          largestIdx = max_idx (\<lambda>i. allocs ! i) (length allocs)
      in if checkSum < amountIn then bump largestIdx (amountIn - checkSum) allocs else allocs)"

definition water_allocs :: "(route_step list \<Rightarrow> u256 \<Rightarrow> u256) \<Rightarrow> u256 \<Rightarrow> route_step list list \<Rightarrow> u256 list" where
  "water_allocs marg amountIn live =
     (let maxM0 = fold max (map (\<lambda>steps. marg steps 0) live) 0;
          totalVol = (\<lambda>rate. sum_list (map (\<lambda>steps. findVolumeForMarginal (marg steps) rate amountIn) live));
          rHigh = rate_bisect totalVol amountIn 30 0 maxM0
      in sweep_dust amountIn (fill_allocs marg amountIn live rHigh))"

fun verify_legs ::
  "('f, 'r, 'o) params \<Rightarrow> (route_step list \<times> u256) list \<Rightarrow> ('f, 'o) run \<Rightarrow> ('f, 'o) run option" where
  "verify_legs p [] r = Some r"
| "verify_legs p ((steps, vol) # rest) r =
     (if vol = 0 then verify_legs p rest r
      else do {
        done \<leftarrow> run_leg p (rn_state r) steps vol;
        case done of None \<Rightarrow> verify_legs p rest r
        | Some (evmOut, gasUsed, new) \<Rightarrow> verify_legs p rest (rebuild_dirty p new (book_leg steps vol evmOut gasUsed r))
      })"

definition WaterFill :: "('f, 'r, 'o) params \<Rightarrow> u256 \<Rightarrow> split_result option option" where
  "WaterFill p amountIn =
     do {
       candidates \<leftarrow> discover p amountIn;
       if candidates = [] then Some None
       else
         let paths = distinct_paths [] (map r_steps candidates);
             delta = amountIn div 10000;
             delta = (if delta = 0 then 1 else delta);
             marg = marginal (sp_PM p) delta;
             live = filter (\<lambda>steps. marg steps 0 \<noteq> 0) paths
         in if live = [] then Some None
            else map_option result_or_nil
                   (verify_legs p (zip live (water_allocs marg amountIn live)) (new_run (Base_db (sp_State p))))
     }"

subsection \<open>Two phases\<close>

text \<open>The first result with the greatest total; nil results are passed over.\<close>

fun pick_best :: "split_result option list \<Rightarrow> split_result option \<Rightarrow> split_result option" where
  "pick_best [] best = best"
| "pick_best (None # rs) best = pick_best rs best"
| "pick_best (Some r # rs) best =
     pick_best rs (case best of None \<Rightarrow> Some r | Some b \<Rightarrow> if sr_Total b < sr_Total r then Some r else best)"

definition optimizedTwoPhase :: "('f, 'r, 'o) params \<Rightarrow> u256 \<Rightarrow> chunk_schedule \<Rightarrow> split_result option option" where
  "optimizedTwoPhase p amountIn sched =
     do {
       phase1 \<leftarrow> GreedyMixed p amountIn sched;
       case phase1 of None \<Rightarrow> Some None
       | Some r1 \<Rightarrow>
           do {
             phase2 \<leftarrow> AllocateAcrossPaths p amountIn (CollectPaths (sr_Legs r1));
             Some (pick_best [phase2] phase1)
           }
     }"

definition OptimizedV2 :: "('f, 'r, 'o) params \<Rightarrow> u256 \<Rightarrow> split_result option option" where
  "OptimizedV2 p amountIn = optimizedTwoPhase p amountIn SchedShuffle2"

definition OptimizedV3 :: "('f, 'r, 'o) params \<Rightarrow> u256 \<Rightarrow> split_result option option" where
  "OptimizedV3 p amountIn = optimizedTwoPhase p amountIn SchedFrontLoaded"

definition OptimizedV4 :: "('f, 'r, 'o) params \<Rightarrow> u256 \<Rightarrow> split_result option option" where
  "OptimizedV4 p amountIn =
     do {
       phase1a \<leftarrow> GreedyMixed p amountIn SchedFrontLoaded;
       case phase1a of None \<Rightarrow> Some None
       | Some a \<Rightarrow>
           do {
             phase1b \<leftarrow> GreedyMixed p amountIn SchedShuffle2;
             let pathsA = CollectPaths (sr_Legs a);
             let paths = pathsA @ (case phase1b of None \<Rightarrow> []
               | Some b \<Rightarrow> distinct_paths (map pathKey pathsA) (map lg_Steps (sr_Legs b)));
             phase2 \<leftarrow> AllocateAcrossPaths p amountIn paths;
             Some (pick_best [phase1b, phase2] phase1a)
           }
     }"

subsection \<open>Best of several\<close>

definition Best :: "('f, 'r, 'o) params \<Rightarrow> u256 \<Rightarrow> 64 word \<Rightarrow> split_result option option" where
  "Best p amountIn chunks =
     do {
       greedy \<leftarrow> Greedy p amountIn chunks;
       optimized \<leftarrow> Optimized p amountIn chunks;
       greedyfine \<leftarrow> GreedyFine p amountIn chunks;
       greedy8x \<leftarrow> Greedy p amountIn (chunks * 8);
       Some (pick_best [greedy, optimized, greedyfine, greedy8x] None)
     }"

definition legs_of :: "split_result option \<Rightarrow> leg list" where
  "legs_of r = (case r of None \<Rightarrow> [] | Some r \<Rightarrow> sr_Legs r)"

text \<open>The best of the results, or the allocation over all their paths when that is better.\<close>

definition reallocate :: "('f, 'r, 'o) params \<Rightarrow> u256 \<Rightarrow> split_result option list \<Rightarrow> split_result option option" where
  "reallocate p amountIn underlying =
     (case pick_best underlying None of
        None \<Rightarrow> Some None
      | Some best \<Rightarrow>
          do {
            phase2 \<leftarrow> AllocateAcrossPaths p amountIn (CollectPaths (concat (map legs_of underlying)));
            Some (pick_best [phase2] (Some best))
          })"

definition Staged :: "('f, 'r, 'o) params \<Rightarrow> u256 \<Rightarrow> split_result option option" where
  "Staged p amountIn =
     do {
       front \<leftarrow> GreedyMixed p amountIn SchedFrontLoaded;
       optim2 \<leftarrow> OptimizedV2 p amountIn;
       reallocate p amountIn [front, optim2]
     }"

definition SplitMax :: "('f, 'r, 'o) params \<Rightarrow> u256 \<Rightarrow> split_result option option" where
  "SplitMax p amountIn =
     do {
       front \<leftarrow> GreedyMixed p amountIn SchedFrontLoaded;
       optim2 \<leftarrow> OptimizedV2 p amountIn;
       grad \<leftarrow> GreedyMixed p amountIn SchedGradual;
       compete \<leftarrow> GreedyCompete p amountIn 30 2;
       reallocate p amountIn [front, optim2, grad, compete]
     }"

definition Split :: "('f, 'r, 'o) params \<Rightarrow> u256 \<Rightarrow> split_result option option" where
  "Split p amountIn = SplitMax p amountIn"

end
