(* ===== verification/Split_Replay.thy ===== *)
theory Split_Replay
  imports Split_Best
begin

text \<open>
  What every strategy promises: its legs are a sequence of executions, each on the state its
  predecessors leave behind, with exactly the outputs and the gas that the result states; the total
  is the sum of the outputs; the volumes add up to at most the amount to be split.
\<close>

subsection \<open>The specification\<close>

text \<open>
  Execute legs in order, the first on \<open>db\<close>, each further one on the overlay of all slots written so
  far; the result is the slots at the end, \<open>None\<close> when an execution differs from what its leg says.
\<close>

fun replay :: "('f, 'r, 'o) params \<Rightarrow> 'f split_db \<Rightarrow> storage_map \<Rightarrow> leg list \<Rightarrow> storage_map option" where
  "replay p db acc [] = Some acc"
| "replay p db acc (l # ls) =
     (case run_leg p db (lg_Steps l) (lg_Volume l) of
        Some (Some (out, gas, new)) \<Rightarrow>
          (if out = lg_Output l \<and> gas = lg_GasUsed l
           then replay p (overlay_state p (nmerge acc new)) (nmerge acc new) ls else None)
      | _ \<Rightarrow> None)"

definition volumes :: "leg list \<Rightarrow> nat" where
  "volumes legs = sum_list (map (\<lambda>l. unat (lg_Volume l)) legs)"

definition gas_of :: "leg list \<Rightarrow> 64 word" where
  "gas_of legs = sum_list (map lg_GasUsed legs)"

text \<open>The two states a strategy starts from: the caller's database or an empty overlay on it.\<close>

definition start_states :: "('f, 'r, 'o) params \<Rightarrow> 'f split_db set" where
  "start_states p = {Base_db (sp_State p), overlay_state p fmempty}"

definition split_ok :: "('f, 'r, 'o) params \<Rightarrow> split_result \<Rightarrow> bool" where
  "split_ok p res \<longleftrightarrow> (\<exists>db\<in>start_states p. replay p db fmempty (sr_Legs res) \<noteq> None)
     \<and> sr_Total res = outputs (sr_Legs res) \<and> sr_TotalGas res = gas_of (sr_Legs res)"

definition within :: "u256 \<Rightarrow> split_result \<Rightarrow> bool" where
  "within amountIn res \<longleftrightarrow> volumes (sr_Legs res) \<le> unat amountIn"

definition kept :: "('f, 'r, 'o) params \<Rightarrow> u256 \<Rightarrow> split_result \<Rightarrow> bool" where
  "kept p amountIn res \<longleftrightarrow> split_ok p res \<and> within amountIn res"

subsection \<open>Merging slots\<close>

lemma nmerge_empty [simp]: "nmerge fmempty d = d" "nmerge m fmempty = m"
  by (rule fmap_ext, simp add: nmerge_def fmlookup_dom_iff option.map_ident split: option.split)+

lemma fmlookup_nmerge:
  "fmlookup (nmerge m d) a = (case fmlookup d a of None \<Rightarrow> fmlookup m a | Some s \<Rightarrow> Some (fmadd (inner m a) s))"
  by (simp add: nmerge_def fmlookup_dom_iff split: option.split)

lemma nmerge_assoc: "nmerge (nmerge m d) e = nmerge m (nmerge d e)"
  by (rule fmap_ext) (simp add: fmlookup_nmerge inner_nmerge inner_def split: option.split)

lemma mergeDirtySlots_nmerge [simp]: "mergeDirtySlots a b = nmerge a b"
  by (simp add: mergeDirtySlots_def)

lemma put_slots_overlay [simp]: "put_slots_db new (overlay_state p acc) = overlay_state p (nmerge acc new)"
  by (simp add: overlay_state_def put_slots_def NewOverlay_def NewStateDB_def)

text \<open>Setting the slots one by one, in any order of the maps, is \<open>put_slots\<close>.\<close>

lemma put_slots_loop:
  assumes "enumerates xs new" and "\<And>a s. fmlookup new a = Some s \<Longrightarrow> s \<noteq> fmempty \<and> enumerates (ys a) s"
  shows "fold (\<lambda>(a, s) db. fold (\<lambda>(k, v) db. SetStorageSlot a k v db) (ys a) db) xs db = put_slots new db"
proof -
  have one: "ws \<noteq> [] \<Longrightarrow> fold (\<lambda>(k, v) db. SetStorageSlot a k v db) ws db
      = db\<lparr>sd_bfStorage := fmupd a (fold (\<lambda>(k, v) t. fmupd k v t) ws (inner (sd_bfStorage db) a)) (sd_bfStorage db)\<rparr>"
    for a ws and db :: "'a state_db"
  proof (induction ws arbitrary: db)
    case (Cons w ws)
    then show ?case by (cases "ws = []") (auto simp: SetStorageSlot_def nset_def inner_def split: prod.split)
  qed simp
  have in_map: "(a, s) \<in> set xs \<Longrightarrow> fmlookup new a = Some s" for a s
    using assms(1) by (auto simp: enumerates_def fmlookup_of_list)
  have ne: "(a, s) \<in> set xs \<Longrightarrow> ys a \<noteq> []" for a s
    using assms(2) [OF in_map [of a s]] by (auto simp: enumerates_def)
  have "fold (\<lambda>(a, s) db. fold (\<lambda>(k, v) db. SetStorageSlot a k v db) (ys a) db) zs db
      = db\<lparr>sd_bfStorage := fold (\<lambda>(a, s) m. fmupd a (fold (\<lambda>(k, v) t. fmupd k v t) (ys a) (inner m a)) m) zs (sd_bfStorage db)\<rparr>"
    if "set zs \<subseteq> set xs" for zs and db :: "'a state_db"
    using that
  proof (induction zs arbitrary: db)
    case (Cons z zs)
    obtain a s where z: "z = (a, s)" by (cases z)
    have "ys a \<noteq> []" using Cons.prems ne [of a s] by (simp add: z)
    then show ?case using Cons by (simp add: z one)
  qed simp
  then show ?thesis using range_copy_nested [OF assms(1), of ys "sd_bfStorage db"] assms(2)
    by (simp add: put_slots_def)
qed

subsection \<open>Replays\<close>

lemma replay_append:
  "replay p db acc (xs @ ys) =
    (case replay p db acc xs of None \<Rightarrow> None
     | Some a \<Rightarrow> replay p (if xs = [] then db else overlay_state p a) a ys)"
proof (induction xs arbitrary: db acc)
  case (Cons x xs)
  then show ?case by (cases xs) (auto split: option.split prod.split)
qed simp

lemma replay_leg:
  "run_leg p db steps vol = Some (Some (out, gas, new)) \<Longrightarrow>
    replay p db acc [\<lparr>lg_Steps = steps, lg_Volume = vol, lg_Output = out, lg_GasUsed = gas\<rparr>] = Some (nmerge acc new)"
  by simp

lemma sums_simps [simp]:
  "volumes [] = 0" "volumes (l # ls) = unat (lg_Volume l) + volumes ls" "volumes (xs @ ys) = volumes xs + volumes ys"
  "outputs [] = 0" "outputs (l # ls) = lg_Output l + outputs ls" "outputs (xs @ ys) = outputs xs + outputs ys"
  "gas_of [] = 0" "gas_of (l # ls) = lg_GasUsed l + gas_of ls" "gas_of (xs @ ys) = gas_of xs + gas_of ys"
  by (simp_all add: volumes_def outputs_def gas_of_def)

text \<open>
  A run that started from slots \<open>acc\<close> and state \<open>db\<close> is faithful to its legs, and has routed no more
  than the amount.
\<close>

definition run_faithful ::
  "('f, 'r, 'o) params \<Rightarrow> 'f split_db \<Rightarrow> storage_map \<Rightarrow> ('f, 'o) run \<Rightarrow> bool" where
  "run_faithful p db acc r \<longleftrightarrow>
     replay p db acc (rn_Legs r) = Some (nmerge acc (rn_dirty r))
     \<and> rn_state r = (if rn_Legs r = [] then db else overlay_state p (nmerge acc (rn_dirty r)))
     \<and> rn_Total r = outputs (rn_Legs r) \<and> rn_Gas r = gas_of (rn_Legs r)"

definition run_ok ::
  "('f, 'r, 'o) params \<Rightarrow> 'f split_db \<Rightarrow> storage_map \<Rightarrow> u256 \<Rightarrow> ('f, 'o) run \<Rightarrow> bool" where
  "run_ok p db acc amountIn r \<longleftrightarrow> run_faithful p db acc r
     \<and> volumes (rn_Legs r) = unat (rn_routed r) \<and> rn_routed r \<le> amountIn"

lemma run_ok_new: "run_ok p db acc amountIn (new_run db)"
  by (simp add: run_ok_def run_faithful_def new_run_def)

lemma run_ok_cong:
  "run_ok p db acc amountIn r \<Longrightarrow> rn_routed r' = rn_routed r \<and> rn_state r' = rn_state r \<and> rn_dirty r' = rn_dirty r
    \<and> rn_Legs r' = rn_Legs r \<and> rn_Total r' = rn_Total r \<and> rn_Gas r' = rn_Gas r \<Longrightarrow> run_ok p db acc amountIn r'"
  by (simp add: run_ok_def run_faithful_def)

lemma run_ok_result:
  assumes "run_ok p db fmempty amountIn r" and "db \<in> start_states p"
  shows "kept p amountIn (result_of r)"
  using assms by (auto simp: kept_def run_ok_def run_faithful_def split_ok_def within_def result_of_def word_le_nat_alt)

lemma run_ok_result_or_nil:
  "run_ok p db fmempty amountIn r \<Longrightarrow> db \<in> start_states p \<Longrightarrow> result_or_nil r = Some res
    \<Longrightarrow> kept p amountIn res"
  using run_ok_result by (auto simp: result_or_nil_def split: if_splits)

lemma unat_routed_add:
  fixes vol routed amountIn :: u256
  assumes "vol \<le> amountIn - routed" and "routed \<le> amountIn"
  shows "unat (routed + vol) = unat routed + unat vol" and "routed + vol \<le> amountIn"
proof -
  have "unat vol \<le> unat amountIn - unat routed"
    using assms by (simp add: word_le_nat_alt unat_sub)
  moreover have "unat routed \<le> unat amountIn" using assms(2) by (simp add: word_le_nat_alt)
  moreover have "unat amountIn < 2 ^ 256" using unsigned_less [of amountIn] by simp
  ultimately have "unat routed + unat vol \<le> unat amountIn" "unat routed + unat vol < 2 ^ 256" by linarith+
  then show "unat (routed + vol) = unat routed + unat vol" by (simp add: unat_word_ariths)
  then show "routed + vol \<le> amountIn" using \<open>unat routed + unat vol \<le> unat amountIn\<close>
    by (simp add: word_le_nat_alt)
qed

text \<open>The three ways of keeping a leg.\<close>

definition keeps_leg ::
  "('f, 'r, 'o) params \<Rightarrow> storage_map \<Rightarrow> ('f, 'o) run \<Rightarrow> route_step list \<Rightarrow> u256 \<Rightarrow> u256 \<Rightarrow> 64 word \<Rightarrow> storage_map
    \<Rightarrow> ('f, 'o) run \<Rightarrow> bool" where
  "keeps_leg p acc r steps vol out gas new r' \<longleftrightarrow>
     rn_Legs r' = rn_Legs r @ [\<lparr>lg_Steps = steps, lg_Volume = vol, lg_Output = out, lg_GasUsed = gas\<rparr>]
     \<and> rn_Total r' = rn_Total r + out \<and> rn_Gas r' = rn_Gas r + gas \<and> rn_routed r' = rn_routed r + vol
     \<and> rn_dirty r' = nmerge (rn_dirty r) new \<and> rn_state r' = overlay_state p (nmerge acc (nmerge (rn_dirty r) new))"

lemma run_faithful_leg:
  assumes "run_faithful p db acc r" and "run_leg p (rn_state r) steps vol = Some (Some (out, gas, new))"
    and "keeps_leg p acc r steps vol out gas new r'"
  shows "run_faithful p db acc r'"
proof -
  have "replay p db acc (rn_Legs r') = Some (nmerge acc (rn_dirty r'))"
    using assms by (auto simp: run_faithful_def keeps_leg_def replay_append nmerge_assoc split: if_splits)
  then show ?thesis using assms by (simp add: run_faithful_def keeps_leg_def)
qed

lemma run_ok_leg:
  assumes "run_ok p db acc amountIn r" and "run_leg p (rn_state r) steps vol = Some (Some (out, gas, new))"
    and "vol \<le> amountIn - rn_routed r" and "keeps_leg p acc r steps vol out gas new r'"
  shows "run_ok p db acc amountIn r'"
proof -
  have "rn_routed r \<le> amountIn" and f: "run_faithful p db acc r" using assms(1) by (simp_all add: run_ok_def)
  note n = unat_routed_add [OF assms(3) this(1)]
  show ?thesis using assms(1,4) n run_faithful_leg [OF f assms(2,4)] by (simp add: run_ok_def keeps_leg_def)
qed

lemma rebuild_keeps_leg:
  "keeps_leg p fmempty r steps vol out gas new (rebuild_dirty p new (book_leg steps vol out gas r))"
  by (simp add: keeps_leg_def rebuild_dirty_def book_leg_def Let_def)

lemmas run_ok_rebuild = run_ok_leg [OF _ _ _ rebuild_keeps_leg]

lemma run_ok_spread:
  assumes "run_ok p (overlay_state p fmempty) fmempty amountIn r"
    and "run_leg p (rn_state r) steps vol = Some (Some (out, gas, new))" and "vol \<le> amountIn - rn_routed r"
  shows "run_ok p (overlay_state p fmempty) fmempty amountIn (spread_dirty p new (book_leg steps vol out gas r))"
proof (rule run_ok_leg [OF assms])
  have "rn_state r = overlay_state p (rn_dirty r)"
    using assms(1) by (cases "rn_Legs r") (auto simp: run_ok_def run_faithful_def)
  then show "keeps_leg p fmempty r steps vol out gas new (spread_dirty p new (book_leg steps vol out gas r))"
    by (simp add: keeps_leg_def spread_dirty_def book_leg_def)
qed

lemma run_ok_chunk:
  assumes "run_ok p db acc amountIn r"
    and "run_leg p (rn_state r) steps vol = Some (Some (out, gas, new))" and "vol \<le> amountIn - rn_routed r"
  shows "run_ok p db acc amountIn (chunk_dirty p acc new (book_leg steps vol out gas r))"
  by (rule run_ok_leg [OF assms]) (simp add: keeps_leg_def chunk_dirty_def book_leg_def Let_def)

text \<open>The search executes its route exactly as the leg is executed.\<close>

lemma find_route_runs:
  assumes "find_route p quote db vol = Some (Some rt)"
  shows "\<exists>ret err new. run_router p db (r_data rt) = ((ret, of_nat (r_gas rt), err), new) \<and> err = None \<and> 32 \<le> length ret
    \<and> run_leg p db (r_steps rt) vol = Some (Some (r_out rt, of_nat (r_gas rt), new))"
proof -
  from assms obtain rs where f: "FindTopRoutes quote (sp_Adj p) (sp_Pools p) (sp_hex p) (router_evm p db) (sp_order p)
      (sp_TokenIn p) (sp_TokenOut p) vol (sp_MaxHops p) 1 = Some rs" "rt \<in> set rs"
    unfolding find_route_def FindBestRoute_def bind_eq_Some_conv
    by (metis (no_types, lifting) list.set_intros(1) list.simps(4,5) neq_Nil_conv option.distinct(1) option.inject)
  show ?thesis
  proof (rule FindTopRoutes_node [OF f])
    fix nodes c
    assume "route_of (sp_hex p) (router_evm p db) (sp_Pools p) nodes vol c rt"
    then have d: "buildCalldata p (r_steps rt) vol = Some (r_data rt)"
      and e: "evm_amount (router_evm p db (r_data rt)) = Some (r_out rt, r_gas rt)"
      by (simp_all add: route_of_def buildCalldata_def swap_calldata_def)
    obtain ret gas err new where r: "run_router p db (r_data rt) = ((ret, gas, err), new)" by (metis prod.exhaust)
    with e have "err = None" "32 \<le> length ret" "r_gas rt = unat gas" "r_out rt = be_word (take 32 ret)" "r_out rt \<noteq> 0"
      "ret ! 0 AND 0x80 = 0"
      by (auto simp: router_evm_def evm_amount_def Let_def split: if_splits)
    with d r show ?thesis by (simp add: run_leg_def)
  qed
qed

end
