(* ===== verification/Split_Correct.thy ===== *)
theory Split_Correct
  imports Split_Replay
begin

text \<open>
  Every strategy of \<open>pathfinder/splitter\<close> keeps its promise (theory \<open>Split_Replay\<close>), and what the
  strategies that compare alternatives guarantee.
\<close>

subsection \<open>The searching strategies\<close>

abbreviation overlay_run :: "('f, 'r, 'o) params \<Rightarrow> u256 \<Rightarrow> ('f, 'o) run \<Rightarrow> bool" where
  "overlay_run p amountIn r \<equiv> run_ok p (overlay_state p fmempty) fmempty amountIn r"

lemma run_chunk_ok:
  assumes "overlay_run p amountIn r" and "run_chunk p first probeVol vol r = Some (Some r')" and "vol \<le> amountIn - rn_routed r"
  shows "overlay_run p amountIn r'"
proof -
  obtain pqs r1 where n: "next_source p first r = (pqs, r1)" by force
  note k = next_source_fields [OF n]
  have "overlay_run p amountIn r1" using run_ok_cong [OF assms(1) k] .
  then show ?thesis using assms(2,3) n k
    by (auto simp: run_chunk_def bind_eq_Some_conv split: option.splits intro!: run_ok_spread)
qed

lemma mixed_loop_ok:
  "overlay_run p amountIn r \<Longrightarrow> mixed_loop p amountIn onePercent chunks lastPct i r = Some r' \<Longrightarrow> overlay_run p amountIn r'"
proof (induction p amountIn onePercent chunks lastPct i r rule: mixed_loop.induct)
  case (1 p amountIn onePercent chunks lastPct i r)
  show ?case
    using "1.prems"(2) "1.prems"(1) "1.IH" run_chunk_ok [OF "1.prems"(1)]
    by (subst (asm) mixed_loop.simps) (auto simp: Let_def split: if_splits option.splits)
qed

lemma split_loop_ok:
  "overlay_run p amountIn r \<Longrightarrow> split_loop p amountIn execVol probePct i n r = Some r' \<Longrightarrow> overlay_run p amountIn r'"
proof (induction n arbitrary: i r)
  case (Suc n)
  then show ?case
    by (auto simp: Let_def bind_eq_Some_conv not_less split: if_splits option.splits
        dest!: run_chunk_ok [OF Suc.prems(1)] dest: Suc.IH)
qed simp

lemma dynamic_pick_vol:
  assumes "dynamic_pick p pqs db remaining largeVol smallVol prevPath vol = Some (Some (vol', route))" and "vol \<le> remaining"
  shows "vol' \<le> remaining"
  using assms by (auto simp: dynamic_pick_def Let_def bind_eq_Some_conv split: option.splits if_splits)

lemma dynamic_loop_ok:
  "overlay_run p amountIn r \<Longrightarrow> dynamic_loop p amountIn largeVol smallVol forceEvery i n prevPath smalls r = Some r'
    \<Longrightarrow> overlay_run p amountIn r'"
proof (induction n arbitrary: i prevPath smalls r)
  case (Suc n)
  obtain pqs r1 where ns: "next_source p (i = 0) r = (pqs, r1)" by force
  note k = next_source_fields [OF ns]
  have r1: "overlay_run p amountIn r1" using run_ok_cong [OF Suc.prems(1) k] .
  let ?remaining = "amountIn - rn_routed r"
  define vol0 where "vol0 = (if i = 0 \<or> prevPath = [] \<or> (0 < forceEvery \<and> forceEvery \<le> smalls) then largeVol else smallVol)"
  define vol where "vol = (if ?remaining < vol0 then ?remaining else vol0)"
  have le: "vol \<le> ?remaining" by (simp add: vol_def not_less)
  have eq: "dynamic_loop p amountIn largeVol smallVol forceEvery i (Suc n) prevPath smalls r =
    (if ?remaining = 0 then Some r else if vol = 0 then Some r
     else do {
       picked \<leftarrow> dynamic_pick p pqs (rn_state r1) ?remaining largeVol smallVol prevPath vol;
       case picked of None \<Rightarrow> Some r1
       | Some (vol, route) \<Rightarrow> do {
           done \<leftarrow> run_leg p (rn_state r1) (r_steps route) vol;
           case done of None \<Rightarrow> Some r1
           | Some (evmOut, gasUsed, newDirty) \<Rightarrow>
               dynamic_loop p amountIn largeVol smallVol forceEvery (i + 1) n (pathKey (r_steps route))
                 (if vol = smallVol then smalls + 1 else 0)
                 (spread_dirty p newDirty (book_leg (r_steps route) vol evmOut gasUsed r1)) } })"
    by (simp only: dynamic_loop.simps Let_def vol_def vol0_def ns prod.case)
  show ?case
  proof (cases "?remaining = 0 \<or> vol = 0")
    case True
    then show ?thesis using Suc.prems unfolding eq by (auto split: if_splits)
  next
    case False
    with Suc.prems(2) obtain picked where
      p: "dynamic_pick p pqs (rn_state r1) ?remaining largeVol smallVol prevPath vol = Some picked"
      unfolding eq by (auto simp: bind_eq_Some_conv)
    show ?thesis
    proof (cases picked)
      case None
      then show ?thesis using Suc.prems(2) False p r1 unfolding eq by simp
    next
      case (Some vr)
      obtain vol' route where vr: "vr = (vol', route)" by force
      have le': "vol' \<le> amountIn - rn_routed r1" using dynamic_pick_vol [OF _ le] p Some vr k by auto
      from Suc.prems(2) False p Some vr obtain don where
        d: "run_leg p (rn_state r1) (r_steps route) vol' = Some don"
        unfolding eq by (auto simp: bind_eq_Some_conv)
      show ?thesis
      proof (cases don)
        case None
        then show ?thesis using Suc.prems(2) False p Some vr d r1 unfolding eq by simp
      next
        case (Some ogn)
        obtain out gas new where ogn: "ogn = (out, gas, new)" by (metis prod.exhaust)
        note next_ok = run_ok_spread [OF r1 d [unfolded Some ogn] le']
        show ?thesis using Suc.prems(2) False p \<open>picked = Some vr\<close> vr d Some ogn Suc.IH [OF next_ok]
          unfolding eq by simp
      qed
    qed
  qed
qed simp

lemma greedy_chunk_ok:
  assumes "run_ok p db fmempty amountIn r" and "greedy_chunk p keep pqs vol r = Some (go, r')"
    and "vol \<le> amountIn - rn_routed r"
    and "\<And>out gas new steps. run_leg p (rn_state r) steps vol = Some (Some (out, gas, new))
      \<Longrightarrow> run_ok p db fmempty amountIn (keep new (book_leg steps vol out gas r))
        \<and> rn_routed (keep new (book_leg steps vol out gas r)) = rn_routed r + vol"
  shows "run_ok p db fmempty amountIn r' \<and> (go \<longrightarrow> rn_routed r' = rn_routed r + vol)"
proof -
  from assms(2) obtain found where f: "find_route p pqs (rn_state r) vol = Some found"
    by (auto simp: greedy_chunk_def bind_eq_Some_conv)
  show ?thesis
  proof (cases found)
    case None
    then show ?thesis using assms(1,2) f by (simp add: greedy_chunk_def)
  next
    case (Some rt)
    from find_route_runs [OF f [unfolded Some]] obtain ret err new where
      "run_router p (rn_state r) (r_data rt) = ((ret, of_nat (r_gas rt), err), new)" "err = None" "32 \<le> length ret"
      and l: "run_leg p (rn_state r) (r_steps rt) vol = Some (Some (r_out rt, of_nat (r_gas rt), new))" by blast
    then have "go \<and> r' = keep new (book_leg (r_steps rt) vol (r_out rt) (of_nat (r_gas rt)) r)"
      using assms(2) f Some by (simp add: greedy_chunk_def Let_def not_less)
    then show ?thesis using assms(4) [OF l] by simp
  qed
qed

lemma greedy_loop_ok:
  assumes "run_ok p db fmempty amountIn r" and "unat (rn_routed r) + n * unat vol \<le> unat amountIn"
    and "greedy_loop p vol i n r = Some r'"
  shows "run_ok p db fmempty amountIn r'"
  using assms
proof (induction n arbitrary: i r)
  case (Suc n)
  let ?pqs = "if i = 0 then sp_PM p else sp_quoter p (sp_NewOverlay p (rn_dirty r))"
  from Suc.prems(3) obtain go r1 where c: "greedy_chunk p (rebuild_dirty p) ?pqs vol r = Some (go, r1)"
    by (auto simp: Let_def bind_eq_Some_conv)
  have le: "vol \<le> amountIn - rn_routed r" and rl: "rn_routed r \<le> amountIn"
    using Suc.prems(1,2) by (auto simp: run_ok_def word_le_nat_alt unat_sub)
  have r1: "run_ok p db fmempty amountIn r1 \<and> (go \<longrightarrow> rn_routed r1 = rn_routed r + vol)"
    by (rule greedy_chunk_ok [OF Suc.prems(1) c le])
      (use run_ok_rebuild [OF Suc.prems(1) _ le] in \<open>auto simp: rebuild_dirty_def book_leg_def Let_def\<close>)
  show ?case
  proof (cases go)
    case True
    then have "unat (rn_routed r1) + n * unat vol \<le> unat amountIn"
      using r1 Suc.prems(2) unat_routed_add(1) [OF le rl] by simp
    then show ?thesis using Suc.IH [of r1 "i + 1"] r1 c Suc.prems(3) True by (simp add: Let_def)
  qed (use r1 c Suc.prems(3) in \<open>simp add: Let_def\<close>)
qed simp

lemma fast_loop_ok:
  assumes "overlay_run p amountIn r" and "unat (rn_routed r) + n * unat vol \<le> unat amountIn"
    and "fast_loop p vol i n r = Some r'"
  shows "overlay_run p amountIn r'"
  using assms
proof (induction n arbitrary: i r)
  case (Suc n)
  obtain pqs r0 where ns: "next_source p (i = 0) r = (pqs, r0)" by force
  note k = next_source_fields [OF ns]
  have r0: "overlay_run p amountIn r0" using run_ok_cong [OF Suc.prems(1) k] .
  from Suc.prems(3) ns obtain go r1 where c: "greedy_chunk p (spread_dirty p) pqs vol r0 = Some (go, r1)"
    by (auto simp: bind_eq_Some_conv)
  have le: "vol \<le> amountIn - rn_routed r0" and rl: "rn_routed r0 \<le> amountIn"
    using r0 Suc.prems(2) k by (auto simp: run_ok_def word_le_nat_alt unat_sub)
  have r1: "overlay_run p amountIn r1 \<and> (go \<longrightarrow> rn_routed r1 = rn_routed r0 + vol)"
    by (rule greedy_chunk_ok [OF r0 c le])
      (use run_ok_spread [OF r0 _ le] in \<open>auto simp: spread_dirty_def book_leg_def\<close>)
  show ?case
  proof (cases go)
    case True
    then have "unat (rn_routed r1) + n * unat vol \<le> unat amountIn"
      using r1 Suc.prems(2) k unat_routed_add(1) [OF le rl] by simp
    then show ?thesis using Suc.IH [of r1 "i + 1"] r1 c ns Suc.prems(3) True by simp
  qed (use r1 c ns Suc.prems(3) in simp)
qed simp

text \<open>The chunks of \<open>Greedy\<close> fit into the amount; the remainder of the division is not routed.\<close>

lemma chunks_fit:
  fixes chunks :: "64 word"
  shows "nat (sint chunks) * unat (amountIn div NewInt chunks) \<le> unat amountIn"
proof -
  have "nat (sint chunks) \<le> unat chunks"
  proof -
    have "sint chunks \<le> uint chunks"
      by (simp add: sint_uint signed_take_bit_int_less_eq_self_iff order_trans [OF _ uint_ge_0])
    then show ?thesis by (simp add: nat_le_iff)
  qed
  moreover have "unat (NewInt chunks) = unat chunks"
  proof -
    have "unat chunks < 2 ^ 256" using unsigned_less [of chunks] by (rule less_trans) simp
    then show ?thesis by (simp add: NewInt_def unsigned_ucast_eq take_bit_nat_eq_self_iff)
  qed
  ultimately have "nat (sint chunks) * unat (amountIn div NewInt chunks) \<le> unat chunks * (unat amountIn div unat chunks)"
    by (simp add: unat_div)
  also have "\<dots> \<le> unat amountIn" by simp
  finally show ?thesis .
qed

lemma optimized_loop_ok:
  "run_ok p db fmempty amountIn r \<Longrightarrow> optimized_loop p amountIn chunkAmount paths chunks chunk dead r = Some r'
    \<Longrightarrow> run_ok p db fmempty amountIn r'"
proof (induction p amountIn chunkAmount paths chunks chunk dead r rule: optimized_loop.induct)
  case (1 p amountIn chunkAmount paths chunks chunk dead r)
  show ?case
    using "1.prems"(2) "1.prems"(1) "1.IH" run_ok_rebuild [OF "1.prems"(1)]
    by (subst (asm) optimized_loop.simps) (auto simp: Let_def not_less split: if_splits option.splits prod.splits)
qed

lemma allocate_loop_ok:
  "overlay_run p amountIn r \<Longrightarrow> allocate_loop p amountIn chunkVol paths dead r = Some r' \<Longrightarrow> overlay_run p amountIn r'"
proof (induction p amountIn chunkVol paths dead r rule: allocate_loop.induct)
  case (1 p amountIn chunkVol paths dead r)
  obtain pqs r1 where ns: "next_source p (rn_dirty r = fmempty) r = (pqs, r1)" by force
  note k = next_source_fields [OF ns]
  have r1: "overlay_run p amountIn r1" using run_ok_cong [OF "1.prems"(1) k] .
  show ?case
    using "1.prems"(2) "1.prems"(1) ns k r1 "1.IH" run_ok_spread [OF r1]
    by (subst (asm) allocate_loop.simps) (auto simp: Let_def not_less split: if_splits option.splits prod.splits)
qed

lemma verify_legs_ok:
  "run_faithful p db fmempty r \<Longrightarrow> verify_legs p ls r = Some r' \<Longrightarrow> run_faithful p db fmempty r'"
proof (induction p ls r rule: verify_legs.induct)
  case (2 p steps vol rest r)
  show ?case
  proof (cases "vol = 0")
    case False
    with "2.prems"(2) obtain y where y: "run_leg p (rn_state r) steps vol = Some y" by (auto simp: bind_eq_Some_conv)
    show ?thesis
    proof (cases y)
      case (Some ogn)
      obtain out gas new where "ogn = (out, gas, new)" by (metis prod.exhaust)
      then show ?thesis
        using 2 False y Some run_faithful_leg [OF "2.prems"(1) _ rebuild_keeps_leg, of steps vol out gas new] by simp
    qed (use 2 False y in simp)
  qed (use 2 in simp)
qed simp

subsection \<open>GreedyCompete\<close>

lemma single_shot_runs:
  assumes "single_shot p pqs db vol = Some (steps, out, gas, new)" and "out \<noteq> 0"
  shows "run_leg p db steps vol = Some (Some (out, gas, new))"
proof -
  from assms obtain rt where "find_route p pqs db vol = Some (Some rt)"
    by (auto simp: single_shot_def bind_eq_Some_conv split: option.splits)
  moreover from this assms obtain data where d: "buildCalldata p (r_steps rt) vol = Some data"
    by (auto simp: single_shot_def bind_eq_Some_conv)
  moreover obtain ret g err dirty where "run_router p db data = ((ret, g, err), dirty)" by (metis prod.exhaust)
  ultimately show ?thesis using assms by (auto simp: single_shot_def run_leg_def not_less split: if_splits)
qed

lemma slab_chunk_ok:
  assumes "run_ok p db acc slabVol r" and "slab_chunk p pqs acc first vol r = Some (Some r')" and "vol \<le> slabVol - rn_routed r"
  shows "run_ok p db acc slabVol r'"
proof -
  obtain cpqs r1 where n: "chunk_source p pqs acc first r = (cpqs, r1)" by force
  note k = chunk_source_fields [OF n]
  have "run_ok p db acc slabVol r1" using run_ok_cong [OF assms(1) k] .
  then show ?thesis using assms(2,3) n k
    by (auto simp: slab_chunk_def bind_eq_Some_conv split: option.splits intro!: run_ok_chunk)
qed

lemma slab_loop_ok:
  "run_ok p db acc slabVol r \<Longrightarrow> slab_loop p pqs acc slabVol chunkVol first r = Some r' \<Longrightarrow> run_ok p db acc slabVol r'"
proof (induction p pqs acc slabVol chunkVol first r rule: slab_loop.induct)
  case (1 p pqs acc slabVol chunkVol first r)
  show ?case
    using "1.prems"(2) "1.prems"(1) "1.IH" slab_chunk_ok [OF "1.prems"(1)]
    by (subst (asm) slab_loop.simps) (auto simp: Let_def not_less split: if_splits option.splits)
qed

lemma take_legs_ok:
  assumes r: "overlay_run p amountIn r" and rep: "replay p (rn_state r) (rn_dirty r) legs = Some (nmerge (rn_dirty r) dirty)"
    and "out = outputs legs" and "gas = gas_of legs" and "volumes legs = unat vol" and "vol \<le> amountIn - rn_routed r"
    and "legs \<noteq> []"
  shows "overlay_run p amountIn (take_legs p legs out gas vol dirty r)"
proof -
  have st: "rn_state r = overlay_state p (rn_dirty r)" using r by (cases "rn_Legs r") (auto simp: run_ok_def run_faithful_def)
  have "replay p (overlay_state p fmempty) fmempty (rn_Legs r @ legs) = Some (nmerge (rn_dirty r) dirty)"
  proof -
    have "replay p (overlay_state p fmempty) fmempty (rn_Legs r) = Some (rn_dirty r)"
      and "rn_Legs r = [] \<Longrightarrow> rn_state r = overlay_state p fmempty"
      using r by (simp_all add: run_ok_def run_faithful_def)
    then show ?thesis using rep st by (simp only: replay_append option.case split: if_splits) metis
  qed
  moreover have rl: "rn_routed r \<le> amountIn" and t: "rn_Total r = outputs (rn_Legs r)" "rn_Gas r = gas_of (rn_Legs r)"
      "volumes (rn_Legs r) = unat (rn_routed r)"
    using r by (simp_all add: run_ok_def run_faithful_def)
  moreover note unat_routed_add [OF assms(6) rl]
  ultimately show ?thesis using assms(3-5,7) by (simp add: run_ok_def run_faithful_def take_legs_def st)
qed

lemma compete_slab_ok:
  assumes "overlay_run p amountIn r" and "compete_slab p first vol chunkVol r = Some (Some r')" and "vol \<le> amountIn - rn_routed r"
  shows "overlay_run p amountIn r'"
proof -
  obtain pqs r1 where n: "next_source p first r = (pqs, r1)" by force
  note k = next_source_fields [OF n]
  have r1: "overlay_run p amountIn r1" using run_ok_cong [OF assms(1) k] .
  from assms(2) n obtain single chunked r2 where
    s: "single_shot p pqs (rn_state r1) vol = Some single"
    and c: "slab_loop p pqs (rn_dirty r1) vol chunkVol True (new_run (rn_state r1)) = Some chunked"
    and w: "pick_winner p vol single chunked r1 = Some r2"
    and r': "rn_routed r' = rn_routed r2 \<and> rn_state r' = rn_state r2 \<and> rn_dirty r' = rn_dirty r2
      \<and> rn_Legs r' = rn_Legs r2 \<and> rn_Total r' = rn_Total r2 \<and> rn_Gas r' = rn_Gas r2"
    by (auto simp: compete_slab_def bind_eq_Some_conv)
  have ch: "run_ok p (rn_state r1) (rn_dirty r1) vol chunked" by (rule slab_loop_ok [OF run_ok_new c])
  obtain steps out gas new where single: "single = (steps, out, gas, new)" by (metis prod.exhaust)
  let ?one = "[\<lparr>lg_Steps = steps, lg_Volume = vol, lg_Output = out, lg_GasUsed = gas\<rparr>]"
  from w consider (one) "out \<noteq> 0" "r2 = take_legs p ?one out gas vol new r1"
    | (many) "rn_Total chunked \<noteq> 0"
        "r2 = take_legs p (rn_Legs chunked) (rn_Total chunked) (rn_Gas chunked) (rn_routed chunked) (rn_dirty chunked) r1"
    by (auto simp: pick_winner_def single Let_def split: if_splits)
  then have "overlay_run p amountIn r2"
  proof cases
    case one
    have "replay p (rn_state r1) (rn_dirty r1) ?one = Some (nmerge (rn_dirty r1) new)"
      by (rule replay_leg) (rule single_shot_runs [OF s [unfolded single] one(1)])
    then show ?thesis unfolding one(2) using r1 assms(3) k by (intro take_legs_ok) simp_all
  next
    case many
    have "rn_routed chunked \<le> amountIn - rn_routed r1" using ch assms(3) k by (auto simp: run_ok_def intro: order_trans)
    moreover have "rn_Legs chunked \<noteq> []" using many(1) ch by (auto simp: run_ok_def run_faithful_def)
    ultimately show ?thesis unfolding many(2) using r1 ch
      by (intro take_legs_ok) (simp_all add: run_ok_def run_faithful_def)
  qed
  then show ?thesis using r' by (rule run_ok_cong)
qed

lemma compete_loop_ok:
  "overlay_run p amountIn r \<Longrightarrow> compete_loop p amountIn slabVol chunkVol slab n r = Some r' \<Longrightarrow> overlay_run p amountIn r'"
proof (induction n arbitrary: slab r)
  case (Suc n)
  then show ?case
    by (auto simp: Let_def not_less split: if_splits option.splits
        dest!: compete_slab_ok [OF Suc.prems(1)] dest: Suc.IH)
qed simp

subsection \<open>GreedyRecursive\<close>

lemma run_leg_calldata:
  assumes "run_leg p db steps vol = Some (Some (out, gas, new))"
  shows "\<exists>data. buildCalldata p steps vol = Some data \<and> snd (run_router p db data) = new"
proof -
  from assms obtain data where d: "buildCalldata p steps vol = Some data" by (auto simp: run_leg_def bind_eq_Some_conv)
  moreover obtain ret g err dirty where "run_router p db data = ((ret, g, err), dirty)" by (metis prod.exhaust)
  ultimately show ?thesis using assms by (auto simp: run_leg_def Let_def split: if_splits)
qed

text \<open>Executing the legs of the first half again gives the slots and the state they were found with.\<close>

lemma rerun_replay:
  assumes "replay p db (nmerge acc fd) legs = Some a" and "rerun_legs p acc legs (fd, db) = Some (fd', db')"
  shows "nmerge acc fd' = a \<and> (legs \<noteq> [] \<longrightarrow> db' = overlay_state p a)"
  using assms
proof (induction legs arbitrary: fd db)
  case (Cons l ls)
  then obtain new where r: "run_leg p db (lg_Steps l) (lg_Volume l) = Some (Some (lg_Output l, lg_GasUsed l, new))"
    and t: "replay p (overlay_state p (nmerge (nmerge acc fd) new)) (nmerge (nmerge acc fd) new) ls = Some a"
    by (auto split: option.splits if_splits)
  from run_leg_calldata [OF r] have
    "rerun_legs p acc ls (nmerge fd new, overlay_state p (nmerge acc (nmerge fd new))) = Some (fd', db')"
    using Cons.prems(2) by (auto simp: Let_def)
  with Cons.IH [of "overlay_state p (nmerge acc (nmerge fd new))" "nmerge fd new"] t show ?case
    by (cases ls) (auto simp: nmerge_assoc)
qed simp

text \<open>The legs replay, carry the whole volume, and give at least the output of one shot.\<close>

definition beats_single :: "('f, 'r, 'o) params \<Rightarrow> quoter \<Rightarrow> 'f split_db \<Rightarrow> u256 \<Rightarrow> leg list \<Rightarrow> bool" where
  "beats_single p pqs db vol legs \<longleftrightarrow>
     (\<exists>rt out gas new. find_route p pqs db vol = Some (Some rt)
        \<and> run_leg p db (r_steps rt) vol = Some (Some (out, gas, new)) \<and> out \<le> outputs legs)"

definition legs_ok ::
  "('f, 'r, 'o) params \<Rightarrow> quoter \<Rightarrow> 'f split_db \<Rightarrow> storage_map \<Rightarrow> u256 \<Rightarrow> leg list \<Rightarrow> bool" where
  "legs_ok p pqs db acc vol legs \<longleftrightarrow> legs = [] \<or>
     ((\<exists>a. replay p db acc legs = Some a) \<and> volumes legs = unat vol \<and> beats_single p pqs db vol legs)"

lemma unat_half:
  fixes vol :: u256
  shows "unat (drop_bit 1 vol) + unat (vol - drop_bit 1 vol) = unat vol"
proof -
  have "drop_bit 1 vol = vol div 2" by (simp add: drop_bit_Suc)
  moreover have "unat (vol div 2) = unat vol div 2" by (simp only: unat_div) simp
  ultimately have "unat (drop_bit 1 vol) = unat vol div 2" by simp
  then have "drop_bit 1 vol \<le> vol" by (simp add: word_le_nat_alt)
  then show ?thesis by (simp add: unat_sub word_le_nat_alt)
qed

lemma recurse_cases:
  assumes "recurseSplit p vol minVol db acc pqs fuel = Some legs" and "legs \<noteq> []"
  obtains rt out gas new where "find_route p pqs db vol = Some (Some rt)"
    "run_leg p db (r_steps rt) vol = Some (Some (out, gas, new))"
    "legs = [\<lparr>lg_Steps = r_steps rt, lg_Volume = vol, lg_Output = out, lg_GasUsed = gas\<rparr>] \<or>
     (\<exists>d xs fd db' ys. fuel = Suc d \<and> recurseSplit p (drop_bit 1 vol) minVol db acc pqs d = Some xs \<and> xs \<noteq> [] \<and> ys \<noteq> []
       \<and> rerun_legs p acc xs (fmempty, db) = Some (fd, db')
       \<and> recurseSplit p (vol - drop_bit 1 vol) minVol db' (nmerge acc fd) (sp_quoter p (sp_NewOverlay p (nmerge acc fd))) d = Some ys
       \<and> out < outputs xs + outputs ys \<and> legs = xs @ ys)"
proof -
  note eq = assms(1) [unfolded recurseSplit.simps [of p vol]]
  from eq assms(2) obtain rt where f: "find_route p pqs db vol = Some (Some rt)"
    by (auto simp: bind_eq_Some_conv split: if_splits option.splits)
  from eq f assms(2) obtain ogn where r': "run_leg p db (r_steps rt) vol = Some (Some ogn)"
    by (auto simp: bind_eq_Some_conv split: if_splits option.splits)
  obtain out gas new where ogn: "ogn = (out, gas, new)" by (metis prod.exhaust)
  note r = r' [unfolded ogn]
  let ?one = "[\<lparr>lg_Steps = r_steps rt, lg_Volume = vol, lg_Output = out, lg_GasUsed = gas\<rparr>]"
  show thesis
  proof (cases "legs = ?one")
    case True
    with f r show ?thesis using that by blast
  next
    case False
    with eq f r assms(2) obtain d where d: "fuel = Suc d" by (cases fuel) (auto simp: Let_def split: if_splits)
    from eq f r assms(2) False d obtain xs where xs: "recurseSplit p (drop_bit 1 vol) minVol db acc pqs d = Some xs" "xs \<noteq> []"
      by (auto simp: Let_def bind_eq_Some_conv split: if_splits)
    from eq f r assms(2) False d xs obtain fd db' where rr: "rerun_legs p acc xs (fmempty, db) = Some (fd, db')"
      by (auto simp: Let_def bind_eq_Some_conv split: if_splits)
    from eq f r assms(2) False d xs rr obtain ys where
      "recurseSplit p (vol - drop_bit 1 vol) minVol db' (nmerge acc fd) (sp_quoter p (sp_NewOverlay p (nmerge acc fd))) d = Some ys"
      "ys \<noteq> []" "out < outputs xs + outputs ys" "legs = xs @ ys"
      by (auto simp: Let_def bind_eq_Some_conv split: if_splits)
    with f r d xs rr show ?thesis using that by blast
  qed
qed

lemma recurse_ok:
  "recurseSplit p vol minVol db acc pqs fuel = Some legs \<Longrightarrow> legs_ok p pqs db acc vol legs"
proof (induction fuel arbitrary: vol db acc pqs legs rule: less_induct)
  case (less fuel)
  show ?case
  proof (cases "legs = []")
    case False
    from less.prems False obtain rt out gas new where f: "find_route p pqs db vol = Some (Some rt)"
      and r: "run_leg p db (r_steps rt) vol = Some (Some (out, gas, new))"
      and c: "legs = [\<lparr>lg_Steps = r_steps rt, lg_Volume = vol, lg_Output = out, lg_GasUsed = gas\<rparr>] \<or>
     (\<exists>d xs fd db' ys. fuel = Suc d \<and> recurseSplit p (drop_bit 1 vol) minVol db acc pqs d = Some xs \<and> xs \<noteq> [] \<and> ys \<noteq> []
       \<and> rerun_legs p acc xs (fmempty, db) = Some (fd, db')
       \<and> recurseSplit p (vol - drop_bit 1 vol) minVol db' (nmerge acc fd) (sp_quoter p (sp_NewOverlay p (nmerge acc fd))) d = Some ys
       \<and> out < outputs xs + outputs ys \<and> legs = xs @ ys)"
      by (rule recurse_cases)
    from c show ?thesis
    proof (elim disjE exE conjE)
      assume "legs = [\<lparr>lg_Steps = r_steps rt, lg_Volume = vol, lg_Output = out, lg_GasUsed = gas\<rparr>]"
      then show ?thesis using f r by (auto simp: legs_ok_def beats_single_def)
    next
      fix d xs fd db' ys
      assume d: "fuel = Suc d" and xs: "recurseSplit p (drop_bit 1 vol) minVol db acc pqs d = Some xs" "xs \<noteq> []" and "ys \<noteq> []"
        and rr: "rerun_legs p acc xs (fmempty, db) = Some (fd, db')"
        and ys: "recurseSplit p (vol - drop_bit 1 vol) minVol db' (nmerge acc fd) (sp_quoter p (sp_NewOverlay p (nmerge acc fd))) d = Some ys"
        and gt: "out < outputs xs + outputs ys" and legs: "legs = xs @ ys"
      from less.IH [OF _ xs(1)] d xs(2) obtain a where a: "replay p db acc xs = Some a" "volumes xs = unat (drop_bit 1 vol)"
        by (auto simp: legs_ok_def)
      from rerun_replay [of p db acc fmempty xs a fd db'] a rr xs(2)
      have s: "nmerge acc fd = a" "db' = overlay_state p a" by simp_all
      from less.IH [OF _ ys] d s \<open>ys \<noteq> []\<close> obtain b where
        "replay p (overlay_state p a) a ys = Some b" "volumes ys = unat (vol - drop_bit 1 vol)"
        by (auto simp: legs_ok_def)
      then show ?thesis using a f r xs(2) gt legs unat_half [of vol]
        by (auto simp: legs_ok_def beats_single_def replay_append)
    qed
  qed (simp add: legs_ok_def)
qed

subsection \<open>All strategies\<close>

lemma start_states [simp]: "Base_db (sp_State p) \<in> start_states p" "overlay_state p fmempty \<in> start_states p"
  by (simp_all add: start_states_def)

lemma Greedy_kept: "Greedy p amountIn chunks = Some (Some res) \<Longrightarrow> kept p amountIn res"
  using run_ok_result greedy_loop_ok [OF run_ok_new] chunks_fit [of chunks amountIn]
  by (fastforce simp: Greedy_def Let_def new_run_def split: if_splits)

lemma GreedyFast_kept: "GreedyFast p amountIn chunks = Some (Some res) \<Longrightarrow> kept p amountIn res"
  using run_ok_result fast_loop_ok [OF run_ok_new] chunks_fit [of chunks amountIn]
  by (fastforce simp: GreedyFast_def Let_def new_run_def split: if_splits)

lemma GreedySplit_kept: "GreedySplit p amountIn probePct execPct = Some (Some res) \<Longrightarrow> kept p amountIn res"
  using run_ok_result_or_nil split_loop_ok [OF run_ok_new]
  by (fastforce simp: GreedySplit_def Let_def split: if_splits)

lemma GreedyMixed_kept: "GreedyMixed p amountIn sched = Some (Some res) \<Longrightarrow> kept p amountIn res"
  using run_ok_result_or_nil mixed_loop_ok [OF run_ok_new]
  by (fastforce simp: GreedyMixed_def Let_def split: if_splits)

lemma GreedyDynamic_kept: "greedyDynamicInner p amountIn largePct smallPct n = Some (Some res) \<Longrightarrow> kept p amountIn res"
  using run_ok_result_or_nil dynamic_loop_ok [OF run_ok_new]
  by (fastforce simp: greedyDynamicInner_def Let_def split: if_splits)

lemma GreedyCompete_kept: "GreedyCompete p amountIn slabPct chunkPct = Some (Some res) \<Longrightarrow> kept p amountIn res"
  using run_ok_result_or_nil compete_loop_ok [OF run_ok_new]
  by (fastforce simp: GreedyCompete_def Let_def split: if_splits)

lemma Optimized_kept: "Optimized p amountIn chunks = Some (Some res) \<Longrightarrow> kept p amountIn res"
  using run_ok_result optimized_loop_ok [OF run_ok_new]
  by (fastforce simp: Optimized_def Let_def bind_eq_Some_conv split: if_splits)

lemma Allocate_kept: "AllocateAcrossPaths p amountIn paths = Some (Some res) \<Longrightarrow> kept p amountIn res"
  using run_ok_result_or_nil allocate_loop_ok [OF run_ok_new]
  by (fastforce simp: AllocateAcrossPaths_def Let_def split: if_splits)

lemma GreedyRecursive_kept:
  assumes "GreedyRecursive p amountIn minPct = Some (Some res)"
  shows "kept p amountIn res \<and> volumes (sr_Legs res) = unat amountIn
    \<and> beats_single p (sp_PM p) (overlay_state p fmempty) amountIn (sr_Legs res)"
proof -
  define minVol where "minVol = (let m = amountIn div 100 * ucast minPct in if m = 0 then 1 else m)"
  from assms obtain legs where l: "recurseSplit p amountIn minVol (overlay_state p fmempty) fmempty (sp_PM p) 8 = Some legs"
    and ne: "legs \<noteq> []" and res: "res = \<lparr>sr_Legs = legs, sr_Total = outputs legs, sr_TotalGas = sum_list (map lg_GasUsed legs)\<rparr>"
    by (auto simp: GreedyRecursive_def Let_def bind_eq_Some_conv minVol_def split: if_splits)
  from recurse_ok [OF l] ne show ?thesis
    by (auto simp: kept_def legs_ok_def split_ok_def within_def res gas_of_def start_states_def)
qed

lemma WaterFill_ok:
  assumes "WaterFill p amountIn = Some (Some res)"
  shows "split_ok p res"
proof -
  have n: "run_faithful p (Base_db (sp_State p)) fmempty (new_run (Base_db (sp_State p)))"
    by (simp add: run_faithful_def new_run_def)
  from assms obtain ls r where "verify_legs p ls (new_run (Base_db (sp_State p))) = Some r" and res: "result_or_nil r = Some res"
    by (auto simp: WaterFill_def bind_eq_Some_conv Let_def split: if_splits)
  from verify_legs_ok [OF n this(1)] res show ?thesis
    by (auto simp: run_faithful_def split_ok_def start_states_def result_or_nil_def result_of_def split: if_splits)
qed

subsection \<open>Keeping the best\<close>

lemma pick_best_mem: "pick_best rs best = Some r \<Longrightarrow> Some r \<in> set rs \<or> best = Some r"
  by (induction rs best rule: pick_best.induct) (auto split: option.splits if_splits)

lemma pick_best_greatest:
  "Some r \<in> set (best # rs) \<Longrightarrow> \<exists>b. pick_best rs best = Some b \<and> sr_Total r \<le> sr_Total b"
proof (induction rs arbitrary: best r)
  case (Cons x rs)
  show ?case
  proof (cases x)
    case None
    then show ?thesis using Cons by auto
  next
    case (Some y)
    define best' where "best' = (case best of None \<Rightarrow> Some y | Some b \<Rightarrow> if sr_Total b < sr_Total y then Some y else best)"
    have p: "pick_best (x # rs) best = pick_best rs best'" by (simp add: Some best'_def)
    have "best' \<noteq> None" by (auto simp: best'_def split: option.split)
    then obtain b' where b': "best' = Some b'" by blast
    have "Some r \<in> set rs \<or> sr_Total r \<le> sr_Total b'"
      using Cons.prems b' Some by (auto simp: best'_def not_less split: option.splits if_splits)
    moreover obtain b where "pick_best rs best' = Some b" "sr_Total b' \<le> sr_Total b" using Cons.IH [of b' best'] b' by auto
    moreover have "Some r \<in> set rs \<Longrightarrow> \<exists>b. pick_best rs best' = Some b \<and> sr_Total r \<le> sr_Total b"
      using Cons.IH [of r best'] by simp
    ultimately show ?thesis unfolding p by fastforce
  qed
qed auto

lemma pick_kept:
  "pick_best rs best = Some res \<Longrightarrow> (\<And>r. Some r \<in> set (best # rs) \<Longrightarrow> kept p amountIn r) \<Longrightarrow> kept p amountIn res"
  using pick_best_mem by fastforce

lemma two_phase_kept:
  assumes "optimizedTwoPhase p amountIn sched = Some (Some res)"
  shows "kept p amountIn res"
proof -
  from assms obtain r1 phase2 where m: "GreedyMixed p amountIn sched = Some (Some r1)"
    and a: "AllocateAcrossPaths p amountIn (CollectPaths (sr_Legs r1)) = Some phase2"
    and p: "pick_best [phase2] (Some r1) = Some res"
    by (auto simp: optimizedTwoPhase_def bind_eq_Some_conv simp del: pick_best.simps split: option.splits)
  from p show ?thesis by (rule pick_kept) (use GreedyMixed_kept [OF m] Allocate_kept a in auto)
qed

lemma OptimizedV4_kept:
  assumes "OptimizedV4 p amountIn = Some (Some res)"
  shows "kept p amountIn res"
proof -
  from assms obtain r1 phase1b paths phase2 where m: "GreedyMixed p amountIn SchedFrontLoaded = Some (Some r1)"
    and b: "GreedyMixed p amountIn SchedShuffle2 = Some phase1b" and a: "AllocateAcrossPaths p amountIn paths = Some phase2"
    and p: "pick_best [phase1b, phase2] (Some r1) = Some res"
    by (auto simp: OptimizedV4_def bind_eq_Some_conv Let_def simp del: pick_best.simps split: option.splits)
  from p show ?thesis by (rule pick_kept) (use GreedyMixed_kept m b Allocate_kept a in auto)
qed

lemma Best_kept: "Best p amountIn chunks = Some (Some res) \<Longrightarrow> kept p amountIn res"
  by (auto simp: Best_def GreedyFine_def bind_eq_Some_conv simp del: pick_best.simps
      intro: Greedy_kept Optimized_kept elim!: pick_kept)

lemma reallocate_kept:
  assumes "reallocate p amountIn rs = Some (Some res)" and "\<And>r. Some r \<in> set rs \<Longrightarrow> kept p amountIn r"
  shows "kept p amountIn res"
  using assms by (auto simp: reallocate_def bind_eq_Some_conv simp del: pick_best.simps split: option.splits
      intro: Allocate_kept elim!: pick_kept)

lemma Staged_kept: "Staged p amountIn = Some (Some res) \<Longrightarrow> kept p amountIn res"
  by (auto simp: Staged_def OptimizedV2_def bind_eq_Some_conv intro: GreedyMixed_kept two_phase_kept
      elim!: reallocate_kept)

lemma SplitMax_kept: "SplitMax p amountIn = Some (Some res) \<Longrightarrow> kept p amountIn res"
  by (auto simp: SplitMax_def OptimizedV2_def bind_eq_Some_conv
      intro: GreedyMixed_kept two_phase_kept GreedyCompete_kept elim!: reallocate_kept)

text \<open>No strategy that \<open>SplitMax\<close> runs gives more than its result.\<close>

lemma reallocate_best:
  assumes "reallocate p amountIn rs = Some best" and "Some r \<in> set rs"
  shows "\<exists>b. best = Some b \<and> sr_Total r \<le> sr_Total b"
proof -
  obtain b where b: "pick_best rs None = Some b" "sr_Total r \<le> sr_Total b"
    using pick_best_greatest [of r None rs] assms(2) by auto
  with assms(1) obtain phase2 where "best = pick_best [phase2] (Some b)"
    by (auto simp: reallocate_def bind_eq_Some_conv)
  then show ?thesis using pick_best_greatest [of b "Some b" "[phase2]"] b(2) by auto
qed

subsection \<open>Everything is routed\<close>

text \<open>Searches up to an amount find a route, and the route executes.\<close>

definition liquid :: "('f, 'r, 'o) params \<Rightarrow> u256 \<Rightarrow> bool" where
  "liquid p amountIn \<longleftrightarrow> (\<forall>pqs db v. pqs \<in> insert (sp_PM p) (range (sp_quoter p)) \<and> v \<noteq> 0 \<and> v \<le> amountIn \<longrightarrow>
     (\<exists>rt ogn. find_route p pqs db v = Some (Some rt) \<and> run_leg p db (r_steps rt) v = Some (Some ogn)))"

lemma run_chunk_liquid:
  assumes "liquid p amountIn" and "v \<noteq> 0" and "v \<le> amountIn"
  shows "\<exists>r'. run_chunk p first v v r = Some (Some r')"
proof -
  obtain pqs r1 where n: "next_source p first r = (pqs, r1)" by force
  have "pqs \<in> insert (sp_PM p) (range (sp_quoter p))"
    using n by (auto simp: next_source_def Let_def split: if_splits option.splits)
  then obtain rt ogn where "find_route p pqs (rn_state r1) v = Some (Some rt)"
    "run_leg p (rn_state r1) (r_steps rt) v = Some (Some ogn)"
    using assms unfolding liquid_def by blast
  then show ?thesis by (auto simp: run_chunk_def n split: prod.split)
qed

lemma percent_nonzero:
  fixes amountIn :: u256 and pct :: "64 word"
  assumes "amountIn div 100 \<noteq> 0" and "pct \<noteq> 0" and "pct \<le> 100"
  shows "amountIn div 100 * ucast pct \<noteq> 0"
proof -
  have p: "unat pct \<le> 100" "unat pct \<noteq> 0" using assms(2,3) by (simp_all add: word_le_nat_alt unat_eq_0)
  have u: "unat (ucast pct :: u256) = unat pct"
    using p by (simp add: unsigned_ucast_eq take_bit_nat_eq_self_iff)
  have a: "unat (amountIn div 100) = unat amountIn div 100" by (simp add: unat_div)
  have "unat amountIn div 100 * unat pct \<le> unat amountIn div 100 * 100" using p by simp
  also have "\<dots> \<le> unat amountIn" by simp
  also have "\<dots> < 2 ^ 256" using unsigned_less [of amountIn] by simp
  finally have lt: "unat amountIn div 100 * unat pct < 2 ^ 256" .
  have "unat (amountIn div 100 * ucast pct) = unat (amountIn div 100) * unat (ucast pct :: u256) mod 2 ^ 256"
    by (simp only: unat_word_ariths) simp
  then have "unat (amountIn div 100 * ucast pct) = unat amountIn div 100 * unat pct"
    unfolding a u using lt by simp
  moreover have "unat amountIn div 100 \<noteq> 0" using assms(1) a by (metis unat_eq_0)
  ultimately show ?thesis using p(2) by (metis mult_is_0 unat_0)
qed

lemma mixed_loop_routes_all:
  assumes "liquid p amountIn" and "\<And>pct. pct = lastPct \<or> pct \<in> set chunks \<Longrightarrow> onePercent * ucast pct \<noteq> 0"
    and "overlay_run p amountIn r"
  shows "\<exists>r'. mixed_loop p amountIn onePercent chunks lastPct i r = Some r' \<and> rn_routed r' = amountIn"
  using assms
proof (induction p amountIn onePercent chunks lastPct i r rule: mixed_loop.induct)
  case (1 p amountIn onePercent chunks lastPct i r)
  let ?rem = "amountIn - rn_routed r"
  define pct where "pct = (if i < length chunks then chunks ! i else lastPct)"
  define vol where "vol = (if ?rem < onePercent * ucast pct then ?rem else onePercent * ucast pct)"
  have eq: "mixed_loop p amountIn onePercent chunks lastPct i r = (if ?rem = 0 then Some r else if vol = 0 then Some r
      else case run_chunk p (i = 0) vol vol r of None \<Rightarrow> None | Some None \<Rightarrow> Some r
        | Some (Some r') \<Rightarrow> mixed_loop p amountIn onePercent chunks lastPct (i + 1) r')"
    unfolding mixed_loop.simps [of p amountIn onePercent chunks lastPct i r] Let_def vol_def pct_def ..
  show ?case
  proof (cases "?rem = 0")
    case False
    have "rn_routed r \<le> amountIn" using "1.prems"(3) by (simp add: run_ok_def)
    then have rem: "?rem \<le> amountIn" by (rule word_sub_le)
    have "pct = lastPct \<or> pct \<in> set chunks" by (simp add: pct_def)
    then have v: "vol \<noteq> 0" "vol \<le> ?rem" using "1.prems"(2) False by (auto simp: vol_def not_less)
    from run_chunk_liquid [OF "1.prems"(1) v(1)] v(2) rem obtain r' where
      c: "run_chunk p (i = 0) vol vol r = Some (Some r')" by (meson order_trans)
    note ih = "1.IH" [OF refl False refl refl refl, folded pct_def, folded vol_def, OF v(1) c refl "1.prems"(1,2)
      run_chunk_ok [OF "1.prems"(3) c v(2)]]
    then show ?thesis unfolding eq using False v(1) c by simp
  next
    case True
    then show ?thesis unfolding eq by simp
  qed
qed

lemma GreedyMixed_all:
  assumes "liquid p amountIn" and "100 \<le> amountIn" and "cs_Chunks sched \<noteq> []" and "\<And>pct. pct \<in> set (cs_Chunks sched) \<Longrightarrow> pct \<noteq> 0 \<and> pct \<le> 100"
  shows "\<exists>res. GreedyMixed p amountIn sched = Some (Some res) \<and> volumes (sr_Legs res) = unat amountIn"
proof -
  let ?one = "amountIn div 100" and ?cs = "cs_Chunks sched"
  have one: "?one \<noteq> 0"
  proof -
    have "1 \<le> unat amountIn div 100" using assms(2) by (simp add: word_le_nat_alt)
    moreover have "unat ?one = unat amountIn div 100" by (simp add: unat_div)
    ultimately show ?thesis by (metis not_one_le_zero unat_0)
  qed
  have "?one * ucast pct \<noteq> 0" if "pct = last ?cs \<or> pct \<in> set ?cs" for pct
    using that assms(3,4) percent_nonzero [OF one] last_in_set by metis
  from mixed_loop_routes_all [OF assms(1) this run_ok_new] obtain r' where
    r': "mixed_loop p amountIn ?one ?cs (last ?cs) 0 (new_run (overlay_state p fmempty)) = Some r'" "rn_routed r' = amountIn"
    by blast
  have ok: "overlay_run p amountIn r'" by (rule mixed_loop_ok [OF run_ok_new r'(1)])
  then have v: "volumes (rn_Legs r') = unat amountIn" using r'(2) by (simp add: run_ok_def)
  moreover have "amountIn \<noteq> 0" using one by auto
  ultimately have "rn_Legs r' \<noteq> []" by (auto simp: unat_eq_0)
  then show ?thesis using v r'(1) one assms(3)
    by (simp add: GreedyMixed_def Let_def result_or_nil_def result_of_def)
qed

end
