(* ===== verification/Split_Market.thy ===== *)
theory Split_Market
  imports Split_Correct
begin

text \<open>
  A small market on which the strategies of \<open>pathfinder/splitter\<close> run: pools side by side between the
  tokens 10 and 11, each with an output function that does not change.  The router decodes the
  first pool and amount from the calldata, as the contract does.  It shows that the hypotheses of
  the properties can be met, and it is the counterexample to two promises of the documentation.
\<close>

subsection \<open>The market\<close>

definition market_ctx :: "unit cached_context" where
  "market_ctx = make_context (\<lambda>_ _ _ _. ())
     \<lparr>cfg_BlockNumber = 1, cfg_Timestamp = 1, cfg_ChainID = 43114, cfg_BaseFee = 0, cfg_GasLimit = 0\<rparr>"

definition market_router :: "(address \<Rightarrow> u256 \<Rightarrow> u256) \<Rightarrow> 's evm_call" where
  "market_router out ctx from_addr price cfg to_addr data gas value s =
     ((be_bytes 32 (uint (out (word_of_int (hd (array_arg data 0))) (word_of_int (hd (array_arg data 3))))),
       gas - 21000, None), s)"

definition market_quote :: "(address \<Rightarrow> u256 \<Rightarrow> u256) \<Rightarrow> quoter" where
  "market_quote out pool amount tokenIn tokenOut = out pool amount"

definition market :: "(address \<Rightarrow> u256 \<Rightarrow> u256) \<Rightarrow> address list \<Rightarrow> (unit, unit, unit) params" where
  "market out pools =
     \<lparr>sp_PM = market_quote out, sp_NewOverlay = (\<lambda>_. ()), sp_Update = (\<lambda>_ _. ()), sp_quoter = (\<lambda>_. market_quote out),
      sp_Adj = (\<lambda>t. if t = 10 then map (\<lambda>i. \<lparr>pe_idx = of_nat i, pe_out = 11, pe_in = 10\<rparr>) [0..<length pools] else []),
      sp_Pools = map (\<lambda>a. \<lparr>p_address = a, p_dex = [], p_type = 0, p_tokens = [10, 11], p_extra = []\<rparr>) pools,
      sp_State = NewStateDB None, sp_ctx = market_ctx, sp_precompiles = (\<lambda>_. []),
      sp_evm = market_router out, sp_evm_over = market_router out,
      sp_hex = (\<lambda>_. 0), sp_order = (\<lambda>_ ks. ks), sp_RouterAddr = 5, sp_Sender = 6, sp_TokenIn = 10, sp_TokenOut = 11,
      sp_MaxHops = 1\<rparr>"

definition market_hop :: "address \<Rightarrow> route_step" where
  "market_hop a = \<lparr>rs_pool = a, rs_type = 0, rs_in = 10, rs_out = 11, rs_extra = []\<rparr>"

definition sound_output :: "u256 \<Rightarrow> bool" where
  "sound_output v \<longleftrightarrow> v \<noteq> 0 \<and> v < 2 ^ 255"

subsection \<open>Executing a hop\<close>

lemma hop_calldata:
  "\<exists>data. buildCalldata (market out pools) [market_hop a] v = Some data
    \<and> array_arg data 0 = [uint a] \<and> array_arg data 3 = [uint v]"
proof -
  let ?d = "abi_swap swapSelector [a] [0] [10, 11] [v] [[]] (Some 0)"
  have "length ?d < 2 ^ 64"
    by (simp add: abi_swap_def swap_sizes_def abi_array_def extra_size_def swapSelector_def length_enc abi_bytes_def padded_def)
  then have "array_arg ?d 0 = [uint a] \<and> array_arg ?d 3 = [uint v]"
    using abi_swap_arrays [of swapSelector "[0]" "[a]" "[v]" "[[]]" "[10, 11]" "Some 0"] by (simp add: swapSelector_def)
  moreover have "buildCalldata (market out pools) [market_hop a] v = Some ?d"
    unfolding buildCalldata_def EncodeSwapMulti_def
    by (subst encodeSwapMultiInner_abi) (simp_all add: market_hop_def market_def swapSelector_def)
  ultimately show ?thesis by blast
qed

lemma StorageOverrides_new [simp]:
  "StorageOverrides (cs_Prepare from_addr coinbase (Some to_addr) [] [] (NewCallState s)) = fmempty"
  by (simp add: StorageOverrides_def cs_Prepare_def NewCallState_def empty_overlay_def mark_addr_def Let_def)

lemma market_router_runs:
  "array_arg data 0 = [uint a] \<Longrightarrow> array_arg data 3 = [uint v] \<Longrightarrow>
    run_router (market out pools) db data = ((be_bytes 32 (uint (out a v)), 21000, None), fmempty)"
  by (simp add: run_router_def ExecuteWithCallState_def market_def market_router_def split: split_db.split)

lemma word_of_bytes: "be_word (be_bytes 32 (uint v)) = (v :: u256)"
  using uint_bounded [of v] by (simp add: be_word_def be_int_bytes)

lemma first_byte: "be_bytes 32 (uint v) ! 0 AND 0x80 = 0 \<longleftrightarrow> (v :: u256) < 2 ^ 255"
proof -
  let ?b = "word_of_int (uint v div 256 ^ 31) :: byte"
  have "be_bytes 32 (uint v) ! 0 = ?b" by (simp add: be_bytes_map upt_rec)
  moreover have "?b AND 0x80 = 0 \<longleftrightarrow> \<not> bit ?b 7" using and_exp_eq_0_iff_not_bit [of ?b 7] by simp
  moreover have "bit ?b 7 \<longleftrightarrow> odd (uint v div 256 ^ 31 div 2 ^ 7)" 
    by (simp only: bit_word_of_int_iff) (simp add: bit_iff_odd)
  moreover have "odd (uint v div 256 ^ 31 div 2 ^ 7) \<longleftrightarrow> \<not> v < 2 ^ 255"
  proof -
    have "uint v div 2 ^ 255 < 2" using uint_bounded [of v] by simp
    moreover have "0 \<le> uint v div 2 ^ 255" using uint_ge_0 [of v] by (simp add: pos_imp_zdiv_nonneg_iff)
    ultimately consider "uint v div 2 ^ 255 = 0" | "uint v div 2 ^ 255 = 1" by linarith
    then have "odd (uint v div 2 ^ 255) \<longleftrightarrow> 2 ^ 255 \<le> uint v" by cases simp_all
    then show ?thesis by (simp add: word_less_def not_less flip: zdiv_zmult2_eq)
  qed
  ultimately show ?thesis by simp
qed

lemma market_leg:
  "run_leg (market out pools) db [market_hop a] v =
    Some (if sound_output (out a v) then Some (out a v, 21000, fmempty) else None)"
proof -
  obtain data where d: "buildCalldata (market out pools) [market_hop a] v = Some data"
    "array_arg data 0 = [uint a]" "array_arg data 3 = [uint v]" using hop_calldata by blast
  show ?thesis
    by (simp add: run_leg_def d(1) market_router_runs [OF d(2,3)] first_byte word_of_bytes sound_output_def Let_def)
qed

lemma market_evm:
  "\<exists>data. swap_calldata (\<lambda>_. 0) v [market_hop a] = Some data \<and>
    evm_amount (router_evm (market out pools) db data) = (if sound_output (out a v) then Some (out a v, 21000) else None)"
proof -
  obtain data where d: "buildCalldata (market out pools) [market_hop a] v = Some data"
    "array_arg data 0 = [uint a]" "array_arg data 3 = [uint v]" using hop_calldata by blast
  have "swap_calldata (\<lambda>_. 0) v [market_hop a] = Some data"
    using d(1) by (simp add: swap_calldata_def buildCalldata_def market_def)
  then show ?thesis
    by (auto simp: router_evm_def evm_amount_def market_router_runs [OF d(2,3)] first_byte word_of_bytes sound_output_def Let_def)
qed

subsection \<open>Searching one pool\<close>

lemma one_pool_search:
  assumes "v \<noteq> 0" and "out a v \<noteq> 0"
  shows "bfs_layers (market_quote out) (sp_Adj (market out [a])) (sp_Pools (market out [a])) 10 11 order 0 (Suc 0) [0] (bfs_init 10 v)
    = Some \<lparr>b_nodes = [\<lparr>n_amount = v, n_parent = - 1, n_pool = 0, n_in = 0, n_token = 10\<rparr>,
        \<lparr>n_amount = out a v, n_parent = 0, n_pool = 0, n_in = 10, n_token = 11\<rparr>],
        b_best = [(11, [(out a v, Suc 0)])], b_cands = [Suc 0], b_quotes = 1\<rparr>"
  using assms by (simp add: bfs_init_def bfs_parent_def bfs_edge_def bfs_offer_def bfs_push_def bfs_collect_def
    bfs_frontier_def best_of_def market_def market_quote_def topK_def Let_def)

lemma market_backtrack:
  "backtrack (sp_Pools (market out [a])) [\<lparr>n_amount = v, n_parent = - 1, n_pool = 0, n_in = 0, n_token = 10\<rparr>,
     \<lparr>n_amount = w, n_parent = 0, n_pool = 0, n_in = 10, n_token = 11\<rparr>] (Suc 0) = Some [market_hop a]"
  unfolding backtrack_def
  by (subst bt_loop.simps, simp, subst bt_loop.simps) (simp add: hop_step_def market_def market_hop_def)

text \<open>The search finds the hop whenever its quote is an output the router can return.\<close>

definition finds :: "(address \<Rightarrow> u256 \<Rightarrow> u256) \<Rightarrow> address \<Rightarrow> u256 \<Rightarrow> route option \<Rightarrow> bool" where
  "finds out a v found \<longleftrightarrow>
     (case found of None \<Rightarrow> v = 0 \<or> \<not> sound_output (out a v)
      | Some rt \<Rightarrow> v \<noteq> 0 \<and> sound_output (out a v) \<and> r_steps rt = [market_hop a] \<and> r_out rt = out a v)"

lemma market_find: "\<exists>found. find_route (market out [a]) (market_quote out) db v = Some found \<and> finds out a v found"
proof -
  let ?p = "market out [a]"
  obtain data where d: "swap_calldata (\<lambda>_. 0) v [market_hop a] = Some data"
    and e: "evm_amount (router_evm ?p db data) = (if sound_output (out a v) then Some (out a v, 21000) else None)"
    using market_evm by blast
  have f: "find_route ?p (market_quote out) db v =
    map_option (\<lambda>rs. case rs of [] \<Rightarrow> None | r # _ \<Rightarrow> Some r)
      (FindTopRoutes (market_quote out) (sp_Adj ?p) (sp_Pools ?p) (\<lambda>_. 0) (router_evm ?p db) (\<lambda>_ ks. ks) 10 11 v 1 1)"
    unfolding find_route_def FindBestRoute_def by (simp add: market_def map_conv_bind_option o_def)
  consider "v = 0" | "v \<noteq> 0" "out a v = 0" | "v \<noteq> 0" "out a v \<noteq> 0" by blast
  then show ?thesis
  proof cases
    case 1
    then show ?thesis unfolding f by (intro exI [of _ None]) (simp add: FindTopRoutes_zero finds_def)
  next
    case 2
    then have "bfs_layers (market_quote out) (sp_Adj ?p) (sp_Pools ?p) 10 11 (\<lambda>_ ks. ks) 0 (Suc 0) [0] (bfs_init 10 v)
      = Some \<lparr>b_nodes = [\<lparr>n_amount = v, n_parent = - 1, n_pool = 0, n_in = 0, n_token = 10\<rparr>], b_best = [],
          b_cands = [], b_quotes = 1\<rparr>"
      by (simp add: bfs_init_def bfs_parent_def bfs_edge_def bfs_collect_def bfs_frontier_def best_of_def market_def
        market_quote_def Let_def)
    then show ?thesis using 2
      by (simp add: f FindTopRoutes_def finds_def sound_output_def sort_cands_def Let_def del: bfs_layers.simps)
  next
    case 3
    show ?thesis
      using 3 d e by (simp add: f FindTopRoutes_def one_pool_search [of v out a, OF 3] sort_cands_def market_backtrack finds_def Let_def
          del: bfs_layers.simps)
  qed
qed

subsection \<open>A market in which splitting loses\<close>

text \<open>One pool that pays a seventh of the input, rounded down.\<close>

definition seventh :: "(unit, unit, unit) params" where
  "seventh = market (\<lambda>_ v. v div 7) [1]"

abbreviation seventh_quote :: quoter where
  "seventh_quote \<equiv> market_quote (\<lambda>_ v. v div 7)"

lemma seventh_quoters [simp]: "sp_PM seventh = seventh_quote" "sp_quoter seventh ov = seventh_quote"
  "sp_NewOverlay seventh acc = ()" "sp_Update seventh new ov = ()"
  by (simp_all add: seventh_def market_def)

lemma seventh_small:
  assumes "v div 7 = 0"
  shows "find_route seventh seventh_quote db v = Some None"
  using market_find [of "\<lambda>_ v. v div 7" 1 db v] assms
  by (auto simp: seventh_def finds_def sound_output_def split: option.splits)

lemma seventh_route:
  assumes "v div 7 \<noteq> 0" and "v div 7 < 2 ^ 255"
  shows "\<exists>rt. find_route seventh seventh_quote db v = Some (Some rt) \<and> r_steps rt = [market_hop 1]"
    and "run_leg seventh db [market_hop 1] v = Some (Some (v div 7, 21000, fmempty))"
proof -
  have s: "sound_output (v div 7)" "v \<noteq> 0" using assms by (auto simp: sound_output_def)
  show "\<exists>rt. find_route seventh seventh_quote db v = Some (Some rt) \<and> r_steps rt = [market_hop 1]"
    using market_find [of "\<lambda>_ v. v div 7" 1 db v] s by (auto simp: seventh_def finds_def split: option.splits)
  show "run_leg seventh db [market_hop 1] v = Some (Some (v div 7, 21000, fmempty))"
    using market_leg [of "\<lambda>_ v. v div 7" "[1]" db 1 v] s by (simp add: seventh_def)
qed

lemma seventh_single:
  assumes "v div 7 \<noteq> 0" and "v div 7 < 2 ^ 255"
  shows "single_shot seventh seventh_quote db v = Some ([market_hop 1], v div 7, 21000, fmempty)"
proof -
  obtain rt where rt: "find_route seventh seventh_quote db v = Some (Some rt)" "r_steps rt = [market_hop 1]"
    using seventh_route(1) [OF assms] by blast
  obtain data where d: "buildCalldata seventh [market_hop 1] v = Some data"
    "array_arg data 0 = [uint (1 :: address)]" "array_arg data 3 = [uint v]"
    using hop_calldata unfolding seventh_def by blast
  show ?thesis using assms market_router_runs [OF d(2,3), of "\<lambda>_ v. v div 7" "[1]" db]
    by (simp add: single_shot_def rt d(1) first_byte word_of_bytes del: be_bytes.simps flip: seventh_def)
qed

text \<open>A chunk of 2 finds no route, so every slab goes to its single shot.\<close>

definition seventh_leg :: "u256 \<Rightarrow> leg" where
  "seventh_leg v = \<lparr>lg_Steps = [market_hop 1], lg_Volume = v, lg_Output = v div 7, lg_GasUsed = 21000\<rparr>"

definition seventh_run :: "leg list \<Rightarrow> unit option \<Rightarrow> (unit, unit) run" where
  "seventh_run legs ov = \<lparr>rn_dirty = fmempty, rn_state = overlay_state seventh fmempty, rn_overlay = ov, rn_Legs = legs,
     rn_Total = outputs legs, rn_Gas = gas_of legs, rn_routed = sum_list (map lg_Volume legs)\<rparr>"

lemma seventh_run_fields [simp]: "rn_dirty (seventh_run legs ov) = fmempty"
  "rn_state (seventh_run legs ov) = overlay_state seventh fmempty"
  by (simp_all add: seventh_run_def)

lemma seventh_slab:
  assumes "v div 7 \<noteq> 0" and "v div 7 < 2 ^ 255" and "first \<longleftrightarrow> ov = None"
  shows "compete_slab seventh first v 2 (seventh_run legs ov) = Some (Some (seventh_run (legs @ [seventh_leg v]) (Some ())))"
proof -
  have ns: "next_source seventh first (seventh_run legs ov) = (seventh_quote, seventh_run legs ov)"
    using assms(3) by (auto simp: next_source_def seventh_run_def split: option.split)
  have "v \<noteq> 0" using assms(1) by auto
  have "(if v < 2 then v else 2) div 7 = (0 :: u256)"
    by (auto intro!: div_word_less elim: less_trans)
  then have c: "slab_loop seventh seventh_quote fmempty v 2 True (new_run db) = Some (new_run db)" for db
    using \<open>v \<noteq> 0\<close> seventh_small [of "if v < 2 then v else 2"]
    by (subst slab_loop.simps) (auto simp: new_run_def slab_chunk_def chunk_source_def Let_def)
  show ?thesis
    unfolding compete_slab_def ns
    by (simp add: seventh_single [OF assms(1,2)] c)
       (simp add: pick_winner_def take_legs_def seventh_run_def new_run_def seventh_leg_def assms(1) word_gt_0)
qed

lemma compete_loop_step:
  assumes "amountIn \<noteq> rn_routed r" and "compete_slab p (slab = 0)
      (if amountIn - rn_routed r < slabVol then amountIn - rn_routed r else slabVol) chunkVol r = Some (Some r')"
  shows "compete_loop p amountIn slabVol chunkVol slab (Suc n) r = compete_loop p amountIn slabVol chunkVol (slab + 1) n r'"
  using assms by (simp add: Let_def)

lemma compete_seventh:
  "GreedyCompete seventh 100 30 2 =
    Some (Some \<lparr>sr_Legs = map seventh_leg [30, 30, 30, 10], sr_Total = 13, sr_TotalGas = 84000\<rparr>)"
proof -
  let ?R = "\<lambda>legs. seventh_run (map seventh_leg legs) (Some ())" and ?L = "\<lambda>slab n. compete_loop seventh 100 30 2 slab n"
  have start: "new_run (overlay_state seventh fmempty) = seventh_run [] None"
    by (simp add: new_run_def seventh_run_def)
  have s0: "compete_slab seventh True 30 2 (seventh_run [] None) = Some (Some (?R [30]))"
    using seventh_slab [of 30 True None "[]"] by simp
  have s1: "compete_slab seventh False 30 2 (?R [30]) = Some (Some (?R [30, 30]))"
    using seventh_slab [of 30 False "Some ()" "map seventh_leg [30]"] by simp
  have s2: "compete_slab seventh False 30 2 (?R [30, 30]) = Some (Some (?R [30, 30, 30]))"
    using seventh_slab [of 30 False "Some ()" "map seventh_leg [30, 30]"] by simp
  have s3: "compete_slab seventh False 10 2 (?R [30, 30, 30]) = Some (Some (?R [30, 30, 30, 10]))"
    using seventh_slab [of 10 False "Some ()" "map seventh_leg [30, 30, 30]"] by simp
  have routed: "rn_routed (seventh_run [] None) = 0" "rn_routed (?R [30]) = 30" "rn_routed (?R [30, 30]) = 60"
    "rn_routed (?R [30, 30, 30]) = 90" "rn_routed (?R [30, 30, 30, 10]) = 100"
    by (simp_all add: seventh_run_def seventh_leg_def)
  have "?L 0 (Suc (Suc (Suc (Suc (Suc n))))) (seventh_run [] None) = Some (?R [30, 30, 30, 10])" for n
    using routed s0 s1 s2 s3 by (simp add: compete_loop_step)
  from this [of 95] have l: "?L 0 100 (seventh_run [] None) = Some (?R [30, 30, 30, 10])" by simp
  have "result_or_nil (?R [30, 30, 30, 10]) =
    Some \<lparr>sr_Legs = map seventh_leg [30, 30, 30, 10], sr_Total = 13, sr_TotalGas = 84000\<rparr>"
    by (simp add: result_or_nil_def result_of_def seventh_run_def seventh_leg_def)
  then show ?thesis by (simp add: GreedyCompete_def start l)
qed

lemma seventh_whole:
  "\<exists>rt. find_route seventh (sp_PM seventh) db 100 = Some (Some rt) \<and> r_steps rt = [market_hop 1]
    \<and> run_leg seventh db [market_hop 1] 100 = Some (Some (14, 21000, fmempty))"
  using seventh_route [of 100 db] by simp

subsection \<open>A market that is overspent\<close>

text \<open>Two pools that pay the square of the input: the marginal output grows.\<close>

definition squares :: "(unit, unit, unit) params" where
  "squares = market (\<lambda>_ v. v * v) [1, 2]"

abbreviation square_quote :: quoter where
  "square_quote \<equiv> market_quote (\<lambda>_ v. v * v)"

lemma two_pool_search:
  assumes "v \<noteq> 0" and "v * v \<noteq> 0"
  shows "bfs_layers square_quote (sp_Adj squares) (sp_Pools squares) 10 11 (\<lambda>_ ks. ks) 0 (Suc 0) [0] (bfs_init 10 v)
    = Some \<lparr>b_nodes = [\<lparr>n_amount = v, n_parent = - 1, n_pool = 0, n_in = 0, n_token = 10\<rparr>,
        \<lparr>n_amount = v * v, n_parent = 0, n_pool = 0, n_in = 10, n_token = 11\<rparr>,
        \<lparr>n_amount = v * v, n_parent = 0, n_pool = 1, n_in = 10, n_token = 11\<rparr>],
        b_best = [(11, [(v * v, 1), (v * v, 2)])], b_cands = [1, 2], b_quotes = 2\<rparr>"
  using assms by (simp add: bfs_init_def bfs_parent_def bfs_edge_def bfs_offer_def bfs_push_def bfs_collect_def
    bfs_frontier_def best_of_def squares_def market_def market_quote_def topK_def Let_def)

lemma squares_backtrack:
  "backtrack (sp_Pools squares) [\<lparr>n_amount = v, n_parent = - 1, n_pool = 0, n_in = 0, n_token = 10\<rparr>,
     \<lparr>n_amount = w, n_parent = 0, n_pool = 0, n_in = 10, n_token = 11\<rparr>,
     \<lparr>n_amount = w, n_parent = 0, n_pool = 1, n_in = 10, n_token = 11\<rparr>] (Suc 0) = Some [market_hop 1]"
  "backtrack (sp_Pools squares) [\<lparr>n_amount = v, n_parent = - 1, n_pool = 0, n_in = 0, n_token = 10\<rparr>,
     \<lparr>n_amount = w, n_parent = 0, n_pool = 0, n_in = 10, n_token = 11\<rparr>,
     \<lparr>n_amount = w, n_parent = 0, n_pool = 1, n_in = 10, n_token = 11\<rparr>] 2 = Some [market_hop 2]"
  unfolding backtrack_def
  by (subst bt_loop.simps, simp, subst bt_loop.simps, simp add: hop_step_def squares_def market_def market_hop_def)+

lemma squares_routes:
  assumes "v \<noteq> 0" and "sound_output (v * v)" and "1 < limit"
  shows "\<exists>r1 r2. FindTopRoutes square_quote (sp_Adj squares) (sp_Pools squares) (\<lambda>_. 0) (router_evm squares db) (\<lambda>_ ks. ks) 10 11 v 1 limit
     = Some [r1, r2] \<and> r_steps r1 = [market_hop 1] \<and> r_steps r2 = [market_hop 2]"
proof -
  have nz: "v * v \<noteq> 0" using assms(2) by (simp add: sound_output_def)
  obtain d1 where d1: "swap_calldata (\<lambda>_. 0) v [market_hop 1] = Some d1" "evm_amount (router_evm squares db d1) = Some (v * v, 21000)"
    using market_evm [of v 1 "\<lambda>_ v. v * v" "[1, 2]" db] assms(2) by (auto simp: squares_def)
  obtain d2 where d2: "swap_calldata (\<lambda>_. 0) v [market_hop 2] = Some d2" "evm_amount (router_evm squares db d2) = Some (v * v, 21000)"
    using market_evm [of v 2 "\<lambda>_ v. v * v" "[1, 2]" db] assms(2) by (auto simp: squares_def)
  have "\<not> nat limit \<le> Suc 0" using assms(3) by simp
  then show ?thesis
    using assms(1,3) d1 d2
    by (simp add: FindTopRoutes_def two_pool_search [OF assms(1) nz] sort_cands_def squares_backtrack Let_def
          del: bfs_layers.simps)
qed

lemma squares_discover:
  "\<exists>rs. discover squares 20 = Some rs \<and> rs \<noteq> [] \<and> distinct_paths [] (map r_steps rs) = [[market_hop 1], [market_hop 2]]"
proof -
  have p: "sp_PM squares = square_quote" "sp_TokenIn squares = 10" "sp_TokenOut squares = 11" "sp_hex squares = (\<lambda>_. 0)"
    "sp_order squares = (\<lambda>_ ks. ks)" "sp_MaxHops squares = 1"
    by (simp_all add: squares_def market_def)
  have "sound_output (1 * 1)" "sound_output (20 * 20)" by (simp_all add: sound_output_def word_less_def)
  then obtain a b c d where
    "FindTopRoutes square_quote (sp_Adj squares) (sp_Pools squares) (\<lambda>_. 0) (router_evm squares (Base_db (sp_State squares)))
       (\<lambda>_ ks. ks) 10 11 1 1 5 = Some [a, b] \<and> r_steps a = [market_hop 1] \<and> r_steps b = [market_hop 2]"
    "FindTopRoutes square_quote (sp_Adj squares) (sp_Pools squares) (\<lambda>_. 0) (router_evm squares (Base_db (sp_State squares)))
       (\<lambda>_ ks. ks) 10 11 20 1 3 = Some [c, d] \<and> r_steps c = [market_hop 1] \<and> r_steps d = [market_hop 2]"
    using squares_routes [of 1 5] squares_routes [of 20 3] by force
  then show ?thesis by (simp add: discover_def p pathKey_def market_hop_def Let_def)
qed

lemma squares_allocs:
  "water_allocs (marginal square_quote 1) 20 [[market_hop 1], [market_hop 2]] = [19, 19]"
  by code_simp

lemma waterfill_squares:
  "WaterFill squares 20 = Some (Some \<lparr>sr_Legs = map (\<lambda>a. \<lparr>lg_Steps = [market_hop a], lg_Volume = 19, lg_Output = 361, lg_GasUsed = 21000\<rparr>) [1, 2],
     sr_Total = 722, sr_TotalGas = 42000\<rparr>)"
proof -
  obtain rs where rs: "discover squares 20 = Some rs" "rs \<noteq> []" "distinct_paths [] (map r_steps rs) = [[market_hop 1], [market_hop 2]]"
    using squares_discover by blast
  have m: "marginal square_quote 1 [market_hop a] 0 = 1" for a
    by (simp add: marginal_def market_quote_def)
  have "run_leg squares db [market_hop a] 19 = Some (Some (361, 21000, fmempty))" for db a
    using market_leg [of "\<lambda>_ v. v * v" "[1, 2]" db a 19] by (simp add: squares_def sound_output_def word_less_def)
  then have v: "verify_legs squares (zip [[market_hop 1], [market_hop 2]] [19, 19]) (new_run (Base_db (sp_State squares))) =
    Some \<lparr>rn_dirty = fmempty, rn_state = overlay_state squares fmempty, rn_overlay = None,
      rn_Legs = map (\<lambda>a. \<lparr>lg_Steps = [market_hop a], lg_Volume = 19, lg_Output = 361, lg_GasUsed = 21000\<rparr>) [1, 2],
      rn_Total = 722, rn_Gas = 42000, rn_routed = 38\<rparr>"
    by (simp add: new_run_def rebuild_dirty_def book_leg_def Let_def)
  have "sp_PM squares = square_quote" by (simp add: squares_def market_def)
  then show ?thesis
    using rs squares_allocs v by (simp add: WaterFill_def m result_or_nil_def result_of_def Let_def)
qed

end
