(* ===== verification/Live_State.thy ===== *)
theory Live_State
  imports Go_Strings State_View Evm_Context
begin

text \<open>
  Models \<open>statedb/livestate.go\<close> and the types of \<open>statedb/wire/dump.go\<close>: loading the initial dump,
  the push queue, applying block diffs, the accessors and the fetches over the transport, and the pool
  of executors of \<open>statedb/evmpool.go\<close>.  The JSON decoder, the hexadecimal conversions of libevm and the
  remote procedure call are parameters; locks and goroutines appear as the order of the operations.
\<close>

text \<open>The libevm conversions \<open>HexToAddress\<close> and \<open>HexToHash\<close>.\<close>

record hex_lib =
  HexToAddress :: "string \<Rightarrow> address"
  HexToHash :: "string \<Rightarrow> hash"

subsection \<open>Messages\<close>

type_synonym entry = "string \<times> string"

record server_message =
  sm_Type :: string
  sm_BlockNumber :: "64 word"
  sm_Timestamp :: "64 word"
  sm_BaseFee :: "64 word"
  sm_GasLimit :: "64 word"
  sm_Entries :: "entry list"

record storage_entry =
  se_Addr :: address
  se_Slot :: hash
  se_Value :: hash

record account_entry =
  ae_Addr :: address
  ae_Balance :: u256
  ae_Nonce :: "64 word"
  ae_Code :: "byte list"

record gob_dump =
  gd_BlockNumber :: "64 word"
  gd_Timestamp :: "64 word"
  gd_BaseFee :: "64 word"
  gd_GasLimit :: "64 word"
  gd_Storage :: "storage_entry list"
  gd_Accounts :: "account_entry list"

subsection \<open>Loading a dump\<close>

definition loadGobDump :: "keccak \<Rightarrow> gob_dump \<Rightarrow> immutable_state \<Rightarrow> (nat \<times> nat) \<times> immutable_state" where
  "loadGobDump keccak dump state =
     (let state = fold (\<lambda>e. im_SetStorage (se_Addr e) (se_Slot e) (se_Value e)) (gd_Storage dump) state;
          state = fold (\<lambda>a. im_SetAccount keccak (ae_Addr a) (Some (ae_Balance a)) (ae_Nonce a) (ae_Code a))
                    (gd_Accounts dump) state
      in ((length (gd_Storage dump), length (gd_Accounts dump)), state))"

text \<open>The entries of a JSON dump: storage goes in at once, account fields are gathered by address string.\<close>

record account_data =
  ad_balance :: "string option"
  ad_nonce :: "string option"
  ad_code :: "string option"

definition no_data :: account_data where
  "no_data = \<lparr>ad_balance = None, ad_nonce = None, ad_code = None\<rparr>"

definition account_data_of :: "(string, account_data) fmap \<Rightarrow> string \<Rightarrow> account_data" where
  "account_data_of m a = (case fmlookup m a of None \<Rightarrow> no_data | Some d \<Rightarrow> d)"

definition load_entry ::
  "hex_lib \<Rightarrow> entry \<Rightarrow> (immutable_state \<times> nat) \<times> (string, account_data) fmap
    \<Rightarrow> (immutable_state \<times> nat) \<times> (string, account_data) fmap" where
  "load_entry H e acc =
     (case (e, acc) of ((key, value), (state, n), m) \<Rightarrow>
        if HasPrefix key ''s:'' then
          (let parts = SplitN key (CHR '':'') 3
           in if length parts = 3
              then ((im_SetStorage (HexToAddress H (parts ! 1)) (HexToHash H (parts ! 2)) (HexToHash H value) state,
                     n + 1), m)
              else acc)
        else if HasPrefix key ''b:'' then
          ((state, n), fmupd (drop 2 key) (account_data_of m (drop 2 key)\<lparr>ad_balance := Some value\<rparr>) m)
        else if HasPrefix key ''n:'' then
          ((state, n), fmupd (drop 2 key) (account_data_of m (drop 2 key)\<lparr>ad_nonce := Some value\<rparr>) m)
        else if HasPrefix key ''c:'' then
          ((state, n), fmupd (drop 2 key) (account_data_of m (drop 2 key)\<lparr>ad_code := Some value\<rparr>) m)
        else acc)"

definition load_account ::
  "keccak \<Rightarrow> hex_lib \<Rightarrow> string \<Rightarrow> account_data \<Rightarrow> immutable_state \<Rightarrow> immutable_state" where
  "load_account keccak H addrStr data state =
     (let balance = (case ad_balance data of
            None \<Rightarrow> 0
          | Some b \<Rightarrow> (case SetString16 (TrimPrefix b ''0x'') of None \<Rightarrow> 0 | Some bi \<Rightarrow> word_of_int bi));
          nonce = (case ad_nonce data of
            None \<Rightarrow> 0
          | Some n \<Rightarrow> (case SetString16 (TrimPrefix n ''0x'') of None \<Rightarrow> 0 | Some ni \<Rightarrow> word_of_int \<bar>ni\<bar>));
          code = (case ad_code data of
            None \<Rightarrow> []
          | Some c \<Rightarrow> if c \<noteq> ''0x'' \<and> c \<noteq> '''' then DecodeHex (TrimPrefix c ''0x'') else [])
      in im_SetAccount keccak (HexToAddress H addrStr) (Some balance) nonce code state)"

text \<open>\<open>order\<close> is the order in which the loop over the gathered accounts visits them.\<close>

definition loadDumpEntries ::
  "keccak \<Rightarrow> hex_lib \<Rightarrow> ((string, account_data) fmap \<Rightarrow> string list) \<Rightarrow> entry list \<Rightarrow> immutable_state
    \<Rightarrow> (nat \<times> nat) \<times> immutable_state" where
  "loadDumpEntries keccak H order entries state =
     (case fold (load_entry H) entries ((state, 0), fmempty) of
        ((state, storageCount), accountData) \<Rightarrow>
          ((storageCount, fcard (fmdom accountData)),
           fold (\<lambda>a. load_account keccak H a (account_data_of accountData a)) (order accountData) state))"

subsection \<open>The live state\<close>

text \<open>
  The fetcher behind the database is the live state itself, of which a fetch uses the block number; the
  callback is the data the consumer enqueues, so only its presence is kept here.
\<close>

record live_state =
  ls_state :: "64 word state_db"
  ls_block :: "64 word"
  ls_timestamp :: "64 word"
  ls_baseFee :: "64 word"
  ls_gasLimit :: "64 word"

definition NewLiveStateFromState ::
  "64 word state_db \<Rightarrow> 64 word \<Rightarrow> 64 word \<Rightarrow> 64 word \<Rightarrow> 64 word \<Rightarrow> live_state" where
  "NewLiveStateFromState state block timestamp baseFee gasLimit =
     \<lparr>ls_state = state, ls_block = block, ls_timestamp = timestamp, ls_baseFee = baseFee, ls_gasLimit = gasLimit\<rparr>"

text \<open>What \<open>Connect\<close> does with the decoded dump.\<close>

definition connect :: "keccak \<Rightarrow> gob_dump \<Rightarrow> live_state" where
  "connect keccak dump =
     (let im = NewImmutableState (gd_BlockNumber dump) (gd_Timestamp dump);
          (counts, im) = loadGobDump keccak dump im
      in \<lparr>ls_state = SetImmutable im (NewStateDB (Some (gd_BlockNumber dump))),
          ls_block = gd_BlockNumber dump, ls_timestamp = gd_Timestamp dump,
          ls_baseFee = gd_BaseFee dump, ls_gasLimit = gd_GasLimit dump\<rparr>)"

definition live_EVMConfig :: "live_state \<Rightarrow> evm_config" where
  "live_EVMConfig ls = \<lparr>cfg_BlockNumber = ls_block ls, cfg_Timestamp = ls_timestamp ls, cfg_ChainID = 43114,
     cfg_BaseFee = ls_baseFee ls, cfg_GasLimit = ls_gasLimit ls\<rparr>"

text \<open>A push message goes into a queue of 256; when it is full the oldest message is dropped.\<close>

definition push_enqueue :: "'m \<Rightarrow> 'm list \<Rightarrow> 'm list" where
  "push_enqueue msg pushCh = (if length pushCh < 256 then pushCh @ [msg] else tl pushCh @ [msg])"

definition diff_entry :: "hex_lib \<Rightarrow> entry \<Rightarrow> block_diff \<Rightarrow> block_diff" where
  "diff_entry H e diff =
     (case e of (key, value) \<Rightarrow>
        if HasPrefix key ''s:'' then
          (let parts = SplitN key (CHR '':'') 3
           in if length parts = 3
              then diff\<lparr>bd_Storage := nset (HexToAddress H (parts ! 1)) (HexToHash H (parts ! 2)) (HexToHash H value)
                (bd_Storage diff)\<rparr>
              else diff)
        else if HasPrefix key ''b:'' then
          (case SetString16 (TrimPrefix value ''0x'') of
             None \<Rightarrow> diff
           | Some bi \<Rightarrow> diff\<lparr>bd_Balance := fmupd (HexToAddress H (drop 2 key)) (word_of_int bi) (bd_Balance diff)\<rparr>)
        else if HasPrefix key ''n:'' then
          (case SetString16 (TrimPrefix value ''0x'') of
             None \<Rightarrow> diff
           | Some ni \<Rightarrow> diff\<lparr>bd_Nonce := fmupd (HexToAddress H (drop 2 key)) (word_of_int \<bar>ni\<bar>) (bd_Nonce diff)\<rparr>)
        else diff)"

definition message_diff :: "hex_lib \<Rightarrow> server_message \<Rightarrow> block_diff" where
  "message_diff H m = fold (diff_entry H) (sm_Entries m)
     \<lparr>bd_BlockNum = sm_BlockNumber m, bd_BlockTime = sm_Timestamp m, bd_Storage = fmempty,
      bd_Balance = fmempty, bd_Nonce = fmempty\<rparr>"

text \<open>The second component is what the callback receives, if a message was applied.\<close>

definition handlePushMessage ::
  "keccak \<Rightarrow> hex_lib \<Rightarrow> (byte list \<Rightarrow> server_message option) \<Rightarrow> byte list \<Rightarrow> live_state
    \<Rightarrow> live_state \<times> entry list option" where
  "handlePushMessage keccak H unmarshal msg ls =
     (case unmarshal msg of
        None \<Rightarrow> (ls, None)
      | Some m \<Rightarrow>
          if sm_Type m \<noteq> ''block_diff'' then (ls, None)
          else
            let diff = message_diff H m;
                db = ApplyBlockDiff keccak diff (ls_state ls)
            in (ls\<lparr>ls_state := db\<lparr>sd_fetcher := Some (sm_BlockNumber m)\<rparr>, ls_block := sm_BlockNumber m,
                  ls_timestamp := sm_Timestamp m, ls_baseFee := sm_BaseFee m, ls_gasLimit := sm_GasLimit m\<rparr>,
                Some (sm_Entries m)))"

subsection \<open>Fetching\<close>

record rpc_params =
  rp_address :: address
  rp_slot :: "hash option"
  rp_block :: "64 word"

text \<open>A call gives an error, or a result that may fail to parse as a value.\<close>

type_synonym rpc = "string \<Rightarrow> rpc_params \<Rightarrow> string + string option"

definition fetch_value :: "rpc \<Rightarrow> string \<Rightarrow> string \<Rightarrow> rpc_params \<Rightarrow> string fetched" where
  "fetch_value call_rpc name rpcMethod params =
     (case call_rpc rpcMethod params of
        Inl err \<Rightarrow> Inl (name @ err)
      | Inr None \<Rightarrow> Inl (name @ '' parse'')
      | Inr (Some value) \<Rightarrow> Inr value)"

definition FetchStorage :: "hex_lib \<Rightarrow> rpc \<Rightarrow> address \<Rightarrow> hash \<Rightarrow> 64 word \<Rightarrow> hash fetched" where
  "FetchStorage H call_rpc addr slot block =
     (case fetch_value call_rpc ''FetchStorage '' ''state_getStorageAt''
             \<lparr>rp_address = addr, rp_slot = Some slot, rp_block = block\<rparr> of
        Inl e \<Rightarrow> Inl e
      | Inr value \<Rightarrow> Inr (HexToHash H value))"

definition FetchBalance :: "rpc \<Rightarrow> address \<Rightarrow> 64 word \<Rightarrow> u256 fetched" where
  "FetchBalance call_rpc addr block =
     (case fetch_value call_rpc ''FetchBalance '' ''state_getBalance''
             \<lparr>rp_address = addr, rp_slot = None, rp_block = block\<rparr> of
        Inl e \<Rightarrow> Inl e
      | Inr value \<Rightarrow> (case SetString16 (TrimPrefix value ''0x'') of
          None \<Rightarrow> Inl (''FetchBalance parse hex '' @ value) | Some bi \<Rightarrow> Inr (word_of_int bi)))"

definition FetchNonce :: "rpc \<Rightarrow> address \<Rightarrow> 64 word \<Rightarrow> 64 word fetched" where
  "FetchNonce call_rpc addr block =
     (case fetch_value call_rpc ''FetchNonce '' ''state_getNonce''
             \<lparr>rp_address = addr, rp_slot = None, rp_block = block\<rparr> of
        Inl e \<Rightarrow> Inl e
      | Inr value \<Rightarrow> (case SetString16 (TrimPrefix value ''0x'') of
          None \<Rightarrow> Inl (''FetchNonce parse hex '' @ value) | Some bi \<Rightarrow> Inr (word_of_int \<bar>bi\<bar>)))"

definition FetchCode :: "rpc \<Rightarrow> address \<Rightarrow> 64 word \<Rightarrow> byte list fetched" where
  "FetchCode call_rpc addr block =
     (case fetch_value call_rpc ''FetchCode '' ''state_getCode''
             \<lparr>rp_address = addr, rp_slot = None, rp_block = block\<rparr> of
        Inl e \<Rightarrow> Inl e
      | Inr value \<Rightarrow> Inr (if value = '''' \<or> value = ''0x'' then [] else DecodeHex (TrimPrefix value ''0x'')))"

definition FetchBlockHash :: "64 word \<Rightarrow> hash fetched" where
  "FetchBlockHash num = Inr 0"

definition live_fetcher :: "hex_lib \<Rightarrow> rpc \<Rightarrow> 64 word fetcher" where
  "live_fetcher H call_rpc =
     \<lparr>fetchStorage = \<lambda>a k b. (FetchStorage H call_rpc a k b, b), fetchBalance = \<lambda>a b. (FetchBalance call_rpc a b, b),
      fetchNonce = \<lambda>a b. (FetchNonce call_rpc a b, b), fetchCode = \<lambda>a b. (FetchCode call_rpc a b, b),
      fetchBlockHash = \<lambda>n b. (FetchBlockHash n, b)\<rparr>"

subsection \<open>The pool of executors\<close>

text \<open>
  \<open>executors\<close> are the idle ones in the order of the channel; a call takes the first and returns it at
  the end.  Waiting for an idle executor is outside the model: \<open>None\<close> is a blocked call.
\<close>

record ('f, 'r) evm_pool =
  ep_executors :: "'f call_state list"
  ep_ctx :: "'r cached_context"
  ep_size :: int

definition NewEVMPool :: "int \<Rightarrow> 'r cached_context \<Rightarrow> 'f state_db \<Rightarrow> ('f, 'r) evm_pool" where
  "NewEVMPool n ctx base =
     (let n = (if n < 1 then 1 else n)
      in \<lparr>ep_executors = replicate (nat n) (NewCallState base), ep_ctx = ctx, ep_size = n\<rparr>)"

definition ep_Execute ::
  "('r \<Rightarrow> address list) \<Rightarrow> 'f call_state evm_call \<Rightarrow> address \<Rightarrow> address \<Rightarrow> byte list \<Rightarrow> ('f, 'r) evm_pool
    \<Rightarrow> (call_result \<times> ('f, 'r) evm_pool) option" where
  "ep_Execute ActivePrecompiles evm from_addr to_addr data p =
     (case ep_executors p of
        [] \<Rightarrow> None
      | cs0 # rest \<Rightarrow>
          let ctx = ep_ctx p;
              cs = cs_Reset cs0;
              cs = cs_Prepare from_addr (bc_Coinbase (cc_blockCtx ctx)) (Some to_addr)
                     (ActivePrecompiles (cc_rules ctx)) [] cs;
              gasLimit = 5000000
          in (case evm (cc_blockCtx ctx) from_addr (cc_gasPrice ctx) (cc_chainCfg ctx) to_addr data gasLimit 0 cs of
                ((ret, gasLeft, err), cs) \<Rightarrow>
                  Some ((ret, gasLimit - gasLeft, err), p\<lparr>ep_executors := rest @ [cs]\<rparr>)))"

definition ep_ExecuteWithErr ::
  "('r \<Rightarrow> address list) \<Rightarrow> 'f call_state evm_call \<Rightarrow> address \<Rightarrow> address \<Rightarrow> byte list \<Rightarrow> ('f, 'r) evm_pool
    \<Rightarrow> ((call_result \<times> string option) \<times> ('f, 'r) evm_pool) option" where
  "ep_ExecuteWithErr ActivePrecompiles evm from_addr to_addr data p =
     (case ep_executors p of
        [] \<Rightarrow> None
      | cs0 # rest \<Rightarrow>
          let ctx = ep_ctx p;
              cs = cs_Reset cs0;
              cs = cs_Prepare from_addr (bc_Coinbase (cc_blockCtx ctx)) (Some to_addr)
                     (ActivePrecompiles (cc_rules ctx)) [] cs;
              gasLimit = 5000000
          in (case evm (cc_blockCtx ctx) from_addr (cc_gasPrice ctx) (cc_chainCfg ctx) to_addr data gasLimit 0 cs of
                ((ret, gasLeft, err), cs) \<Rightarrow>
                  (case cs_Err cs of (fetchErr, cs) \<Rightarrow>
                     Some (((ret, gasLimit - gasLeft, err), fetchErr), p\<lparr>ep_executors := rest @ [cs]\<rparr>))))"

definition UpdateContext :: "'r cached_context \<Rightarrow> ('f, 'r) evm_pool \<Rightarrow> ('f, 'r) evm_pool" where
  "UpdateContext ctx p = p\<lparr>ep_ctx := ctx\<rparr>"

definition ep_Size :: "('f, 'r) evm_pool \<Rightarrow> int" where
  "ep_Size p = ep_size p"

subsection \<open>The live state tracks the node\<close>

interpretation live: fetch_source "live_fetcher H call_rpc" for H call_rpc
  by unfold_locales (simp_all add: live_fetcher_def observe_def)

text \<open>What the node answers at a block, and what a database over it shows: errors are wrapped, a failing nonce is 0.\<close>

definition node_view :: "hex_lib \<Rightarrow> rpc \<Rightarrow> 64 word \<Rightarrow> view" where
  "node_view H call_rpc block = observe (live_fetcher H call_rpc) block"

definition shown :: "view \<Rightarrow> view" where
  "shown v = v\<lparr>v_Storage := \<lambda>a k. wrapped (v_Storage v a k), v_Nonce := \<lambda>a. Inr (or_zero (v_Nonce v a))\<rparr>"

text \<open>
  The contract of the state server: the dump holds what the node answers at its block, and a block diff
  names every value that changes from the block before.
\<close>

definition honest_dump :: "keccak \<Rightarrow> hex_lib \<Rightarrow> rpc \<Rightarrow> gob_dump \<Rightarrow> bool" where
  "honest_dump keccak H call_rpc dump \<longleftrightarrow>
     db_view (live_fetcher H call_rpc) (ls_state (connect keccak dump))
       = shown (node_view H call_rpc (gd_BlockNumber dump))"

definition honest_message :: "hex_lib \<Rightarrow> rpc \<Rightarrow> 64 word \<Rightarrow> server_message \<Rightarrow> bool" where
  "honest_message H call_rpc block m \<longleftrightarrow>
     node_view H call_rpc (sm_BlockNumber m) = diff_view (message_diff H m) (node_view H call_rpc block)"

inductive live_run ::
  "keccak \<Rightarrow> hex_lib \<Rightarrow> rpc \<Rightarrow> (byte list \<Rightarrow> server_message option) \<Rightarrow> live_state \<Rightarrow> bool"
  for keccak H call_rpc unmarshal where
  run_connect: "honest_dump keccak H call_rpc dump \<Longrightarrow> live_run keccak H call_rpc unmarshal (connect keccak dump)"
| run_read: "live_run keccak H call_rpc unmarshal ls \<Longrightarrow>
    live_run keccak H call_rpc unmarshal (ls\<lparr>ls_state := do_read keccak (live_fetcher H call_rpc) r (ls_state ls)\<rparr>)"
| run_push: "live_run keccak H call_rpc unmarshal ls \<Longrightarrow>
    (\<And>m. unmarshal msg = Some m \<Longrightarrow> sm_Type m = ''block_diff'' \<Longrightarrow> honest_message H call_rpc (ls_block ls) m) \<Longrightarrow>
    live_run keccak H call_rpc unmarshal (fst (handlePushMessage keccak H unmarshal msg ls))"

lemma shown_diff: "shown (diff_view d v) = diff_view d (shown v)"
  by (auto simp: shown_def diff_view_def layered_def fun_eq_iff split: option.split)

lemma loaded_hashes:
  assumes "hashes_match kc im"
  shows "hashes_match kc (im_SetStorage a k v im)" "hashes_match kc (im_SetAccount kc a b n c im)"
  using assms by (auto simp: hashes_match_def im_SetStorage_def im_SetAccount_def im_GetCode_def
      im_GetCodeHash_def Let_def split: option.split)

lemma fold_hashes:
  "(\<And>x im. x \<in> set xs \<Longrightarrow> hashes_match kc im \<Longrightarrow> hashes_match kc (f x im)) \<Longrightarrow> hashes_match kc im
    \<Longrightarrow> hashes_match kc (fold f xs im)"
  by (induction xs arbitrary: im) simp_all

lemma new_hashes: "hashes_match kc (NewImmutableState n t)"
  by (simp add: hashes_match_def NewImmutableState_def im_GetCode_def im_GetCodeHash_def)

lemma connect_layers: "layers_ok keccak (ls_state (connect keccak dump))"
proof -
  have "hashes_match keccak (snd (loadGobDump keccak dump (NewImmutableState n t)))" for n t
    unfolding loadGobDump_def Let_def snd_conv
    by (intro fold_hashes loaded_hashes new_hashes)
  then show ?thesis by (simp add: connect_def split_beta layers_ok_load)
qed

definition tracks :: "keccak \<Rightarrow> hex_lib \<Rightarrow> rpc \<Rightarrow> live_state \<Rightarrow> bool" where
  "tracks keccak H call_rpc ls \<longleftrightarrow> layers_ok keccak (ls_state ls) \<and> sd_fetcher (ls_state ls) = Some (ls_block ls)
     \<and> db_view (live_fetcher H call_rpc) (ls_state ls) = shown (node_view H call_rpc (ls_block ls))"

lemma do_read_fetcher:
  "sd_fetcher s = Some b \<Longrightarrow> sd_fetcher (do_read kc (live_fetcher H call_rpc) r s) = Some b"
proof (cases r)
  case (Read_CodeHash a)
  assume "sd_fetcher s = Some b"
  moreover have "snd (sd_GetCodeHash kc (live_fetcher H call_rpc) a s) = s
    \<or> snd (sd_GetCodeHash kc (live_fetcher H call_rpc) a s) = snd (getCodeWithErr kc (live_fetcher H call_rpc) a s)"
    using snd_sd_GetCodeHash by metis
  ultimately show ?thesis
    using Read_CodeHash by (auto simp: getCodeWithErr_def live_fetcher_def split: option.split sum.split)
qed (auto simp: read_defs live_fetcher_def split: option.split sum.split)

text \<open>Moving the fetcher to the next block keeps what the layers hold and shows the new node below.\<close>

lemma move_fetcher:
  assumes "db_view (live_fetcher H call_rpc) s = shown (node_view H call_rpc b)"
  shows "db_view (live_fetcher H call_rpc) (s\<lparr>sd_fetcher := Some b\<rparr>) = shown (node_view H call_rpc b)"
proof -
  have c: "cached_Storage (s\<lparr>sd_fetcher := Some b\<rparr>) = cached_Storage s"
    "cached_Balance (s\<lparr>sd_fetcher := Some b\<rparr>) = cached_Balance s"
    "cached_Nonce (s\<lparr>sd_fetcher := Some b\<rparr>) = cached_Nonce s"
    "cached_Code (s\<lparr>sd_fetcher := Some b\<rparr>) = cached_Code s"
    by (simp_all add: cached_defs Immutable_def fun_eq_iff)
  have bl: "below (live_fetcher H call_rpc) (s\<lparr>sd_fetcher := Some b\<rparr>) = node_view H call_rpc b"
    by (simp add: below_def node_view_def)
  note v = arg_cong [OF assms]
  have "layered (cached_Storage s a k) (wrapped (v_Storage (node_view H call_rpc b) a k))
      = wrapped (v_Storage (node_view H call_rpc b) a k)" for a k
    using v [of "\<lambda>v. v_Storage v a k"] by (cases "cached_Storage s a k") (simp_all add: db_view_def shown_def)
  moreover have "layered (cached_Balance s a) (v_Balance (node_view H call_rpc b) a)
      = v_Balance (node_view H call_rpc b) a" for a
    using v [of "\<lambda>v. v_Balance v a"] by (cases "cached_Balance s a") (simp_all add: db_view_def shown_def)
  moreover have "or_zero (layered (cached_Nonce s a) (v_Nonce (node_view H call_rpc b) a))
      = or_zero (v_Nonce (node_view H call_rpc b) a)" for a
    using v [of "\<lambda>v. v_Nonce v a"] by (cases "cached_Nonce s a") (simp_all add: db_view_def shown_def)
  moreover have "layered (cached_Code s a) (v_Code (node_view H call_rpc b) a)
      = v_Code (node_view H call_rpc b) a" for a
    using v [of "\<lambda>v. v_Code v a"] by (cases "cached_Code s a") (simp_all add: db_view_def shown_def)
  ultimately show ?thesis unfolding db_view_def [of _ "s\<lparr>sd_fetcher := Some b\<rparr>"] c bl by (simp add: shown_def)
qed

lemma layers_ok_fetcher: "layers_ok kc s \<Longrightarrow> layers_ok kc (s\<lparr>sd_fetcher := f\<rparr>)"
  by (simp add: layers_ok_def Immutable_def)

lemma tracks_push:
  assumes t: "tracks keccak H call_rpc ls"
    and h: "\<And>m. unmarshal msg = Some m \<Longrightarrow> sm_Type m = ''block_diff'' \<Longrightarrow> honest_message H call_rpc (ls_block ls) m"
  shows "tracks keccak H call_rpc (fst (handlePushMessage keccak H unmarshal msg ls))"
proof (cases "\<exists>m. unmarshal msg = Some m \<and> sm_Type m = ''block_diff''")
  case False
  with t show ?thesis by (auto simp: handlePushMessage_def split: option.split)
next
  case True
  then obtain m where m: "unmarshal msg = Some m" "sm_Type m = ''block_diff''" by blast
  define s where "s = ApplyBlockDiff keccak (message_diff H m) (ls_state ls)"
  have l: "layers_ok keccak (ls_state ls)" using t by (simp add: tracks_def)
  have "db_view (live_fetcher H call_rpc) s = diff_view (message_diff H m) (shown (node_view H call_rpc (ls_block ls)))"
    using ApplyBlockDiff_view [OF l] t by (simp add: s_def tracks_def)
  also have "\<dots> = shown (node_view H call_rpc (sm_BlockNumber m))"
    using h [OF m] by (simp add: honest_message_def shown_diff)
  finally have "db_view (live_fetcher H call_rpc) (s\<lparr>sd_fetcher := Some (sm_BlockNumber m)\<rparr>)
      = shown (node_view H call_rpc (sm_BlockNumber m))"
    by (rule move_fetcher)
  with layers_ok_fetcher [OF layers_ok_diff [OF l]] m show ?thesis
    by (simp add: tracks_def handlePushMessage_def Let_def s_def)
qed

lemma connect_fields:
  "sd_fetcher (ls_state (connect keccak dump)) = Some (gd_BlockNumber dump)"
  "ls_block (connect keccak dump) = gd_BlockNumber dump"
  by (simp_all add: connect_def split_beta SetImmutable_def NewStateDB_def)

lemma live_run_tracks: "live_run keccak H call_rpc unmarshal ls \<Longrightarrow> tracks keccak H call_rpc ls"
proof (induction rule: live_run.induct)
  case (run_connect dump)
  then show ?case using connect_layers by (simp add: tracks_def connect_fields honest_dump_def)
next
  case (run_read ls r)
  then show ?case
    by (simp add: tracks_def layers_ok_do_read do_read_fetcher live.read_view)
next
  case (run_push ls msg)
  then show ?case by (intro tracks_push)
qed

text \<open>
  The other direction: entries that name code are ignored, so code that was read before a block
  deployed it stays what it was.
\<close>

lemma code_entries_ignored:
  assumes "\<forall>(key, value) \<in> set entries. HasPrefix key ''c:''"
  shows "fold (diff_entry H) entries d = d"
  using assms by (induction entries arbitrary: d) (auto simp: diff_entry_def HasPrefix_def)

end
