(* ===== verification/State_Server.thy ===== *)
theory State_Server
  imports Live_State
begin

text \<open>
  Models \<open>cmd/state-server/main.go\<close> without its sockets: the typed state cache with its caps, the block
  diff taken from a trace, the wire entries, client requests (parsing, cache, upstream fetch), the clients
  and broadcasts, the block loop, frozen endpoints and the \<open>eth_call\<close> proxy.  JSON decoding, SHA-256 and
  the upstream node are parameters; the order of a loop over a map is a list.
\<close>

subsection \<open>Conversions\<close>

definition blockHex :: "int \<Rightarrow> string" where
  "blockHex n = (if n < 0 then ''0x-'' @ hex_of (nat \<bar>n\<bar>) else ''0x'' @ hex_of (nat n))"

definition hexToAddr :: "string \<Rightarrow> address" where
  "hexToAddr s = (let b = DecodeHex (TrimPrefix (ToLower s) ''0x'')
     in if length b \<le> 20 then word_of_int (be_int b) else 0)"

definition hexToHash :: "string \<Rightarrow> hash" where
  "hexToHash s = (let b = DecodeHex (TrimPrefix (ToLower s) ''0x'')
     in if length b \<le> 32 then word_of_int (be_int b) else 0)"

definition addrHex :: "address \<Rightarrow> string" where
  "addrHex a = ''0x'' @ EncodeHex (be_bytes 20 (uint a))"

definition hashHex :: "hash \<Rightarrow> string" where
  "hashHex h = ''0x'' @ EncodeHex (be_bytes 32 (uint h))"

fun digits10 :: "int \<Rightarrow> string \<Rightarrow> int option" where
  "digits10 acc [] = Some acc"
| "digits10 acc (c # cs) =
     (case hex_value c of None \<Rightarrow> None | Some d \<Rightarrow> if d < 10 then digits10 (acc * 10 + d) cs else None)"

text \<open>\<open>strconv.ParseInt(s, 10, 64)\<close>.\<close>

definition ParseInt10 :: "string \<Rightarrow> int option" where
  "ParseInt10 s =
     (let neg = HasPrefix s ''-'';
          ds = (if HasPrefix s ''-'' \<or> HasPrefix s ''+'' then drop 1 s else s)
      in if ds = [] then None
         else case digits10 0 ds of
                None \<Rightarrow> None
              | Some n \<Rightarrow> if neg then (if n \<le> 2 ^ 63 then Some (- n) else None)
                          else (if n < 2 ^ 63 then Some n else None))"

subsection \<open>The upstream node\<close>

text \<open>A call that expects a string result: an error or the string.\<close>

type_synonym upstream = "string \<Rightarrow> string list \<Rightarrow> string + string"

definition ethGetStorageAt :: "upstream \<Rightarrow> string \<Rightarrow> string \<Rightarrow> int \<Rightarrow> string + string" where
  "ethGetStorageAt up addr slot block = up ''eth_getStorageAt'' [addr, slot, blockHex block]"

definition ethGetBalance :: "upstream \<Rightarrow> string \<Rightarrow> int \<Rightarrow> string + string" where
  "ethGetBalance up addr block = up ''eth_getBalance'' [addr, blockHex block]"

definition ethGetTransactionCount :: "upstream \<Rightarrow> string \<Rightarrow> int \<Rightarrow> string + string" where
  "ethGetTransactionCount up addr block = up ''eth_getTransactionCount'' [addr, blockHex block]"

definition ethGetCode :: "upstream \<Rightarrow> string \<Rightarrow> int \<Rightarrow> string + string" where
  "ethGetCode up addr block = up ''eth_getCode'' [addr, blockHex block]"

record block_info =
  bi_Timestamp :: "64 word"
  bi_BaseFee :: "64 word"
  bi_GasLimit :: "64 word"

text \<open>The fields of the block as strings; a field that does not parse is 0.\<close>

definition ethGetBlockByNumber :: "(int \<Rightarrow> string + string \<times> string \<times> string) \<Rightarrow> int \<Rightarrow> string + block_info" where
  "ethGetBlockByNumber get block =
     (case get block of
        Inl err \<Rightarrow> Inl err
      | Inr (ts, baseFee, gasLimit) \<Rightarrow>
          (let p = (\<lambda>s. case ParseUint16 (TrimPrefix s ''0x'') of None \<Rightarrow> 0 | Some n \<Rightarrow> n)
           in Inr \<lparr>bi_Timestamp = p ts, bi_BaseFee = p baseFee, bi_GasLimit = p gasLimit\<rparr>))"

subsection \<open>The state cache\<close>

definition maxContracts :: nat where "maxContracts = 20000"
definition maxSlotsPerContract :: nat where "maxSlotsPerContract = 100000"

definition map_len :: "('k, 'v) fmap \<Rightarrow> nat" where
  "map_len m = fcard (fmdom m)"

record server_diff =
  df_storage :: "(address, hash, hash) nested"
  df_balance :: "(address, hash) fmap"
  df_nonce :: "(address, 64 word) fmap"
  df_code :: "(address, byte list) fmap"

record state_cache =
  sc_storage :: "(address, hash, hash) nested"
  sc_balance :: "(address, hash) fmap"
  sc_nonce :: "(address, 64 word) fmap"
  sc_code :: "(address, byte list) fmap"
  sc_blockNumber :: int
  sc_timestamp :: "64 word"
  sc_baseFee :: "64 word"
  sc_gasLimit :: "64 word"

definition newStateCache :: state_cache where
  "newStateCache = \<lparr>sc_storage = fmempty, sc_balance = fmempty, sc_nonce = fmempty, sc_code = fmempty,
     sc_blockNumber = 0, sc_timestamp = 0, sc_baseFee = 0, sc_gasLimit = 0\<rparr>"

definition sc_getStorage :: "state_cache \<Rightarrow> address \<Rightarrow> hash \<Rightarrow> hash option" where
  "sc_getStorage c addr slot = nget (sc_storage c) addr slot"

definition sc_getBalance :: "state_cache \<Rightarrow> address \<Rightarrow> hash option" where
  "sc_getBalance c addr = fmlookup (sc_balance c) addr"

definition sc_getNonce :: "state_cache \<Rightarrow> address \<Rightarrow> 64 word option" where
  "sc_getNonce c addr = fmlookup (sc_nonce c) addr"

definition sc_getCode :: "state_cache \<Rightarrow> address \<Rightarrow> byte list option" where
  "sc_getCode c addr = fmlookup (sc_code c) addr"

text \<open>The slots of a contract: the map that is there, a new one, or none when there are too many contracts.\<close>

definition contract_slots :: "(address, hash, hash) nested \<Rightarrow> address \<Rightarrow> (hash, hash) fmap option" where
  "contract_slots storage addr =
     (case fmlookup storage addr of
        Some slots \<Rightarrow> Some slots
      | None \<Rightarrow> if maxContracts \<le> map_len storage then None else Some fmempty)"

definition slot_fits :: "(hash, hash) fmap \<Rightarrow> hash \<Rightarrow> bool" where
  "slot_fits slots slot = (\<not> (fmlookup slots slot = None \<and> maxSlotsPerContract \<le> map_len slots))"

definition sc_setStorage :: "address \<Rightarrow> hash \<Rightarrow> hash \<Rightarrow> state_cache \<Rightarrow> state_cache" where
  "sc_setStorage addr slot value c =
     (case contract_slots (sc_storage c) addr of
        None \<Rightarrow> c
      | Some slots \<Rightarrow>
          c\<lparr>sc_storage := fmupd addr (if slot_fits slots slot then fmupd slot value slots else slots) (sc_storage c)\<rparr>)"

definition sc_setBalance :: "address \<Rightarrow> hash \<Rightarrow> state_cache \<Rightarrow> state_cache" where
  "sc_setBalance addr value c = c\<lparr>sc_balance := fmupd addr value (sc_balance c)\<rparr>"

definition sc_setNonce :: "address \<Rightarrow> 64 word \<Rightarrow> state_cache \<Rightarrow> state_cache" where
  "sc_setNonce addr value c = c\<lparr>sc_nonce := fmupd addr value (sc_nonce c)\<rparr>"

definition sc_setCode :: "address \<Rightarrow> byte list \<Rightarrow> state_cache \<Rightarrow> state_cache" where
  "sc_setCode addr value c = c\<lparr>sc_code := fmupd addr value (sc_code c)\<rparr>"

text \<open>An order of the two loops over a diff's storage: its addresses, and the slots of each with their values.\<close>

type_synonym slot_order = "(address \<times> (hash \<times> hash) list) list"

definition apply_slots :: "(hash \<times> hash) list \<Rightarrow> (hash, hash) fmap \<times> int \<Rightarrow> (hash, hash) fmap \<times> int" where
  "apply_slots = fold (\<lambda>(slot, value) (dst, applied).
     if slot_fits dst slot then (fmupd slot value dst, applied + 1) else (dst, applied))"

definition apply_contract ::
  "address \<times> (hash \<times> hash) list \<Rightarrow> (address, hash, hash) nested \<times> int \<Rightarrow> (address, hash, hash) nested \<times> int" where
  "apply_contract x acc =
     (case (x, acc) of ((addr, slots), (storage, applied)) \<Rightarrow>
        (case contract_slots storage addr of
           None \<Rightarrow> acc
         | Some dst \<Rightarrow> (case apply_slots slots (dst, applied) of
             (dst, applied) \<Rightarrow> (fmupd addr dst storage, applied))))"

definition applyDiffAndUpdateBlock ::
  "slot_order \<Rightarrow> server_diff \<Rightarrow> int \<Rightarrow> 64 word \<Rightarrow> 64 word \<Rightarrow> 64 word \<Rightarrow> state_cache \<Rightarrow> int \<times> state_cache" where
  "applyDiffAndUpdateBlock order diff block timestamp baseFee gasLimit c =
     (case fold apply_contract order (sc_storage c, 0) of
        (storage, applied) \<Rightarrow>
          (applied + int (map_len (df_balance diff)) + int (map_len (df_nonce diff)) + int (map_len (df_code diff)),
           \<lparr>sc_storage = storage, sc_balance = fmadd (sc_balance c) (df_balance diff),
            sc_nonce = fmadd (sc_nonce c) (df_nonce diff), sc_code = fmadd (sc_code c) (df_code diff),
            sc_blockNumber = block, sc_timestamp = timestamp, sc_baseFee = baseFee, sc_gasLimit = gasLimit\<rparr>))"

definition or_default :: "'v \<Rightarrow> 'v option \<Rightarrow> 'v" where
  "or_default d x = (case x of None \<Rightarrow> d | Some v \<Rightarrow> v)"

text \<open>\<open>addrs\<close> is the order of the set of addresses that have a balance, a nonce or code.\<close>

definition dumpGob :: "slot_order \<Rightarrow> address list \<Rightarrow> state_cache \<Rightarrow> gob_dump" where
  "dumpGob order addrs c =
     \<lparr>gd_BlockNumber = word_of_int (sc_blockNumber c), gd_Timestamp = sc_timestamp c,
      gd_BaseFee = sc_baseFee c, gd_GasLimit = sc_gasLimit c,
      gd_Storage = concat (map (\<lambda>(addr, slots).
        map (\<lambda>(slot, value). \<lparr>se_Addr = addr, se_Slot = slot, se_Value = value\<rparr>) slots) order),
      gd_Accounts = map (\<lambda>addr. \<lparr>ae_Addr = addr, ae_Balance = or_default 0 (fmlookup (sc_balance c) addr),
        ae_Nonce = or_default 0 (fmlookup (sc_nonce c) addr),
        ae_Code = or_default [] (fmlookup (sc_code c) addr)\<rparr>) addrs\<rparr>"

definition sc_size :: "slot_order \<Rightarrow> state_cache \<Rightarrow> nat" where
  "sc_size order c = sum_list (map (\<lambda>(addr, slots). length slots) order)
     + map_len (sc_balance c) + map_len (sc_nonce c) + map_len (sc_code c)"

subsection \<open>Block diffs\<close>

text \<open>The \<open>post\<close> section of a traced transaction, in the order of the loop over its accounts.\<close>

record trace_account =
  ta_Balance :: "string option"
  ta_Nonce :: "string option"
  ta_Code :: "string option"
  ta_Storage :: "(string \<times> string) list"

definition trace_account :: "string \<times> trace_account \<Rightarrow> server_diff \<Rightarrow> server_diff" where
  "trace_account x diff =
     (case x of (addrStr, account) \<Rightarrow>
        let addr = hexToAddr addrStr;
            diff = (case ta_Balance account of
                None \<Rightarrow> diff
              | Some b \<Rightarrow> diff\<lparr>df_balance := fmupd addr (hexToHash b) (df_balance diff)\<rparr>);
            diff = (case ta_Nonce account of
                None \<Rightarrow> diff
              | Some s \<Rightarrow> (case ParseInt10 s of
                  None \<Rightarrow> diff
                | Some n \<Rightarrow> diff\<lparr>df_nonce := fmupd addr (word_of_int n) (df_nonce diff)\<rparr>));
            diff = (case ta_Code account of
                None \<Rightarrow> diff
              | Some s \<Rightarrow> diff\<lparr>df_code := fmupd addr (DecodeHex (TrimPrefix s ''0x'')) (df_code diff)\<rparr>)
        in fold (\<lambda>(slot, value) diff. diff\<lparr>df_storage := nset addr (hexToHash slot) (hexToHash value) (df_storage diff)\<rparr>)
             (ta_Storage account) diff)"

definition empty_diff :: server_diff where
  "empty_diff = \<lparr>df_storage = fmempty, df_balance = fmempty, df_nonce = fmempty, df_code = fmempty\<rparr>"

text \<open>\<open>None\<close> is a transaction whose result does not parse or has no \<open>post\<close>.\<close>

definition trace_diff :: "(string \<times> trace_account) list option list \<Rightarrow> server_diff" where
  "trace_diff txs = fold (\<lambda>tx diff. case tx of None \<Rightarrow> diff | Some post \<Rightarrow> fold trace_account post diff) txs empty_diff"

definition traceBlockDiffWS ::
  "(int \<Rightarrow> string + (string \<times> trace_account) list option list) \<Rightarrow> int \<Rightarrow> string + server_diff" where
  "traceBlockDiffWS trace block = (case trace block of Inl err \<Rightarrow> Inl err | Inr txs \<Rightarrow> Inr (trace_diff txs))"

definition diffSize :: "slot_order \<Rightarrow> server_diff \<Rightarrow> nat" where
  "diffSize order d = map_len (df_balance d) + map_len (df_nonce d) + map_len (df_code d)
     + sum_list (map (\<lambda>(addr, slots). length slots) order)"

text \<open>Orders of the four loops of the conversion to entries.\<close>

record diff_order =
  or_storage :: slot_order
  or_balance :: "(address \<times> hash) list"
  or_nonce :: "(address \<times> 64 word) list"
  or_code :: "(address \<times> byte list) list"

definition diffToEntries :: "diff_order \<Rightarrow> entry list" where
  "diffToEntries d =
     concat (map (\<lambda>(addr, slots). map (\<lambda>(slot, value).
       (''s:'' @ addrHex addr @ '':'' @ hashHex slot, hashHex value)) slots) (or_storage d))
     @ map (\<lambda>(addr, bal). (''b:'' @ addrHex addr, hashHex bal)) (or_balance d)
     @ map (\<lambda>(addr, n). (''n:'' @ addrHex addr, ''0x'' @ hex_of (unat n))) (or_nonce d)
     @ map (\<lambda>(addr, code). (''c:'' @ addrHex addr, ''0x'' @ EncodeHex code)) (or_code d)"

subsection \<open>Client requests\<close>

record client_request =
  cr_ID :: string
  cr_Method :: string
  cr_Address :: string
  cr_Slot :: string
  cr_BlockNumber :: int

record client_message =
  cm_JSONRPC :: string
  cm_ID :: string
  cm_Method :: string
  cm_Address :: string
  cm_Slot :: string
  cm_BlockNumber :: "int option"

type_synonym rpc_error = "int \<times> string"

definition parseRequest ::
  "(byte list \<Rightarrow> client_message option) \<Rightarrow> byte list \<Rightarrow> rpc_error + client_request" where
  "parseRequest unmarshal data =
     (case unmarshal data of
        None \<Rightarrow> Inl (- 32600, ''invalid JSON'')
      | Some msg \<Rightarrow>
          if cm_JSONRPC msg \<noteq> ''2.0'' then Inl (- 32602, ''jsonrpc must be '' @ [CHR 0x27] @ ''2.0'' @ [CHR 0x27])
          else if cm_Address msg = '''' then Inl (- 32602, ''missing address'')
          else (case cm_BlockNumber msg of
              None \<Rightarrow> Inl (- 32602, ''blockNumber must be a number'')
            | Some block \<Rightarrow>
                if cm_Method msg = ''state_getStorageAt'' then
                  (if cm_Slot msg = '''' then Inl (- 32602, ''missing slot'')
                   else Inr \<lparr>cr_ID = cm_ID msg, cr_Method = cm_Method msg, cr_Address = cm_Address msg,
                     cr_Slot = cm_Slot msg, cr_BlockNumber = block\<rparr>)
                else if cm_Method msg \<in> {''state_getBalance'', ''state_getNonce'', ''state_getCode''} then
                  Inr \<lparr>cr_ID = cm_ID msg, cr_Method = cm_Method msg, cr_Address = cm_Address msg,
                     cr_Slot = '''', cr_BlockNumber = block\<rparr>
                else Inl (- 32602, ''unsupported method: '' @ cm_Method msg)))"

definition cacheLookup :: "state_cache \<Rightarrow> client_request \<Rightarrow> string option" where
  "cacheLookup c req =
     (let addr = hexToAddr (cr_Address req)
      in if cr_Method req = ''state_getStorageAt'' then
           map_option hashHex (sc_getStorage c addr (hexToHash (cr_Slot req)))
         else if cr_Method req = ''state_getBalance'' then map_option hashHex (sc_getBalance c addr)
         else if cr_Method req = ''state_getNonce'' then
           map_option (\<lambda>v. ''0x'' @ hex_of (unat v)) (sc_getNonce c addr)
         else if cr_Method req = ''state_getCode'' then
           map_option (\<lambda>v. if length v = 0 then ''0x'' else ''0x'' @ EncodeHex v) (sc_getCode c addr)
         else None)"

definition cacheStore :: "client_request \<Rightarrow> string \<Rightarrow> state_cache \<Rightarrow> state_cache" where
  "cacheStore req hexValue c =
     (let addr = hexToAddr (cr_Address req)
      in if cr_Method req = ''state_getStorageAt'' then
           sc_setStorage addr (hexToHash (cr_Slot req)) (hexToHash hexValue) c
         else if cr_Method req = ''state_getBalance'' then sc_setBalance addr (hexToHash hexValue) c
         else if cr_Method req = ''state_getNonce'' then
           (case ParseUint16 (TrimPrefix hexValue ''0x'') of None \<Rightarrow> c | Some n \<Rightarrow> sc_setNonce addr n c)
         else if cr_Method req = ''state_getCode'' then
           (let code = TrimPrefix hexValue ''0x''
            in if code = '''' then sc_setCode addr [] c else sc_setCode addr (DecodeHex code) c)
         else c)"

definition fetchFromNode :: "upstream \<Rightarrow> client_request \<Rightarrow> string + string" where
  "fetchFromNode up req =
     (if cr_Method req = ''state_getStorageAt'' then ethGetStorageAt up (cr_Address req) (cr_Slot req) (cr_BlockNumber req)
      else if cr_Method req = ''state_getBalance'' then ethGetBalance up (cr_Address req) (cr_BlockNumber req)
      else if cr_Method req = ''state_getNonce'' then ethGetTransactionCount up (cr_Address req) (cr_BlockNumber req)
      else if cr_Method req = ''state_getCode'' then ethGetCode up (cr_Address req) (cr_BlockNumber req)
      else Inl (''unknown method: '' @ cr_Method req))"

datatype response = Resp_Error "string option" int string | Resp_Value string string

text \<open>\<open>between\<close> is what other goroutines do to the cache while the node is asked.\<close>

definition handleClientRequest ::
  "(byte list \<Rightarrow> client_message option) \<Rightarrow> upstream \<Rightarrow> (state_cache \<Rightarrow> state_cache) \<Rightarrow> byte list \<Rightarrow> state_cache
    \<Rightarrow> response \<times> state_cache" where
  "handleClientRequest unmarshal up between data c =
     (case parseRequest unmarshal data of
        Inl (code, msg) \<Rightarrow> (Resp_Error None code msg, c)
      | Inr req0 \<Rightarrow>
          let currentBlock = sc_blockNumber c;
              req = req0\<lparr>cr_BlockNumber := currentBlock\<rparr>
          in (case cacheLookup c req of
                Some cached \<Rightarrow> (Resp_Value (cr_ID req) cached, c)
              | None \<Rightarrow>
                  (case fetchFromNode up req of
                     Inl err \<Rightarrow> (Resp_Error (Some (cr_ID req)) (- 32603) err, between c)
                   | Inr value \<Rightarrow>
                       (let c1 = between c
                        in (Resp_Value (cr_ID req) value,
                            if sc_blockNumber c1 = currentBlock then cacheStore req value c1 else c1)))))"

subsection \<open>Clients and blocks\<close>

text \<open>The connected clients, and the messages written to each.\<close>

record ('c, 'm) client_manager =
  cl_clients :: "'c list"
  cl_written :: "('c \<times> 'm) list"

definition newClientManager :: "('c, 'm) client_manager" where
  "newClientManager = \<lparr>cl_clients = [], cl_written = []\<rparr>"

definition cl_add :: "'c \<Rightarrow> ('c, 'm) client_manager \<Rightarrow> ('c, 'm) client_manager" where
  "cl_add c m = (if c \<in> set (cl_clients m) then m else m\<lparr>cl_clients := cl_clients m @ [c]\<rparr>)"

definition cl_remove :: "'c \<Rightarrow> ('c, 'm) client_manager \<Rightarrow> ('c, 'm) client_manager" where
  "cl_remove c m = m\<lparr>cl_clients := filter (\<lambda>d. d \<noteq> c) (cl_clients m)\<rparr>"

definition cl_broadcast :: "'m \<Rightarrow> ('c, 'm) client_manager \<Rightarrow> ('c, 'm) client_manager" where
  "cl_broadcast msg m = m\<lparr>cl_written := cl_written m @ map (\<lambda>c. (c, msg)) (cl_clients m)\<rparr>"

definition cl_count :: "('c, 'm) client_manager \<Rightarrow> nat" where
  "cl_count m = length (cl_clients m)"

datatype wire_message = Wire_Dump gob_dump | Wire_Diff server_message

record 'c state_server =
  sv_cache :: state_cache
  sv_clients :: "('c, wire_message) client_manager"

text \<open>A subscriber gets the dump and is registered, both under the read lock.\<close>

definition subscribe ::
  "(state_cache \<Rightarrow> slot_order) \<Rightarrow> (state_cache \<Rightarrow> address list) \<Rightarrow> 'c \<Rightarrow> 'c state_server \<Rightarrow> 'c state_server" where
  "subscribe order addrs conn s =
     (let gobBytes = dumpGob (order (sv_cache s)) (addrs (sv_cache s)) (sv_cache s);
          m = (sv_clients s)\<lparr>cl_written := cl_written (sv_clients s) @ [(conn, Wire_Dump gobBytes)]\<rparr>
      in s\<lparr>sv_clients := cl_add conn m\<rparr>)"

text \<open>One block of the loop; a failed fetch ends the inner loop.\<close>

definition process_block ::
  "(server_diff \<Rightarrow> diff_order) \<Rightarrow> (int \<Rightarrow> string + server_diff) \<Rightarrow> (int \<Rightarrow> string + block_info) \<Rightarrow> int
    \<Rightarrow> 'c state_server \<Rightarrow> 'c state_server option" where
  "process_block order trace info block s =
     (case trace block of
        Inl err \<Rightarrow> None
      | Inr diff \<Rightarrow>
          (case info block of
             Inl err \<Rightarrow> None
           | Inr bi \<Rightarrow>
               let o' = order diff;
                   (applied, cache) = applyDiffAndUpdateBlock (or_storage o') diff block (bi_Timestamp bi)
                     (bi_BaseFee bi) (bi_GasLimit bi) (sv_cache s);
                   ds = diffSize (or_storage o') diff;
                   msg = Wire_Diff \<lparr>sm_Type = ''block_diff'', sm_BlockNumber = word_of_int block,
                     sm_Timestamp = bi_Timestamp bi, sm_BaseFee = bi_BaseFee bi, sm_GasLimit = bi_GasLimit bi,
                     sm_Entries = diffToEntries o'\<rparr>;
                   clients = (if 0 < ds \<and> 0 < cl_count (sv_clients s) then cl_broadcast msg (sv_clients s)
                              else sv_clients s)
               in Some (s\<lparr>sv_cache := cache, sv_clients := clients\<rparr>)))"

fun catch_up ::
  "(server_diff \<Rightarrow> diff_order) \<Rightarrow> (int \<Rightarrow> string + server_diff) \<Rightarrow> (int \<Rightarrow> string + block_info) \<Rightarrow> int list
    \<Rightarrow> int \<times> 'c state_server \<Rightarrow> int \<times> 'c state_server" where
  "catch_up order trace info [] acc = acc"
| "catch_up order trace info (block # blocks) (processedBlock, s) =
     (case process_block order trace info block s of
        None \<Rightarrow> (processedBlock, s)
      | Some s' \<Rightarrow> catch_up order trace info blocks (block, s'))"

text \<open>One round of the outer loop: the blocks after the last processed one, up to the latest seen.\<close>

definition block_round ::
  "(server_diff \<Rightarrow> diff_order) \<Rightarrow> (int \<Rightarrow> string + server_diff) \<Rightarrow> (int \<Rightarrow> string + block_info) \<Rightarrow> int
    \<Rightarrow> int \<times> 'c state_server \<Rightarrow> int \<times> 'c state_server" where
  "block_round order trace info latest acc =
     (if latest \<le> fst acc then acc else catch_up order trace info [fst acc + 1..latest] acc)"

text \<open>A frozen endpoint: when the block cannot be fetched it is logged, and the server is ready all the same.\<close>

definition initFrozen :: "(int \<Rightarrow> string + block_info) \<Rightarrow> int \<Rightarrow> 'c state_server \<Rightarrow> 'c state_server" where
  "initFrozen info block s =
     (case info block of
        Inl err \<Rightarrow> s
      | Inr bi \<Rightarrow> s\<lparr>sv_cache := (sv_cache s)\<lparr>sc_blockNumber := block, sc_timestamp := bi_Timestamp bi,
          sc_baseFee := bi_BaseFee bi, sc_gasLimit := bi_GasLimit bi\<rparr>\<rparr>)"

definition new_server :: "'c state_server" where
  "new_server = \<lparr>sv_cache = newStateCache, sv_clients = newClientManager\<rparr>"

text \<open>The servers by block; only the frozen ones are initialised here, block 0 is the live one.\<close>

definition getOrCreateServer ::
  "(int \<Rightarrow> string + block_info) \<Rightarrow> int \<Rightarrow> (int \<rightharpoonup> 'c state_server) \<Rightarrow> 'c state_server \<times> (int \<rightharpoonup> 'c state_server)" where
  "getOrCreateServer info block servers =
     (case servers block of
        Some s \<Rightarrow> (s, servers)
      | None \<Rightarrow>
          (let s = (if block = 0 then new_server else initFrozen info block new_server)
           in (s, servers(block \<mapsto> s))))"

subsection \<open>The caching proxy for calls\<close>

type_synonym 'v call_cache = "string \<rightharpoonup> 'v"

definition ethCallCacheKey :: "(string \<Rightarrow> byte list) \<Rightarrow> string \<Rightarrow> string" where
  "ethCallCacheKey sha256 params = EncodeHex (sha256 params)"

definition proxyEthCall ::
  "(string \<Rightarrow> byte list) \<Rightarrow> (string \<Rightarrow> string \<Rightarrow> string + 'v) \<Rightarrow> string \<Rightarrow> 'v call_cache \<Rightarrow> (string + 'v) \<times> 'v call_cache" where
  "proxyEthCall sha256 callNode params cache =
     (let key = ethCallCacheKey sha256 params
      in case cache key of
           Some cached \<Rightarrow> (Inr cached, cache)
         | None \<Rightarrow>
             (case callNode ''eth_call'' params of
                Inl err \<Rightarrow> (Inl err, cache)
              | Inr result \<Rightarrow> (Inr result, cache(key \<mapsto> result))))"

end
