(* ===== verification/Server_Client.thy ===== *)
theory Server_Client
  imports State_Server
begin

text \<open>
  The state server and its clients together: the wire form of a block diff and what a client makes of it,
  the soundness of the server's cache, and the three places where values go wrong: quantities with an odd
  number of digits, accounts the server knows in part, and frozen endpoints that failed to initialise.
\<close>

subsection \<open>The wire form of a diff\<close>

definition hex_ok :: "hex_lib \<Rightarrow> bool" where
  "hex_ok H \<longleftrightarrow> (\<forall>a. HexToAddress H (addrHex a) = a) \<and> (\<forall>h. HexToHash H (hashHex h) = h)"

text \<open>The writes the two storage loops make, and orders that visit each map exactly once.\<close>

definition storage_writes :: "slot_order \<Rightarrow> (address \<times> hash \<times> hash) list" where
  "storage_writes order = concat (map (\<lambda>(a, xs). map (\<lambda>(k, v). (a, k, v)) xs) order)"

definition slot_order_of :: "slot_order \<Rightarrow> (address, hash, hash) nested \<Rightarrow> bool" where
  "slot_order_of order m \<longleftrightarrow> distinct (map (\<lambda>(a, k, v). (a, k)) (storage_writes order))
     \<and> (\<forall>a k. nget m a k = map_of (map (\<lambda>(a, k, v). ((a, k), v)) (storage_writes order)) (a, k))"

definition diff_orders :: "diff_order \<Rightarrow> server_diff \<Rightarrow> bool" where
  "diff_orders o' d \<longleftrightarrow> slot_order_of (or_storage o') (df_storage d)
     \<and> enumerates (or_balance o') (df_balance d) \<and> enumerates (or_nonce o') (df_nonce d)
     \<and> enumerates (or_code o') (df_code d)"

lemma EncodeHex_no_colon: "CHR '':'' \<notin> set (EncodeHex bs)"
proof (induction bs)
  case (Cons b bs)
  then show ?case
    using hex_char_not_sign [OF byte_digits(1,2), of b] hex_char_not_sign [OF byte_digits(3,4), of b]
    by (auto simp: EncodeHex_def)
qed (simp add: EncodeHex_def)

lemma takeWhile_stop: "c \<notin> set xs \<Longrightarrow> takeWhile (\<lambda>x. x \<noteq> c) (xs @ c # ys) = xs"
  "c \<notin> set xs \<Longrightarrow> dropWhile (\<lambda>x. x \<noteq> c) (xs @ c # ys) = c # ys"
  by (induction xs) auto

lemma addrHex_no_colon: "CHR '':'' \<notin> set (addrHex a)" and hashHex_no_colon: "CHR '':'' \<notin> set (hashHex h)"
  using EncodeHex_no_colon by (simp_all add: addrHex_def hashHex_def)

lemma split_storage_key:
  "SplitN (''s:'' @ addrHex a @ '':'' @ hashHex k) (CHR '':'') 3 = [''s'', addrHex a, hashHex k]"
proof -
  have "SplitN (addrHex a @ CHR '':'' # hashHex k) (CHR '':'') (Suc (Suc 0)) = [addrHex a, hashHex k]"
    using takeWhile_stop [OF addrHex_no_colon [of a], of "hashHex k"] by simp
  then show ?thesis by (simp add: numeral_3_eq_3)
qed

lemma hash_word: "word_of_int (be_int (be_bytes 32 (uint (h :: hash)))) = h"
proof -
  have "uint h < 256 ^ 32" using uint_bounded [of h] by simp
  then show ?thesis by (simp add: be_int_bytes)
qed

lemma storage_entry_diff:
  "hex_ok H \<Longrightarrow> diff_entry H (''s:'' @ addrHex a @ '':'' @ hashHex k, hashHex v) d
    = d\<lparr>bd_Storage := nset a k v (bd_Storage d)\<rparr>"
  using split_storage_key [of a k] by (simp add: diff_entry_def HasPrefix_def hex_ok_def)

lemma balance_entry_diff:
  assumes "hex_ok H"
  shows "diff_entry H (''b:'' @ addrHex a, hashHex v) d = d\<lparr>bd_Balance := fmupd a v (bd_Balance d)\<rparr>"
proof -
  have "be_bytes 32 (uint v) \<noteq> []" using length_be_bytes [of 32 "uint v"] by force
  then have "SetString16 (TrimPrefix (hashHex v) ''0x'') = Some (be_int (be_bytes 32 (uint v)))"
    using SetString16_Encode TrimPrefix_append [of "''0x''"] by (simp add: hashHex_def)
  then show ?thesis using assms hash_word [of v] by (simp add: diff_entry_def HasPrefix_def hex_ok_def)
qed

lemma nonce_entry_diff:
  assumes "hex_ok H"
  shows "diff_entry H (''n:'' @ addrHex a, ''0x'' @ hex_of (unat n)) d = d\<lparr>bd_Nonce := fmupd a n (bd_Nonce d)\<rparr>"
proof -
  have "SetString16 (TrimPrefix (''0x'' @ hex_of (unat n)) ''0x'') = Some (uint n)"
    using SetString16_hex_of [of "unat n"] TrimPrefix_append [of "''0x''" "hex_of (unat n)"] by simp
  then show ?thesis using assms by (simp add: diff_entry_def HasPrefix_def hex_ok_def)
qed

lemma code_entry_diff: "diff_entry H (''c:'' @ addrHex a, v) d = d"
  by (simp add: diff_entry_def HasPrefix_def)

lemma code_entries_dropped:
  "fold (diff_entry H) (map (\<lambda>(a, c). (''c:'' @ addrHex a, ''0x'' @ EncodeHex c)) xs) d = d"
  using code_entry_diff by (induction xs) (auto simp del: append_Cons)

lemma fold_map_entries:
  assumes "\<And>x d. x \<in> set xs \<Longrightarrow> diff_entry H (f x) d = g x d"
  shows "fold (diff_entry H) (map f xs) d = fold g xs d"
  using assms by (induction xs arbitrary: d) simp_all

lemma fold_balances:
  "fold (\<lambda>(a, v) d. d\<lparr>bd_Balance := fmupd a v (bd_Balance d)\<rparr>) xs d
    = d\<lparr>bd_Balance := fold (\<lambda>(a, v) m. fmupd a v m) xs (bd_Balance d)\<rparr>"
  by (induction xs arbitrary: d) auto

lemma fold_nonces:
  "fold (\<lambda>(a, v) d. d\<lparr>bd_Nonce := fmupd a v (bd_Nonce d)\<rparr>) xs d
    = d\<lparr>bd_Nonce := fold (\<lambda>(a, v) m. fmupd a v m) xs (bd_Nonce d)\<rparr>"
  by (induction xs arbitrary: d) auto

lemma fold_writes:
  "fold (\<lambda>(a, k, v) d. d\<lparr>bd_Storage := nset a k v (bd_Storage d)\<rparr>) xs d
    = d\<lparr>bd_Storage := fold (\<lambda>(a, k, v). nset a k v) xs (bd_Storage d)\<rparr>"
  by (induction xs arbitrary: d) auto

lemma map_of_distinct_rev: "distinct (map fst xs) \<Longrightarrow> map_of (rev xs) = map_of xs"
proof (induction xs)
  case (Cons x xs)
  then have "fst x \<notin> dom (map_of xs)" by (simp add: dom_map_of_conv_image_fst)
  with Cons show ?case by (auto simp: map_add_def fun_eq_iff split: option.split)
qed simp

lemma slot_order_fold:
  assumes "slot_order_of order m"
  shows "nget (fold (\<lambda>(a, k, v). nset a k v) (storage_writes order) s) a k =
    (case nget m a k of None \<Rightarrow> nget s a k | Some v \<Rightarrow> Some v)"
proof -
  have d: "distinct (map fst (map (\<lambda>(a, k, v). ((a, k), v)) (storage_writes order)))"
    using assms by (simp add: slot_order_of_def comp_def split_def)
  have "map_of (rev (map (\<lambda>(a, k, v). ((a, k), v)) (storage_writes order))) (a, k) = nget m a k"
    using map_of_distinct_rev [OF d] assms by (simp add: slot_order_of_def)
  then show ?thesis by (simp only: nested.get_puts)
qed

lemma storage_entries:
  "concat (map (\<lambda>(addr, slots). map (\<lambda>(slot, value).
     (''s:'' @ addrHex addr @ '':'' @ hashHex slot, hashHex value)) slots) order)
   = map (\<lambda>(a, k, v). (''s:'' @ addrHex a @ '':'' @ hashHex k, hashHex v)) (storage_writes order)"
  by (induction order) (auto simp: storage_writes_def)

text \<open>A client reads back exactly the storage, balances and nonces of the diff; the code it drops.\<close>

lemma wire_diff:
  assumes "hex_ok H" and "diff_orders o' d" and "sm_Entries m = diffToEntries o'"
  shows "nget (bd_Storage (message_diff H m)) a k = nget (df_storage d) a k"
    and "bd_Balance (message_diff H m) = df_balance d" and "bd_Nonce (message_diff H m) = df_nonce d"
proof -
  have fold_entries: "fold (diff_entry H) (diffToEntries o') D =
    D\<lparr>bd_Storage := fold (\<lambda>(a, k, v). nset a k v) (storage_writes (or_storage o')) (bd_Storage D),
      bd_Balance := fold (\<lambda>(a, v) m. fmupd a v m) (or_balance o') (bd_Balance D),
      bd_Nonce := fold (\<lambda>(a, v) m. fmupd a v m) (or_nonce o') (bd_Nonce D)\<rparr>" for D
  proof -
    have 1: "fold (diff_entry H) (map (\<lambda>(a, k, v). (''s:'' @ addrHex a @ '':'' @ hashHex k, hashHex v)) xs) D =
      D\<lparr>bd_Storage := fold (\<lambda>(a, k, v). nset a k v) xs (bd_Storage D)\<rparr>" for xs D
      unfolding fold_writes [symmetric]
      by (rule fold_map_entries) (auto simp: storage_entry_diff [OF assms(1), simplified])
    have 2: "fold (diff_entry H) (map (\<lambda>(a, v). (''b:'' @ addrHex a, hashHex v)) xs) D =
      D\<lparr>bd_Balance := fold (\<lambda>(a, v) m. fmupd a v m) xs (bd_Balance D)\<rparr>" for xs D
      unfolding fold_balances [symmetric]
      by (rule fold_map_entries) (auto simp: balance_entry_diff [OF assms(1), simplified])
    have 3: "fold (diff_entry H) (map (\<lambda>(a, n). (''n:'' @ addrHex a, ''0x'' @ hex_of (unat n))) xs) D =
      D\<lparr>bd_Nonce := fold (\<lambda>(a, v) m. fmupd a v m) xs (bd_Nonce D)\<rparr>" for xs D
      unfolding fold_nonces [symmetric]
      by (rule fold_map_entries) (auto simp: nonce_entry_diff [OF assms(1), simplified])
    show ?thesis unfolding diffToEntries_def storage_entries fold_append comp_def 1 2 3 code_entries_dropped by simp
  qed
  show "nget (bd_Storage (message_diff H m)) a k = nget (df_storage d) a k"
    using slot_order_fold [of "or_storage o'" "df_storage d" fmempty a k] assms(2,3)
    by (simp add: message_diff_def fold_entries diff_orders_def split: option.split)
  show "bd_Balance (message_diff H m) = df_balance d" "bd_Nonce (message_diff H m) = df_nonce d"
    using assms(2,3) range_copy [of "or_balance o'" "df_balance d" fmempty] range_copy [of "or_nonce o'" "df_nonce d" fmempty]
    by (simp_all add: message_diff_def fold_entries diff_orders_def)
qed

subsection \<open>Quantities lose a digit\<close>

lemma DecodeHex_even:
  assumes "even (length s)" and "digits16 acc s = Some v"
  shows "v = acc * 256 ^ (length s div 2) + be_int (DecodeHex s) \<and> length (DecodeHex s) = length s div 2"
  using assms
proof (induction s arbitrary: acc rule: DecodeHex.induct)
  case (1 c d cs)
  from 1(3) obtain h l where hl: "hex_value c = Some h" "hex_value d = Some l"
    and r: "digits16 ((acc * 16 + h) * 16 + l) cs = Some v"
    by (auto split: option.splits)
  have range: "0 \<le> h" "h < 16" "0 \<le> l" "l < 16" using hl by (auto simp: hex_value_def Let_def split: if_splits)
  define wb :: byte where "wb = word_of_int (16 * h + l)"
  have w: "uint wb = 16 * h + l"
    unfolding wb_def using range by (simp only: uint_word_of_int) simp
  have dec: "DecodeHex (c # d # cs) = wb # DecodeHex cs" using hl by (simp add: wb_def)
  have "v = ((acc * 16 + h) * 16 + l) * 256 ^ (length cs div 2) + be_int (DecodeHex cs)"
    and len: "length (DecodeHex cs) = length cs div 2"
    using 1(1) [OF refl hl _ r] 1(2) by auto
  then show ?case by (simp add: dec be_int_Cons w algebra_simps del: DecodeHex.simps)
qed (simp_all add: be_int_def)

lemma DecodeHex_odd:
  assumes "even (length s)" and "digits16 acc s \<noteq> None"
  shows "DecodeHex (s @ [c]) = DecodeHex s"
  using assms by (induction s arbitrary: acc rule: DecodeHex.induct) (auto split: option.splits)

lemma length_hex_of: "n < 16 ^ Suc k \<Longrightarrow> length (hex_of n) \<le> Suc k"
proof (induction k arbitrary: n)
  case (Suc k)
  show ?case
  proof (cases "n < 16")
    case False
    have "n div 16 < 16 ^ Suc k" using Suc.prems by (simp add: less_mult_imp_div_less mult.commute)
    with Suc.IH show ?thesis by (simp add: hex_of.simps [of n] False)
  qed (simp add: hex_of.simps [of n])
next
  case 0
  then show ?case by (simp add: hex_of.simps [of n])
qed

lemma to_lower_hex: "0 \<le> d \<Longrightarrow> d < 16 \<Longrightarrow> to_lower (hex_char d) = hex_char d"
  using hex_char_code [of d] by (auto simp: to_lower_def Let_def split: if_splits)

lemma ToLower_hex_of: "ToLower (hex_of n) = hex_of n"
proof (induction n rule: hex_of.induct)
  case (1 n)
  then show ?case by (cases "n < 16") (simp_all add: hex_of.simps [of n] ToLower_def to_lower_hex)
qed

lemma ToLower_Encode: "ToLower (EncodeHex bs) = EncodeHex bs"
  by (induction bs) (simp_all add: EncodeHex_def ToLower_def to_lower_hex byte_digits)

lemma ToLower_0x: "ToLower (''0x'' @ s) = ''0x'' @ ToLower s"
proof -
  have "to_lower (CHR ''0'') = CHR ''0''" "to_lower (CHR ''x'') = CHR ''x''" by code_simp+
  then show ?thesis by (simp add: ToLower_def)
qed

lemma hexToHash_quantity:
  assumes "n < 2 ^ 256"
  shows "hexToHash (''0x'' @ hex_of n) = (if even (length (hex_of n)) then of_nat n else of_nat (n div 16))"
proof -
  have "length (hex_of n) \<le> 64" using length_hex_of [of n 63] assms by simp
  then have len: "length (hex_of n) div 2 \<le> 32" by simp
  show ?thesis
  proof (cases "even (length (hex_of n))")
    case True
    then have "be_int (DecodeHex (hex_of n)) = int n" "length (DecodeHex (hex_of n)) = length (hex_of n) div 2"
      using DecodeHex_even [OF True, of 0 "int n"] digits16_hex_of [of n] by simp_all
    with True len show ?thesis
      using TrimPrefix_append [of "''0x''" "hex_of n"] ToLower_0x [of "hex_of n"]
      by (simp add: hexToHash_def ToLower_hex_of Let_def)
  next
    case False
    have "be_int (DecodeHex (hex_of n)) = int (n div 16) \<and> length (DecodeHex (hex_of n)) \<le> 32"
    proof (cases "n < 16")
      case True
      then show ?thesis by (simp add: hex_of.simps [of n] be_int_def)
    next
      case big: False
      define s where "s = hex_of (n div 16)"
      have s: "hex_of n = s @ [hex_char (int (n mod 16))]" using big by (simp add: hex_of.simps [of n] s_def)
      then have ev: "even (length s)" using False by simp
      have ds: "digits16 0 s = Some (int (n div 16))" by (simp add: s_def digits16_hex_of)
      then have "DecodeHex (hex_of n) = DecodeHex s" unfolding s by (intro DecodeHex_odd [OF ev, of 0]) simp
      then show ?thesis using DecodeHex_even [OF ev ds] len s by simp
    qed
    with False show ?thesis
      using TrimPrefix_append [of "''0x''" "hex_of n"] ToLower_0x [of "hex_of n"]
      by (simp add: hexToHash_def ToLower_hex_of Let_def)
  qed
qed

lemma hexToHash_hashHex: "hexToHash (hashHex h) = h"
  using TrimPrefix_append [of "''0x''" "EncodeHex (be_bytes 32 (uint h))"]
    ToLower_0x [of "EncodeHex (be_bytes 32 (uint h))"] hash_word [of h]
  by (simp add: hexToHash_def hashHex_def ToLower_Encode Let_def)

subsection \<open>The server's cache is sound\<close>

text \<open>The chain: what holds at each block.  A diff changes what it names.\<close>

record node_values =
  nv_storage :: "address \<Rightarrow> hash \<Rightarrow> hash"
  nv_nonce :: "address \<Rightarrow> 64 word"
  nv_code :: "address \<Rightarrow> byte list"

definition after_diff :: "server_diff \<Rightarrow> node_values \<Rightarrow> node_values" where
  "after_diff d v =
     \<lparr>nv_storage = \<lambda>a k. or_default (nv_storage v a k) (nget (df_storage d) a k),
      nv_nonce = \<lambda>a. or_default (nv_nonce v a) (fmlookup (df_nonce d) a),
      nv_code = \<lambda>a. or_default (nv_code v a) (fmlookup (df_code d) a)\<rparr>"

definition sound :: "(int \<Rightarrow> node_values) \<Rightarrow> state_cache \<Rightarrow> bool" where
  "sound node c \<longleftrightarrow>
     (\<forall>a k v. sc_getStorage c a k = Some v \<longrightarrow> v = nv_storage (node (sc_blockNumber c)) a k)
     \<and> (\<forall>a v. sc_getNonce c a = Some v \<longrightarrow> v = nv_nonce (node (sc_blockNumber c)) a)
     \<and> (\<forall>a v. sc_getCode c a = Some v \<longrightarrow> v = nv_code (node (sc_blockNumber c)) a)"

text \<open>The node answers in the encodings of the JSON-RPC specification.\<close>

definition reads_as :: "node_values \<Rightarrow> client_request \<Rightarrow> string \<Rightarrow> bool" where
  "reads_as nv req v =
     (if cr_Method req = ''state_getStorageAt'' then
        hexToHash v = nv_storage nv (hexToAddr (cr_Address req)) (hexToHash (cr_Slot req))
      else if cr_Method req = ''state_getNonce'' then
        ParseUint16 (TrimPrefix v ''0x'') = Some (nv_nonce nv (hexToAddr (cr_Address req)))
      else if cr_Method req = ''state_getCode'' then
        DecodeHex (TrimPrefix v ''0x'') = nv_code nv (hexToAddr (cr_Address req))
      else True)"

definition honest_node :: "(int \<Rightarrow> node_values) \<Rightarrow> upstream \<Rightarrow> bool" where
  "honest_node node up \<longleftrightarrow> (\<forall>req v. fetchFromNode up req = Inr v \<longrightarrow> reads_as (node (cr_BlockNumber req)) req v)"

lemma apply_slots_lookup:
  assumes "fmlookup (fst (apply_slots slots (dst, n))) k = Some v"
  shows "case map_of (rev slots) k of Some w \<Rightarrow> v = w | None \<Rightarrow> fmlookup dst k = Some v"
  using assms
proof (induction slots arbitrary: dst n)
  case (Cons x xs)
  obtain k' v' where x: "x = (k', v')" by (cases x)
  define dst' where "dst' = (if slot_fits dst k' then fmupd k' v' dst else dst)"
  have "\<exists>n'. apply_slots (x # xs) (dst, n) = apply_slots xs (dst', n')"
    by (auto simp: apply_slots_def x dst'_def)
  with Cons have "case map_of (rev xs) k of Some w \<Rightarrow> v = w | None \<Rightarrow> fmlookup dst' k = Some v" by auto
  moreover have "fmlookup dst' k = Some v \<Longrightarrow> (if k = k' then v = v' else fmlookup dst k = Some v)"
    by (auto simp: dst'_def slot_fits_def split: if_splits)
  ultimately show ?case by (auto simp: x map_add_def split: option.splits)
qed (simp add: apply_slots_def)

definition write_pairs :: "slot_order \<Rightarrow> ((address \<times> hash) \<times> hash) list" where
  "write_pairs order = map (\<lambda>(a, k, v). ((a, k), v)) (storage_writes order)"

lemma write_pairs_Cons: "write_pairs ((a, xs) # order) = map (\<lambda>(k, v). ((a, k), v)) xs @ write_pairs order"
  by (simp add: write_pairs_def storage_writes_def comp_def split_def)

lemma map_of_contract: "map_of (rev (map (\<lambda>(k, v). ((a, k), v)) xs)) (b, l) = (if b = a then map_of (rev xs) l else None)"
  by (induction xs) (auto simp: map_add_def split: option.split)

lemma apply_contracts_lookup:
  assumes "nget (fst (fold apply_contract order (st, n))) b l = Some v"
  shows "case map_of (rev (write_pairs order)) (b, l) of Some w \<Rightarrow> v = w | None \<Rightarrow> nget st b l = Some v"
  using assms
proof (induction order arbitrary: st n)
  case Nil
  then show ?case by (simp add: write_pairs_def storage_writes_def)
next
  case (Cons x order)
  obtain a xs where x: "x = (a, xs)" by (cases x)
  obtain st' n' where step: "apply_contract x (st, n) = (st', n')" by fastforce
  have rest: "case map_of (rev (write_pairs order)) (b, l) of Some w \<Rightarrow> v = w | None \<Rightarrow> nget st' b l = Some v"
    using Cons.IH [of st' n'] Cons.prems step by simp
  have one: "if b = a then (case map_of (rev xs) l of Some w \<Rightarrow> v = w | None \<Rightarrow> nget st b l = Some v)
      else nget st b l = Some v" if g: "nget st' b l = Some v"
  proof (cases "contract_slots st a")
    case None
    then have "st' = st" "fmlookup st a = None"
      using step by (auto simp: apply_contract_def x contract_slots_def split: option.splits)
    with g show ?thesis by (auto simp: nget_def)
  next
    case (Some dst)
    obtain dst' m where s: "apply_slots xs (dst, n) = (dst', m)" by fastforce
    then have st': "st' = fmupd a dst' st" using step Some by (simp add: apply_contract_def x)
    have "nget st a l = fmlookup dst l"
      using Some by (auto simp: contract_slots_def nget_def split: option.splits if_splits)
    then show ?thesis
      using g apply_slots_lookup [of xs dst n l v] s by (cases "b = a") (auto simp: st' nget_def split: option.splits)
  qed
  show ?case
    using rest one by (auto simp: x write_pairs_Cons map_add_def map_of_contract split: option.splits if_splits)
qed

lemma sound_diff:
  assumes "sound node c" and "diff_orders o' d" and "node block = after_diff d (node (sc_blockNumber c))"
  shows "sound node (snd (applyDiffAndUpdateBlock (or_storage o') d block ts bf gl c))"
proof -
  define c' where "c' = snd (applyDiffAndUpdateBlock (or_storage o') d block ts bf gl c)"
  have f: "sc_storage c' = fst (fold apply_contract (or_storage o') (sc_storage c, 0))"
    "sc_blockNumber c' = block"
    by (simp_all add: c'_def applyDiffAndUpdateBlock_def split_beta)
  have g: "sc_getNonce c' a = or_else (fmlookup (df_nonce d) a) (sc_getNonce c a)"
    "sc_getCode c' a = or_else (fmlookup (df_code d) a) (sc_getCode c a)" for a
    unfolding sc_getNonce_def sc_getCode_def fmlookup_fmadd [symmetric]
    by (simp_all add: c'_def applyDiffAndUpdateBlock_def split_beta del: fmlookup_add)
  have dist: "distinct (map fst (write_pairs (or_storage o')))"
    and lk: "map_of (write_pairs (or_storage o')) (a, k) = nget (df_storage d) a k" for a k
    using assms(2) by (simp_all add: diff_orders_def slot_order_of_def write_pairs_def comp_def split_def)
  have "v = nv_storage (node block) a k" if "sc_getStorage c' a k = Some v" for a k v
    using apply_contracts_lookup [of "or_storage o'" "sc_storage c" 0 a k v] that assms(1,3)
    by (auto simp: f sc_getStorage_def map_of_distinct_rev [OF dist] lk after_diff_def or_default_def sound_def
        split: option.splits)
  moreover have "v = nv_nonce (node block) a" if "sc_getNonce c' a = Some v" for a v
    using that assms(1,3) by (auto simp: g sound_def after_diff_def or_default_def or_else_def split: option.splits)
  moreover have "v = nv_code (node block) a" if "sc_getCode c' a = Some v" for a v
    using that assms(1,3) by (auto simp: g sound_def after_diff_def or_default_def or_else_def split: option.splits)
  ultimately show ?thesis by (simp add: sound_def f c'_def [symmetric])
qed

lemma setStorage_lookup:
  "sc_getStorage (sc_setStorage a k v c) b l = Some w \<Longrightarrow>
    (a, k) = (b, l) \<and> w = v \<or> sc_getStorage c b l = Some w"
  by (auto simp: sc_getStorage_def sc_setStorage_def contract_slots_def nget_def split: option.splits if_splits)

lemma sound_store:
  assumes "sound node c" and "reads_as (node (sc_blockNumber c)) req v"
  shows "sound node (cacheStore req v c)"
proof -
  have b: "sc_blockNumber (cacheStore req v c) = sc_blockNumber c"
    by (simp add: cacheStore_def sc_setStorage_def sc_setBalance_def sc_setNonce_def sc_setCode_def Let_def
        split: option.split)
  note d = cacheStore_def Let_def reads_as_def sc_getStorage_def sc_getNonce_def sc_getCode_def sc_setBalance_def
    sc_setNonce_def sc_setCode_def
  have "w = nv_storage (node (sc_blockNumber c)) a k" if "sc_getStorage (cacheStore req v c) a k = Some w" for a k w
  proof (cases "cr_Method req = ''state_getStorageAt''")
    case True
    then show ?thesis using that setStorage_lookup assms by (fastforce simp: cacheStore_def Let_def reads_as_def sound_def)
  next
    case False
    then have "sc_getStorage (cacheStore req v c) a k = sc_getStorage c a k" by (auto simp: d split: option.split)
    with that assms(1) show ?thesis by (simp add: sound_def)
  qed
  moreover have "w = nv_nonce (node (sc_blockNumber c)) a" if "sc_getNonce (cacheStore req v c) a = Some w" for a w
    using that assms by (auto simp: d sound_def sc_setStorage_def split: option.splits if_splits)
  moreover have "w = nv_code (node (sc_blockNumber c)) a" if "sc_getCode (cacheStore req v c) a = Some w" for a w
    using that assms by (auto simp: d sound_def sc_setStorage_def split: option.splits if_splits)
  ultimately show ?thesis by (simp add: sound_def b)
qed

lemma lookup_reads:
  assumes "sound node c" and "cacheLookup c req = Some v"
  shows "reads_as (node (sc_blockNumber c)) req v"
proof -
  have n: "ParseUint16 (TrimPrefix (''0x'' @ hex_of (unat x)) ''0x'') = Some x" for x :: "64 word"
    using TrimPrefix_append [of "''0x''"] ParseUint16_hex_of [of "unat x"] unsigned_less [of x, where ?'a = nat] by simp
  have e: "DecodeHex (TrimPrefix (''0x'' @ EncodeHex bs) ''0x'') = bs" for bs
    using TrimPrefix_append [of "''0x''"] by simp
  have z: "DecodeHex (TrimPrefix ''0x'' ''0x'') = []" by (simp add: TrimPrefix_def HasPrefix_def)
  show ?thesis
    using assms n e z
    by (auto simp: cacheLookup_def reads_as_def sound_def Let_def hexToHash_hashHex split: if_splits)
qed

lemma handle_request:
  assumes "sound node c" and "honest_node node up" and "sound node (between c)"
  shows "sound node (snd (handleClientRequest unmarshal up between data c))"
    and "fst (handleClientRequest unmarshal up between data c) = Resp_Value i v \<Longrightarrow>
      \<exists>req. parseRequest unmarshal data = Inr req \<and> i = cr_ID req \<and> reads_as (node (sc_blockNumber c)) req v"
proof -
  have r: "reads_as nv (req\<lparr>cr_BlockNumber := b\<rparr>) w = reads_as nv req w" for nv req b w
    by (simp add: reads_as_def)
  have h: "reads_as (node (sc_blockNumber c)) req w"
    if "fetchFromNode up (req\<lparr>cr_BlockNumber := sc_blockNumber c\<rparr>) = Inr w" for req w
    using assms(2) that r unfolding honest_node_def by fastforce
  have l: "reads_as (node (sc_blockNumber c)) req w"
    if "cacheLookup c (req\<lparr>cr_BlockNumber := sc_blockNumber c\<rparr>) = Some w" for req w
    using lookup_reads [OF assms(1) that] r by simp
  show "sound node (snd (handleClientRequest unmarshal up between data c))"
    using assms h sound_store [OF assms(3)] r
    by (auto simp: handleClientRequest_def Let_def split: sum.split option.split)
  show "fst (handleClientRequest unmarshal up between data c) = Resp_Value i v \<Longrightarrow>
      \<exists>req. parseRequest unmarshal data = Inr req \<and> i = cr_ID req \<and> reads_as (node (sc_blockNumber c)) req v"
    using h l by (auto simp: handleClientRequest_def Let_def split: sum.splits option.splits)
qed

text \<open>The life of a cache: a start block, blocks of the chain, and requests that overlap with either.\<close>

inductive cache_run ::
  "(int \<Rightarrow> node_values) \<Rightarrow> upstream \<Rightarrow> (byte list \<Rightarrow> client_message option) \<Rightarrow> state_cache \<Rightarrow> bool"
  for node up unmarshal where
  cache_start: "cache_run node up unmarshal (newStateCache\<lparr>sc_blockNumber := b, sc_timestamp := ts,
    sc_baseFee := bf, sc_gasLimit := gl\<rparr>)"
| cache_block: "cache_run node up unmarshal c \<Longrightarrow> diff_orders o' d \<Longrightarrow>
    node block = after_diff d (node (sc_blockNumber c)) \<Longrightarrow>
    cache_run node up unmarshal (snd (applyDiffAndUpdateBlock (or_storage o') d block ts bf gl c))"
| cache_request: "cache_run node up unmarshal c \<Longrightarrow> cache_run node up unmarshal (between c) \<Longrightarrow>
    cache_run node up unmarshal (snd (handleClientRequest unmarshal up between data c))"

lemma cache_run_sound:
  assumes "honest_node node up"
  shows "cache_run node up unmarshal c \<Longrightarrow> sound node c"
proof (induction rule: cache_run.induct)
  case (cache_start b ts bf gl)
  then show ?case by (simp add: sound_def newStateCache_def sc_getStorage_def sc_getNonce_def sc_getCode_def)
next
  case (cache_block c o' d block ts bf gl)
  then show ?case by (intro sound_diff)
next
  case (cache_request c between data)
  then show ?case by (intro handle_request(1) assms)
qed

subsection \<open>What a client gets from the dump\<close>

lemma load_accounts_fields:
  assumes "\<forall>x \<in> set xs. ae_Balance x = f (ae_Addr x) \<and> ae_Nonce x = g (ae_Addr x)"
    and "im' = fold (\<lambda>a. im_SetAccount kc (ae_Addr a) (Some (ae_Balance a)) (ae_Nonce a) (ae_Code a)) xs im"
  shows "im_GetBalance im' a = (if a \<in> ae_Addr ` set xs then Some (f a) else im_GetBalance im a)"
    and "im_GetNonce im' a = (if a \<in> ae_Addr ` set xs then Some (g a) else im_GetNonce im a)"
    and "im_GetStorage im' = im_GetStorage im"
proof -
  have "im_GetBalance im' a = (if a \<in> ae_Addr ` set xs then Some (f a) else im_GetBalance im a)
    \<and> im_GetNonce im' a = (if a \<in> ae_Addr ` set xs then Some (g a) else im_GetNonce im a)
    \<and> im_GetStorage im' = im_GetStorage im"
    using assms
  proof (induction xs arbitrary: im)
    case (Cons x xs)
    define im1 where "im1 = im_SetAccount kc (ae_Addr x) (Some (ae_Balance x)) (ae_Nonce x) (ae_Code x) im"
    have "im_GetBalance im1 a = (if a = ae_Addr x then Some (f a) else im_GetBalance im a)"
      "im_GetNonce im1 a = (if a = ae_Addr x then Some (g a) else im_GetNonce im a)"
      "im_GetStorage im1 = im_GetStorage im"
      using Cons.prems(1) by (simp_all add: im1_def im_SetAccount_def im_GetBalance_def im_GetNonce_def
          im_GetStorage_def Let_def fun_eq_iff)
    moreover have "im' = fold (\<lambda>a. im_SetAccount kc (ae_Addr a) (Some (ae_Balance a)) (ae_Nonce a) (ae_Code a)) xs im1"
      using Cons.prems(2) by (simp add: im1_def)
    ultimately show ?case using Cons.IH [of im1] Cons.prems(1) by auto
  qed simp
  then show "im_GetBalance im' a = (if a \<in> ae_Addr ` set xs then Some (f a) else im_GetBalance im a)"
    and "im_GetNonce im' a = (if a \<in> ae_Addr ` set xs then Some (g a) else im_GetNonce im a)"
    and "im_GetStorage im' = im_GetStorage im" by blast+
qed

lemma load_storage_fields:
  assumes "im' = fold (\<lambda>e. im_SetStorage (se_Addr e) (se_Slot e) (se_Value e))
    (map (\<lambda>(a, k, v). \<lparr>se_Addr = a, se_Slot = k, se_Value = v\<rparr>) ws) im"
  shows "im_GetStorage im' a k = nget (fold (\<lambda>(a, k, v). nset a k v) ws (im_Storage im)) a k"
    and "im_GetBalance im' = im_GetBalance im" and "im_GetNonce im' = im_GetNonce im"
proof -
  have "im' = im\<lparr>im_Storage := fold (\<lambda>(a, k, v). nset a k v) ws (im_Storage im)\<rparr>"
    unfolding assms by (induction ws arbitrary: im) (auto simp: im_SetStorage_def)
  then show "im_GetStorage im' a k = nget (fold (\<lambda>(a, k, v). nset a k v) ws (im_Storage im)) a k"
    and "im_GetBalance im' = im_GetBalance im" and "im_GetNonce im' = im_GetNonce im"
    by (simp_all add: im_GetStorage_def im_GetBalance_def im_GetNonce_def fun_eq_iff)
qed

lemma dump_storage_list:
  "gd_Storage (dumpGob order addrs c) = map (\<lambda>(a, k, v). \<lparr>se_Addr = a, se_Slot = k, se_Value = v\<rparr>) (storage_writes order)"
  by (simp add: dumpGob_def storage_writes_def map_concat comp_def split_def)

text \<open>The storage arrives exactly; every listed account arrives with a balance and a nonce, known or not.\<close>

lemma connect_dump:
  assumes "slot_order_of order (sc_storage c)"
  shows "cached_Storage (ls_state (connect kc (dumpGob order addrs c))) a k = sc_getStorage c a k"
    and "a \<in> set addrs \<Longrightarrow> cached_Balance (ls_state (connect kc (dumpGob order addrs c))) a
      = Some (or_default 0 (sc_getBalance c a))"
    and "a \<in> set addrs \<Longrightarrow> cached_Nonce (ls_state (connect kc (dumpGob order addrs c))) a
      = Some (or_default 0 (sc_getNonce c a))"
proof -
  define d where "d = dumpGob order addrs c"
  define im0 where "im0 = NewImmutableState (gd_BlockNumber d) (gd_Timestamp d)"
  define im1 where "im1 = fold (\<lambda>e. im_SetStorage (se_Addr e) (se_Slot e) (se_Value e)) (gd_Storage d) im0"
  define im2 where "im2 = fold (\<lambda>a. im_SetAccount kc (ae_Addr a) (Some (ae_Balance a)) (ae_Nonce a) (ae_Code a))
    (gd_Accounts d) im1"
  have db: "Immutable (ls_state (connect kc d)) = im2" "sd_bfStorage (ls_state (connect kc d)) = fmempty"
    "sd_bfBalance (ls_state (connect kc d)) = fmempty" "sd_bfNonce (ls_state (connect kc d)) = fmempty"
    by (simp_all add: connect_def loadGobDump_def Let_def im2_def im1_def im0_def SetImmutable_def NewStateDB_def
        Immutable_def)
  have acc: "\<forall>x \<in> set (gd_Accounts d). ae_Balance x = or_default 0 (fmlookup (sc_balance c) (ae_Addr x))
      \<and> ae_Nonce x = or_default 0 (fmlookup (sc_nonce c) (ae_Addr x))" "ae_Addr ` set (gd_Accounts d) = set addrs"
    by (auto simp: d_def dumpGob_def image_image)
  note s1 = load_storage_fields [OF im1_def [unfolded d_def dump_storage_list, folded d_def]]
  note s2 = load_accounts_fields [OF acc(1) im2_def]
  have "im_GetStorage im2 a k = sc_getStorage c a k"
    using slot_order_fold [OF assms, of "im_Storage im0" a k] s1(1) [of a k] s2(3)
    by (simp add: im0_def NewImmutableState_def sc_getStorage_def split: option.split_asm)
  then show "cached_Storage (ls_state (connect kc (dumpGob order addrs c))) a k = sc_getStorage c a k"
    by (simp add: cached_defs d_def [symmetric] db)
  show "a \<in> set addrs \<Longrightarrow> cached_Balance (ls_state (connect kc (dumpGob order addrs c))) a
      = Some (or_default 0 (sc_getBalance c a))"
    and "a \<in> set addrs \<Longrightarrow> cached_Nonce (ls_state (connect kc (dumpGob order addrs c))) a
      = Some (or_default 0 (sc_getNonce c a))"
    using s2(1,2) [of a] acc(2) by (simp_all add: cached_defs d_def [symmetric] db sc_getBalance_def sc_getNonce_def)
qed

subsection \<open>A frozen endpoint that failed to initialise\<close>

lemma frozen_failure:
  assumes "block \<noteq> 0" and "info block = Inl err" and "servers block = None"
  shows "sc_blockNumber (sv_cache (fst (getOrCreateServer info block servers))) = 0"
    and "snd (getOrCreateServer info block servers) block = Some (fst (getOrCreateServer info block servers))"
  using assms by (simp_all add: getOrCreateServer_def initFrozen_def new_server_def newStateCache_def Let_def)

end
