(* ===== verification/Pool_Manager.thy ===== *)
theory Pool_Manager
  imports Go_Maps V2_Pool
begin

text \<open>
  The pool manager (\<open>formulas/pool_quoter.go\<close>): lazily built pool structs, the slots each of them was
  built from, the quote and balance caches, and their invalidation.  Constant-product pools are
  built by the model of their constructors; the constructors of the other formulas, the registry
  and the token models are the collaborators in the record \<open>env\<close>.  A constructor runs on a
  tracking reader, so its model returns the pool, or nil (also after a recovered panic), and the
  slots it read.
\<close>

type_synonym slot_log = "(address \<times> hash) list"

text \<open>A token's transfer behaviour; the two optional adjusters see the other party.\<close>

record token_model =
  tm_AdjustInput :: "u256 \<Rightarrow> u256"
  tm_AdjustOutput :: "u256 \<Rightarrow> u256"
  tm_IsFoT :: bool
  tm_AdjustInputToRecipient :: "(u256 \<Rightarrow> address \<Rightarrow> u256) option"
  tm_AdjustOutputFromSender :: "(u256 \<Rightarrow> address \<Rightarrow> u256) option"

definition defaultTokenModel :: token_model where
  "defaultTokenModel = \<lparr>tm_AdjustInput = (\<lambda>a. a), tm_AdjustOutput = (\<lambda>a. a), tm_IsFoT = False,
     tm_AdjustInputToRecipient = None, tm_AdjustOutputFromSender = None\<rparr>"

text \<open>A fee model: the received amount if it is given, otherwise the amount less the fee.\<close>

definition fot_adjust :: "(int \<Rightarrow> int) \<Rightarrow> (int \<Rightarrow> int) option \<Rightarrow> u256 \<Rightarrow> u256" where
  "fot_adjust calcFee calcReceived amount =
     (let result = (case calcReceived of Some f \<Rightarrow> f (uint amount) | None \<Rightarrow> uint amount - calcFee (uint amount))
      in if result \<le> 0 then 0 else if 2 ^ 256 \<le> result then 0 else word_of_int result)"

definition fotTokenModel :: "(int \<Rightarrow> int) \<Rightarrow> (int \<Rightarrow> int) option \<Rightarrow> token_model" where
  "fotTokenModel calcFee calcReceived = \<lparr>tm_AdjustInput = fot_adjust calcFee calcReceived,
     tm_AdjustOutput = fot_adjust calcFee calcReceived, tm_IsFoT = True,
     tm_AdjustInputToRecipient = None, tm_AdjustOutputFromSender = None\<rparr>"

text \<open>Pool structs behind the interface \<open>PoolQuoter\<close>: \<open>'q\<close> are the structs of the other formulas.\<close>

datatype 'q pool_quoter =
    zeroQuoter address
  | v2Quoter v2_pool
  | otherQuoter 'q
  | deadDirQuoter "'q pool_quoter" "address list" "address list"
  | fotPoolQuoter "'q pool_quoter" "(address, token_model) fmap" bool bool

record 'q env =
  GetFormulaID :: "address \<Rightarrow> int option"
  newOther :: "int \<Rightarrow> address \<Rightarrow> address list \<Rightarrow> 64 word \<Rightarrow> evm_caller option \<Rightarrow> storage_reader
    \<Rightarrow> 'q option \<times> slot_log"
  other_Quote :: "'q \<Rightarrow> u256 \<Rightarrow> address \<Rightarrow> address \<Rightarrow> u256"
  other_Address :: "'q \<Rightarrow> address"
  lfj_SetBlockTimestamp :: "64 word \<Rightarrow> 'q \<Rightarrow> 'q option"
  IsFotExemptPool :: "address \<Rightarrow> bool"
  IsFotExemptInputPool :: "address \<Rightarrow> bool"
  IsFotExemptOutputPool :: "address \<Rightarrow> bool"
  FotPoolTokenOverrides :: "address \<Rightarrow> address \<Rightarrow> token_model option"
  GetModel :: "address \<Rightarrow> token_model option"

fun quoter_Address :: "'q env \<Rightarrow> 'q pool_quoter \<Rightarrow> address" where
  "quoter_Address E (zeroQuoter a) = a"
| "quoter_Address E (v2Quoter p) = v2_addr p"
| "quoter_Address E (otherQuoter p) = other_Address E p"
| "quoter_Address E (deadDirQuoter q any_dir inp) = quoter_Address E q"
| "quoter_Address E (fotPoolQuoter q models ie oe) = quoter_Address E q"

fun quoter_Quote :: "'q env \<Rightarrow> 'q pool_quoter \<Rightarrow> u256 \<Rightarrow> address \<Rightarrow> address \<Rightarrow> u256" where
  "quoter_Quote E (zeroQuoter a) amountIn tokenIn tokenOut = 0"
| "quoter_Quote E (v2Quoter p) amountIn tokenIn tokenOut = v2_Quote p amountIn tokenIn tokenOut"
| "quoter_Quote E (otherQuoter p) amountIn tokenIn tokenOut = other_Quote E p amountIn tokenIn tokenOut"
| "quoter_Quote E (deadDirQuoter q any_dir inp) amountIn tokenIn tokenOut =
     (if tokenIn \<in> set any_dir \<or> tokenOut \<in> set any_dir then 0
      else if tokenIn \<in> set inp then 0
      else quoter_Quote E q amountIn tokenIn tokenOut)"
| "quoter_Quote E (fotPoolQuoter q models inputExempt outputExempt) amountIn tokenIn tokenOut =
     (case (fmlookup models tokenIn, fmlookup models tokenOut) of
        (Some modelIn, Some modelOut) \<Rightarrow>
          (let effectiveIn = (if inputExempt then amountIn
                 else case tm_AdjustInputToRecipient modelIn of
                        Some f \<Rightarrow> f amountIn (quoter_Address E q)
                      | None \<Rightarrow> tm_AdjustInput modelIn amountIn)
           in if \<not> inputExempt \<and> effectiveIn = 0 then 0
              else let out = quoter_Quote E q effectiveIn tokenIn tokenOut
                   in if out = 0 then 0
                      else if outputExempt then out
                      else case tm_AdjustOutputFromSender modelOut of
                             Some f \<Rightarrow> f out (quoter_Address E q)
                           | None \<Rightarrow> tm_AdjustOutput modelOut out)
      | _ \<Rightarrow> quoter_Quote E q amountIn tokenIn tokenOut)"

type_synonym quote_key = "u256 \<times> address \<times> address"
type_synonym quote_cache = "(quote_key, u256) fmap"

definition qc_Lookup :: "quote_cache \<Rightarrow> u256 \<Rightarrow> address \<Rightarrow> address \<Rightarrow> u256 option" where
  "qc_Lookup c amountIn tokenIn tokenOut = fmlookup c (amountIn, tokenIn, tokenOut)"

definition qc_Store :: "u256 \<Rightarrow> address \<Rightarrow> address \<Rightarrow> u256 \<Rightarrow> quote_cache \<Rightarrow> quote_cache" where
  "qc_Store amountIn tokenIn tokenOut out c = fmupd (amountIn, tokenIn, tokenOut) out c"

record 'q pool_manager =
  pm_pools :: "(address, 'q pool_quoter) fmap"
  pm_reader :: storage_reader
  pm_evmCaller :: "evm_caller option"
  pm_poolTokens :: "(address, address list) fmap"
  pm_poolTypes :: "(address, int) fmap"
  pm_poolDex :: "(address, string) fmap"
  pm_blockTimestamp :: "64 word"
  pm_depSlots :: "(address, hash, address list) nested"
  pm_quoteCaches :: "(address, quote_cache) fmap"
  pm_noQuoteCache :: "(address, bool) fmap"
  pm_balanceCache :: "(address, u256 list) fmap"

definition NewPoolManager :: "storage_reader \<Rightarrow> 'q pool_manager" where
  "NewPoolManager reader = \<lparr>pm_pools = fmempty, pm_reader = reader, pm_evmCaller = None,
     pm_poolTokens = fmempty, pm_poolTypes = fmempty, pm_poolDex = fmempty, pm_blockTimestamp = 0,
     pm_depSlots = fmempty, pm_quoteCaches = fmempty, pm_noQuoteCache = fmempty,
     pm_balanceCache = fmempty\<rparr>"

definition ClearQuoteCache :: "'q pool_manager \<Rightarrow> 'q pool_manager" where
  "ClearQuoteCache pm = pm\<lparr>pm_quoteCaches := fmempty, pm_balanceCache := fmempty\<rparr>"

definition SetEVMCaller :: "evm_caller \<Rightarrow> 'q pool_manager \<Rightarrow> 'q pool_manager" where
  "SetEVMCaller fn pm = pm\<lparr>pm_evmCaller := Some fn\<rparr>"

definition SetPoolType :: "address \<Rightarrow> int \<Rightarrow> string \<Rightarrow> 'q pool_manager \<Rightarrow> 'q pool_manager" where
  "SetPoolType pool poolType dex pm = pm\<lparr>pm_poolTypes := fmupd pool poolType (pm_poolTypes pm),
     pm_poolDex := fmupd pool dex (pm_poolDex pm)\<rparr>"

definition SetPoolTokens :: "address \<Rightarrow> address list \<Rightarrow> 'q pool_manager \<Rightarrow> 'q pool_manager" where
  "SetPoolTokens pool tokens pm = pm\<lparr>pm_poolTokens := fmupd pool tokens (pm_poolTokens pm)\<rparr>"

definition tokens_of :: "'q pool_manager \<Rightarrow> address \<Rightarrow> address list" where
  "tokens_of pm pool = (case fmlookup (pm_poolTokens pm) pool of None \<Rightarrow> [] | Some ts \<Rightarrow> ts)"

definition dex_of :: "'q pool_manager \<Rightarrow> address \<Rightarrow> string" where
  "dex_of pm pool = (case fmlookup (pm_poolDex pm) pool of None \<Rightarrow> [] | Some d \<Rightarrow> d)"

text \<open>
  The loop over the pools updates the struct of every LFJ V2 pool in place and drops its quotes.
  Only a fee-on-transfer wrapper is looked through.
\<close>

definition retime :: "'q env \<Rightarrow> 64 word \<Rightarrow> 'q pool_quoter \<Rightarrow> 'q pool_quoter option" where
  "retime E ts q = (case q of
     fotPoolQuoter (otherQuoter p) models ie oe \<Rightarrow>
       map_option (\<lambda>p'. fotPoolQuoter (otherQuoter p') models ie oe) (lfj_SetBlockTimestamp E ts p)
   | otherQuoter p \<Rightarrow> map_option otherQuoter (lfj_SetBlockTimestamp E ts p)
   | _ \<Rightarrow> None)"

definition SetBlockTimestamp :: "'q env \<Rightarrow> 64 word \<Rightarrow> 'q pool_manager \<Rightarrow> 'q pool_manager" where
  "SetBlockTimestamp E ts pm =
     (if ts = pm_blockTimestamp pm then pm
      else pm\<lparr>pm_blockTimestamp := ts,
              pm_pools := fmmap (\<lambda>q. case retime E ts q of None \<Rightarrow> q | Some q' \<Rightarrow> q') (pm_pools pm),
              pm_quoteCaches := fmfilter (\<lambda>a. case fmlookup (pm_pools pm) a of
                  None \<Rightarrow> True | Some q \<Rightarrow> retime E ts q = None) (pm_quoteCaches pm)\<rparr>)"

subsection \<open>Building a pool\<close>

definition FormulaV2_30bps :: int where "FormulaV2_30bps = 0"
definition FormulaPharaohV1 :: int where "FormulaPharaohV1 = 1"
definition FormulaV3 :: int where "FormulaV3 = 2"
definition FormulaLFJV2 :: int where "FormulaLFJV2 = 3"
definition FormulaAlgebra :: int where "FormulaAlgebra = 4"
definition FormulaDODO :: int where "FormulaDODO = 5"
definition FormulaV4 :: int where "FormulaV4 = 6"
definition FormulaBalancerV3 :: int where "FormulaBalancerV3 = 7"
definition FormulaBalancerV2 :: int where "FormulaBalancerV2 = 8"
definition FormulaWombat :: int where "FormulaWombat = 10"
definition FormulaPlatypus :: int where "FormulaPlatypus = 11"
definition FormulaWooFi :: int where "FormulaWooFi = 12"

text \<open>The constructors of constant-product pools with the slots they read.\<close>

definition tracked_v2 :: "string \<Rightarrow> address \<Rightarrow> storage_reader \<Rightarrow> v2_pool option \<times> slot_log" where
  "tracked_v2 dex pool reader =
     (if dex = ''hurricane'' then (newHurricanePool pool reader, [])
      else if dex = ''fraxswap'' then (newFraxswapPool pool reader,
        (let feeVal = reader pool fraxswapFeeSlot
         in if feeVal = 0 \<or> tenK < feeVal then [(pool, fraxswapFeeSlot)]
            else [(pool, fraxswapFeeSlot), (pool, fraxswapReservesSlot)]))
      else (newV2Pool pool reader, [(pool, reservesSlot)]))"

text \<open>
  The cases of the switch: the tokens a constructor gets, or \<open>None\<close> where no constructor is called.
\<close>

definition ctor_tokens :: "int \<Rightarrow> address list \<Rightarrow> address list option" where
  "ctor_tokens formulaID tokens =
     (let hasTokens = 2 \<le> length tokens
      in if formulaID \<in> {FormulaPharaohV1, FormulaV3, FormulaV4, FormulaBalancerV3, FormulaBalancerV2,
             FormulaAlgebra, FormulaWooFi} then Some []
         else if formulaID = FormulaDODO then Some (if hasTokens then [tokens ! 0] else [0])
         else if formulaID \<in> {FormulaLFJV2, FormulaWombat, FormulaPlatypus}
           then (if hasTokens then Some tokens else None)
         else None)"

definition construct_from ::
  "'q env \<Rightarrow> address \<Rightarrow> int \<Rightarrow> address list \<Rightarrow> string \<Rightarrow> 64 word \<Rightarrow> evm_caller option \<Rightarrow> storage_reader
    \<Rightarrow> 'q pool_quoter option \<times> slot_log" where
  "construct_from E pool formulaID tokens dex ts caller reader =
     (if formulaID = FormulaV2_30bps then
        (case tracked_v2 dex pool reader of
           (p, l) \<Rightarrow> (map_option (\<lambda>p. v2Quoter (if 2 \<le> length tokens
              then SetDeadDirs (SetTokenBalances p caller (tokens ! 0) (tokens ! 1)) (tokens ! 0) (tokens ! 1)
              else p)) p, l))
      else case ctor_tokens formulaID tokens of
             None \<Rightarrow> (None, [])
           | Some toks \<Rightarrow> (case newOther E formulaID pool toks ts caller reader of
               (p, l) \<Rightarrow> (map_option otherQuoter p, l)))"

definition construct ::
  "'q env \<Rightarrow> address \<Rightarrow> int \<Rightarrow> 'q pool_manager \<Rightarrow> 'q pool_quoter option \<times> slot_log" where
  "construct E pool formulaID pm = construct_from E pool formulaID (tokens_of pm pool) (dex_of pm pool)
     (pm_blockTimestamp pm) (pm_evmCaller pm) (pm_reader pm)"

text \<open>The models of the tokens, whether one takes a fee, and whether every token has one.\<close>

fun fot_scan ::
  "'q env \<Rightarrow> address \<Rightarrow> address list \<Rightarrow> (address, token_model) fmap \<Rightarrow> bool
    \<Rightarrow> (address, token_model) fmap \<times> bool \<times> bool" where
  "fot_scan E pool [] models anyFoT = (models, anyFoT, True)"
| "fot_scan E pool (tok # toks) models anyFoT =
     (case FotPoolTokenOverrides E pool tok of
        Some m \<Rightarrow> fot_scan E pool toks (fmupd tok m models) True
      | None \<Rightarrow> (case GetModel E tok of
          None \<Rightarrow> (models, anyFoT, False)
        | Some m \<Rightarrow> fot_scan E pool toks (fmupd tok m models) (anyFoT \<or> tm_IsFoT m)))"

definition fot_models ::
  "'q env \<Rightarrow> address \<Rightarrow> address list \<Rightarrow> ((address, token_model) fmap) option" where
  "fot_models E pool tokens =
     (if 2 \<le> length tokens \<and> \<not> IsFotExemptPool E pool
      then (case fot_scan E pool tokens fmempty False of
              (models, anyFoT, allHaveModel) \<Rightarrow> if allHaveModel \<and> anyFoT then Some models else None)
      else None)"

definition register_slot ::
  "address \<Rightarrow> address \<times> hash \<Rightarrow> (address, hash, address list) nested \<Rightarrow> (address, hash, address list) nested" where
  "register_slot pool a deps = (case nget deps (fst a) (snd a) of
     None \<Rightarrow> nset (fst a) (snd a) [pool] deps
   | Some pools \<Rightarrow> if pool \<in> set pools then deps else nset (fst a) (snd a) (pools @ [pool]) deps)"

definition deadPoolDirs :: "(address \<times> address) list" where
  "deadPoolDirs = [
     (0x4e0364a85f084b65a61a0e7d2d217fcbe958f9a1, 0xd7da0de6ef4f51d6206bf2a35fcd2030f54c3f7b),
     (0x9ba9c677d19347abfba1d6b6d6ceb61942071561, 0x38f9bf9dce51833ec7f03c9dc218197999999999),
     (0x4c79e30bc8eb6d83620b6166e49a27615eeed221, 0xb97ef9ef8734c71904d8002f8b6bc66dd9c48a6e),
     (0xdf9db5a5f3a00e0e27def12af95b4528ec23cf86, 0xc139aa91399600f6b72975ac3317b6d49cb30a69),
     (0x54ba397425a60361c684aeae22f2c7c78b24cf90, 0x9702230a8ea53601f5cd2dc00fdbc13d4df4a8c7),
     (0x5c2e48c07f27f6250e7a1709d12d01b6b92205ba, 0x49d5c2bdffac6ce2bfdb6640f4f80f226bc10bab),
     (0x04d479a32d5941f2329c307ee906e36753f0e9f0, 0xd698aeab9286a38d14894b6ccf5129660fffc6f3),
     (0x70201236b99f79392b877e760898061917796aeb, 0xf84be5e3f534e6d4b60d104b299e33ecb03ce7fd)]"

definition wrap :: "'q env \<Rightarrow> address \<Rightarrow> address list \<Rightarrow> 'q pool_quoter \<Rightarrow> 'q pool_quoter" where
  "wrap E pool tokens q =
     (let hasTokens = 2 \<le> length tokens;
          anyDir = (if hasTokens then filter (\<lambda>t. t \<in> set brokenTokens) tokens else []);
          inputOnly = (if hasTokens then filter (\<lambda>t. t \<in> set inputDeadTokens) tokens else []);
          inputOnly = (case map_of deadPoolDirs pool of None \<Rightarrow> inputOnly | Some t \<Rightarrow> t # inputOnly);
          q = (if 0 < length anyDir \<or> 0 < length inputOnly then deadDirQuoter q anyDir inputOnly else q)
      in case fot_models E pool tokens of
           None \<Rightarrow> q
         | Some models \<Rightarrow> fotPoolQuoter q models (IsFotExemptInputPool E pool) (IsFotExemptOutputPool E pool))"

definition buildQuoter ::
  "'q env \<Rightarrow> address \<Rightarrow> int \<Rightarrow> 'q pool_manager \<Rightarrow> 'q pool_quoter option \<times> 'q pool_manager" where
  "buildQuoter E pool formulaID pm =
     (case construct E pool formulaID pm of
        (None, accessed) \<Rightarrow> (None, pm)
      | (Some built, accessed) \<Rightarrow>
          (let q = wrap E pool (tokens_of pm pool) built
           in (Some q, pm\<lparr>pm_depSlots := fold (register_slot pool) accessed (pm_depSlots pm),
                          pm_pools := fmupd pool q (pm_pools pm)\<rparr>)))"

definition Get :: "'q env \<Rightarrow> address \<Rightarrow> 'q pool_manager \<Rightarrow> 'q pool_quoter \<times> 'q pool_manager" where
  "Get E pool pm =
     (case fmlookup (pm_pools pm) pool of
        Some q \<Rightarrow> (q, pm)
      | None \<Rightarrow>
          (case GetFormulaID E pool of
             None \<Rightarrow> (zeroQuoter pool, pm\<lparr>pm_pools := fmupd pool (zeroQuoter pool) (pm_pools pm)\<rparr>)
           | Some fid \<Rightarrow>
               (if fid < 0
                then (zeroQuoter pool, pm\<lparr>pm_pools := fmupd pool (zeroQuoter pool) (pm_pools pm)\<rparr>)
                else case buildQuoter E pool fid pm of
                       (None, pm) \<Rightarrow> (zeroQuoter pool, pm\<lparr>pm_pools := fmupd pool (zeroQuoter pool) (pm_pools pm)\<rparr>)
                     | (Some q, pm) \<Rightarrow> (q, pm))))"

subsection \<open>Quoting\<close>

definition readBalanceOf :: "evm_caller \<Rightarrow> address \<Rightarrow> address \<Rightarrow> u256" where
  "readBalanceOf caller token holder =
     (case caller token (balance_calldata holder) of
        Some ret \<Rightarrow> if 32 \<le> length ret then be_word (take 32 ret) else 0
      | None \<Rightarrow> 0)"

fun token_index :: "address list \<Rightarrow> address \<Rightarrow> nat option" where
  "token_index [] t = None"
| "token_index (u # us) t = (if u = t then Some 0 else map_option Suc (token_index us t))"

text \<open>The balance cap; indexing past the cached balances panics.\<close>

definition cap_output :: "u256 list \<Rightarrow> address list \<Rightarrow> address \<Rightarrow> u256 \<Rightarrow> u256 option" where
  "cap_output balances tokens tokenOut out =
     (case token_index tokens tokenOut of
        None \<Rightarrow> Some out
      | Some i \<Rightarrow> if length balances \<le> i then None
                  else Some (if balances ! i \<noteq> 0 \<and> balances ! i < out then 0 else out))"

definition cached_quote :: "'q pool_manager \<Rightarrow> address \<Rightarrow> u256 \<Rightarrow> address \<Rightarrow> address \<Rightarrow> u256 option" where
  "cached_quote pm pool amountIn tokenIn tokenOut =
     (if fmlookup (pm_noQuoteCache pm) pool = Some True then None
      else case fmlookup (pm_quoteCaches pm) pool of
             None \<Rightarrow> None | Some cache \<Rightarrow> qc_Lookup cache amountIn tokenIn tokenOut)"

definition store_quote ::
  "address \<Rightarrow> u256 \<Rightarrow> address \<Rightarrow> address \<Rightarrow> u256 \<Rightarrow> 'q pool_manager \<Rightarrow> 'q pool_manager" where
  "store_quote pool amountIn tokenIn tokenOut out pm =
     (if fmlookup (pm_noQuoteCache pm) pool = Some True then pm
      else let cache = (case fmlookup (pm_quoteCaches pm) pool of None \<Rightarrow> fmempty | Some c \<Rightarrow> c)
           in pm\<lparr>pm_quoteCaches := fmupd pool (qc_Store amountIn tokenIn tokenOut out cache) (pm_quoteCaches pm)\<rparr>)"

definition apply_cap ::
  "address \<Rightarrow> address \<Rightarrow> u256 \<Rightarrow> 'q pool_manager \<Rightarrow> (u256 \<times> 'q pool_manager) option" where
  "apply_cap pool tokenOut out pm =
     (case pm_evmCaller pm of
        None \<Rightarrow> Some (out, pm)
      | Some caller \<Rightarrow>
          (if out = 0 then Some (out, pm)
           else case fmlookup (pm_poolTokens pm) pool of
             None \<Rightarrow> Some (out, pm)
           | Some tokens \<Rightarrow>
               (let balances = (case fmlookup (pm_balanceCache pm) pool of
                      Some bs \<Rightarrow> bs | None \<Rightarrow> map (\<lambda>tok. readBalanceOf caller tok pool) tokens);
                    pm = (case fmlookup (pm_balanceCache pm) pool of
                      Some bs \<Rightarrow> pm
                    | None \<Rightarrow> pm\<lparr>pm_balanceCache := fmupd pool balances (pm_balanceCache pm)\<rparr>)
                in do { out \<leftarrow> cap_output balances tokens tokenOut out; Some (out, pm) })))"

definition pm_Quote ::
  "'q env \<Rightarrow> address \<Rightarrow> u256 \<Rightarrow> address \<Rightarrow> address \<Rightarrow> 'q pool_manager \<Rightarrow> (u256 \<times> 'q pool_manager) option" where
  "pm_Quote E pool amountIn tokenIn tokenOut pm =
     (case cached_quote pm pool amountIn tokenIn tokenOut of
        Some out \<Rightarrow> Some (out, pm)
      | None \<Rightarrow>
          (case Get E pool pm of (quoter, pm) \<Rightarrow>
             do {
               (out, pm) \<leftarrow> apply_cap pool tokenOut (quoter_Quote E quoter amountIn tokenIn tokenOut) pm;
               Some (out, store_quote pool amountIn tokenIn tokenOut out pm)
             }))"

definition QuoteBypassQuoteCache ::
  "'q env \<Rightarrow> address \<Rightarrow> u256 \<Rightarrow> address \<Rightarrow> address \<Rightarrow> 'q pool_manager \<Rightarrow> u256 \<times> 'q pool_manager" where
  "QuoteBypassQuoteCache E pool amountIn tokenIn tokenOut pm =
     (case Get E pool pm of (quoter, pm) \<Rightarrow> (quoter_Quote E quoter amountIn tokenIn tokenOut, pm))"

subsection \<open>Invalidation\<close>

definition drop_pool_slots ::
  "address \<Rightarrow> (address, hash, address list) nested \<Rightarrow> (address, hash, address list) nested" where
  "drop_pool_slots addr deps =
     (let filtered = fmmap (fmmap (filter (\<lambda>pa. pa \<noteq> addr))) deps;
          kept = fmmap (\<lambda>slots. fmfilter (\<lambda>slot. fmlookup slots slot \<noteq> Some []) slots) filtered
      in fmfilter (\<lambda>contract. fmlookup kept contract \<noteq> Some fmempty) kept)"

definition Invalidate :: "address \<Rightarrow> 'q pool_manager \<Rightarrow> 'q pool_manager" where
  "Invalidate addr pm = pm\<lparr>pm_pools := fmdrop addr (pm_pools pm),
     pm_quoteCaches := fmdrop addr (pm_quoteCaches pm),
     pm_balanceCache := fmdrop addr (pm_balanceCache pm),
     pm_depSlots := drop_pool_slots addr (pm_depSlots pm)\<rparr>"

definition InvalidateBySlot :: "address \<Rightarrow> hash \<Rightarrow> 'q pool_manager \<Rightarrow> address list \<times> 'q pool_manager" where
  "InvalidateBySlot contractAddr slot pm =
     (case nget (pm_depSlots pm) contractAddr slot of
        None \<Rightarrow> ([], pm)
      | Some addrs \<Rightarrow> (if length addrs = 0 then ([], pm) else (addrs, fold Invalidate addrs pm)))"

definition BuildQuoterForFormulaID ::
  "'q env \<Rightarrow> address \<Rightarrow> int \<Rightarrow> 'q pool_manager \<Rightarrow> 'q pool_quoter option \<times> 'q pool_manager" where
  "BuildQuoterForFormulaID E pool formulaID pm = buildQuoter E pool formulaID (Invalidate pool pm)"

end
