(* ===== verification/Pool_Cache.thy ===== *)
theory Pool_Cache
  imports Pool_Manager
begin

text \<open>
  The caches of the pool manager are sound.  A constructor's result depends only on the slots it
  logged (locale \<open>tracked_ctor\<close>), the log is in the reverse map from slots to pools, and
  invalidating a changed slot drops every struct and quote that could depend on it.  The invariant
  \<open>coherent\<close> is kept by every step of a managed pool manager; from it, a cached quote is the quote
  of a pool built from scratch.
\<close>

subsection \<open>Constructors read through the tracking reader only\<close>

locale tracked_ctor =
  fixes ctor :: "storage_reader \<Rightarrow> 'p option \<times> slot_log"
  assumes tracking: "(\<And>a k. (a, k) \<in> set (snd (ctor r)) \<Longrightarrow> r' a k = r a k) \<Longrightarrow> ctor r' = ctor r"
begin

lemma untouched: "(c, s) \<notin> set (snd (ctor r)) \<Longrightarrow> ctor (r(c := (r c)(s := v))) = ctor r"
  by (rule tracking) auto

end

interpretation v2_ctor: tracked_ctor "tracked_v2 dex pool" for dex pool
proof
  fix r r' :: storage_reader
  assume "\<And>a k. (a, k) \<in> set (snd (tracked_v2 dex pool r)) \<Longrightarrow> r' a k = r a k"
  then show "tracked_v2 dex pool r' = tracked_v2 dex pool r"
    by (auto simp: tracked_v2_def newHurricanePool_def newFraxswapPool_def newV2Pool_def
        newV2PoolWithSlot_def Let_def split: if_splits)
qed

locale pool_env =
  fixes E :: "'q env"
  assumes other_tracked: "tracked_ctor (newOther E fid pool toks ts evm)"
begin

lemma construct_from_tracking:
  "tracked_ctor (construct_from E pool fid toks dex ts caller)"
proof
  fix r r' :: storage_reader
  let ?c = "construct_from E pool fid toks dex ts caller"
  assume agree: "\<And>a k. (a, k) \<in> set (snd (?c r)) \<Longrightarrow> r' a k = r a k"
  have o: "newOther E fid pool ts' ts caller r' = newOther E fid pool ts' ts caller r"
    if "snd (?c r) = snd (newOther E fid pool ts' ts caller r)" for ts'
    by (rule tracked_ctor.tracking [OF other_tracked]) (use agree that in auto)
  have v: "tracked_v2 dex pool r' = tracked_v2 dex pool r" if "snd (?c r) = snd (tracked_v2 dex pool r)"
    by (rule v2_ctor.tracking) (use agree that in auto)
  show "?c r' = ?c r"
  proof (cases "fid = FormulaV2_30bps")
    case True
    then show ?thesis using v by (simp add: construct_from_def split_beta)
  next
    case False
    show ?thesis
    proof (cases "ctor_tokens fid toks")
      case (Some ts')
      then show ?thesis using False o [of ts'] by (simp add: construct_from_def split_beta)
    qed (simp add: construct_from_def False)
  qed
qed

lemma construct_tracking:
  assumes "\<And>a k. (a, k) \<in> set (snd (construct E pool fid pm)) \<Longrightarrow> r' a k = pm_reader pm a k"
  shows "construct E pool fid (pm\<lparr>pm_reader := r'\<rparr>) = construct E pool fid pm"
  using tracked_ctor.tracking [OF construct_from_tracking, of pool fid "tokens_of pm pool" "dex_of pm pool"
      "pm_blockTimestamp pm" "pm_evmCaller pm" "pm_reader pm" r'] assms
  by (simp add: construct_def tokens_of_def dex_of_def)

end

subsection \<open>The invariant\<close>

definition deps_at :: "'q pool_manager \<Rightarrow> address \<Rightarrow> hash \<Rightarrow> address list" where
  "deps_at pm a k = (case nget (pm_depSlots pm) a k of None \<Rightarrow> [] | Some ps \<Rightarrow> ps)"

text \<open>The pool built from scratch, and the quote it gives under the balance cap.\<close>

definition fresh_quoter :: "'q env \<Rightarrow> 'q pool_manager \<Rightarrow> address \<Rightarrow> 'q pool_quoter" where
  "fresh_quoter E pm pool = (case GetFormulaID E pool of
     None \<Rightarrow> zeroQuoter pool
   | Some fid \<Rightarrow> (if fid < 0 then zeroQuoter pool
       else case fst (construct E pool fid pm) of
              None \<Rightarrow> zeroQuoter pool | Some built \<Rightarrow> wrap E pool (tokens_of pm pool) built))"

definition capped :: "'q pool_manager \<Rightarrow> address \<Rightarrow> address \<Rightarrow> u256 \<Rightarrow> u256" where
  "capped pm pool tokenOut out = (case (pm_evmCaller pm, fmlookup (pm_poolTokens pm) pool) of
     (Some caller, Some tokens) \<Rightarrow> (if tokenOut \<in> set tokens
        \<and> readBalanceOf caller tokenOut pool \<noteq> 0 \<and> readBalanceOf caller tokenOut pool < out then 0 else out)
   | _ \<Rightarrow> out)"

definition direct_quote :: "'q env \<Rightarrow> 'q pool_manager \<Rightarrow> address \<Rightarrow> u256 \<Rightarrow> address \<Rightarrow> address \<Rightarrow> u256" where
  "direct_quote E pm pool amountIn tokenIn tokenOut =
     capped pm pool tokenOut (quoter_Quote E (fresh_quoter E pm pool) amountIn tokenIn tokenOut)"

definition held :: "'q env \<Rightarrow> 'q pool_manager \<Rightarrow> address \<Rightarrow> 'q pool_quoter \<Rightarrow> bool" where
  "held E pm p q \<longleftrightarrow> q = zeroQuoter p \<or>
     (\<exists>fid built l. GetFormulaID E p = Some fid \<and> 0 \<le> fid \<and> construct E p fid pm = (Some built, l)
        \<and> q = wrap E p (tokens_of pm p) built \<and> (\<forall>(a, k)\<in>set l. p \<in> set (deps_at pm a k)))"

definition balances_ok :: "'q pool_manager \<Rightarrow> bool" where
  "balances_ok pm \<longleftrightarrow> (\<forall>p bs. fmlookup (pm_balanceCache pm) p = Some bs \<longrightarrow>
     (\<exists>caller toks. pm_evmCaller pm = Some caller \<and> fmlookup (pm_poolTokens pm) p = Some toks
        \<and> bs = map (\<lambda>t. readBalanceOf caller t p) toks))"

definition quotes_ok :: "'q env \<Rightarrow> 'q pool_manager \<Rightarrow> bool" where
  "quotes_ok E pm \<longleftrightarrow> (\<forall>p c amt ti to out. fmlookup (pm_quoteCaches pm) p = Some c
     \<longrightarrow> qc_Lookup c amt ti to = Some out
     \<longrightarrow> (\<exists>q. fmlookup (pm_pools pm) p = Some q \<and> out = capped pm p to (quoter_Quote E q amt ti to)))"

definition coherent :: "'q env \<Rightarrow> 'q pool_manager \<Rightarrow> bool" where
  "coherent E pm \<longleftrightarrow> (\<forall>p q. fmlookup (pm_pools pm) p = Some q \<longrightarrow> held E pm p q)
     \<and> balances_ok pm \<and> quotes_ok E pm"

text \<open>What a manager is configured with: everything but its caches.\<close>

definition same_config :: "'q pool_manager \<Rightarrow> 'q pool_manager \<Rightarrow> bool" where
  "same_config pm pm' \<longleftrightarrow> pm_evmCaller pm' = pm_evmCaller pm \<and> pm_poolTokens pm' = pm_poolTokens pm
     \<and> pm_poolDex pm' = pm_poolDex pm \<and> pm_blockTimestamp pm' = pm_blockTimestamp pm
     \<and> pm_noQuoteCache pm' = pm_noQuoteCache pm"

lemma config_cong:
  assumes "same_config pm pm'"
  shows "tokens_of pm' p = tokens_of pm p" "dex_of pm' p = dex_of pm p" "capped pm' p to out = capped pm p to out"
    "pm_reader pm' = pm_reader pm \<Longrightarrow> construct E p fid pm' = construct E p fid pm"
proof -
  show t: "tokens_of pm' p = tokens_of pm p" and d: "dex_of pm' p = dex_of pm p"
    using assms by (simp_all add: same_config_def tokens_of_def dex_of_def)
  show "capped pm' p to out = capped pm p to out" using assms by (simp add: same_config_def capped_def)
  show "pm_reader pm' = pm_reader pm \<Longrightarrow> construct E p fid pm' = construct E p fid pm"
    using assms unfolding construct_def t d by (simp add: same_config_def)
qed

lemma fresh_cong:
  "same_config pm pm' \<Longrightarrow> pm_reader pm' = pm_reader pm \<Longrightarrow> fresh_quoter E pm' p = fresh_quoter E pm p"
  using config_cong(1,4) [of pm pm'] by (auto simp: fresh_quoter_def split: option.split)

lemma direct_cong:
  "same_config pm pm' \<Longrightarrow> pm_reader pm' = pm_reader pm \<Longrightarrow>
    direct_quote E pm' p amt ti to = direct_quote E pm p amt ti to"
  by (simp add: direct_quote_def config_cong fresh_cong)

lemma same_config_refl [simp]: "same_config pm pm"
  by (simp add: same_config_def)

lemma same_config_trans: "same_config pm pm' \<Longrightarrow> same_config pm' pm'' \<Longrightarrow> same_config pm pm''"
  by (simp add: same_config_def)

lemma held_mono:
  assumes "held E pm p q" and "same_config pm pm'" and "pm_reader pm' = pm_reader pm"
    and "\<And>a k. set (deps_at pm a k) \<subseteq> set (deps_at pm' a k)"
  shows "held E pm' p q"
proof (cases "q = zeroQuoter p")
  case False
  with assms(1) obtain fid built l where "GetFormulaID E p = Some fid" "0 \<le> fid"
    "construct E p fid pm = (Some built, l)" "q = wrap E p (tokens_of pm p) built"
    "\<forall>(a, k)\<in>set l. p \<in> set (deps_at pm a k)" by (auto simp: held_def)
  then show ?thesis unfolding held_def
    using assms(4) by (intro disjI2 exI [of _ fid] exI [of _ built] exI [of _ l])
      (auto simp: config_cong [OF assms(2)] assms(3) dest!: bspec)
qed (simp add: held_def)

lemma wrap_not_zero:
  assumes "construct E p fid pm = (Some built, l)"
  shows "wrap E p toks built \<noteq> zeroQuoter p"
proof -
  have "built \<noteq> zeroQuoter p"
    using assms by (auto simp: construct_def construct_from_def split_beta split: if_splits option.splits)
  then show ?thesis by (simp add: wrap_def Let_def split: option.split)
qed

lemma held_fresh:
  assumes "held E pm p q" and "q \<noteq> zeroQuoter p"
  shows "q = fresh_quoter E pm p"
  using assms by (auto simp: held_def fresh_quoter_def)

subsection \<open>The reverse map\<close>

lemma deps_register:
  "(case nget (register_slot pool x deps) a k of None \<Rightarrow> [] | Some ps \<Rightarrow> ps) =
    (let old = (case nget deps a k of None \<Rightarrow> [] | Some ps \<Rightarrow> ps)
     in if (a, k) = x \<and> pool \<notin> set old then old @ [pool] else old)"
  by (cases x) (auto simp: register_slot_def Let_def split: option.split)

lemma deps_registers:
  "set (case nget (fold (register_slot pool) xs deps) a k of None \<Rightarrow> [] | Some ps \<Rightarrow> ps) =
    set (case nget deps a k of None \<Rightarrow> [] | Some ps \<Rightarrow> ps) \<union> (if (a, k) \<in> set xs then {pool} else {})"
proof (induction xs arbitrary: deps)
  case (Cons x xs)
  have "set (case nget (register_slot pool x deps) a k of None \<Rightarrow> [] | Some ps \<Rightarrow> ps) =
    set (case nget deps a k of None \<Rightarrow> [] | Some ps \<Rightarrow> ps) \<union> (if (a, k) = x then {pool} else {})"
    unfolding deps_register by (auto simp: Let_def)
  with Cons.IH [of "register_slot pool x deps"] show ?case by auto
qed simp

lemma nget_drop_pool_slots:
  "nget (drop_pool_slots addr deps) a k = (case nget deps a k of None \<Rightarrow> None
     | Some ps \<Rightarrow> if filter (\<lambda>pa. pa \<noteq> addr) ps = [] then None else Some (filter (\<lambda>pa. pa \<noteq> addr) ps))"
proof (cases "fmlookup deps a")
  case None
  then show ?thesis by (simp add: nget_def drop_pool_slots_def Let_def)
next
  case (Some slots)
  define kept where "kept = fmfilter (\<lambda>slot. fmlookup (fmmap (filter (\<lambda>pa. pa \<noteq> addr)) slots) slot \<noteq> Some [])
    (fmmap (filter (\<lambda>pa. pa \<noteq> addr)) slots)"
  have "fmlookup (drop_pool_slots addr deps) a = (if kept = fmempty then None else Some kept)"
    using Some by (simp add: drop_pool_slots_def Let_def kept_def)
  then have "nget (drop_pool_slots addr deps) a k = fmlookup kept k"
    by (simp add: nget_def)
  also have "\<dots> = (case fmlookup slots k of None \<Rightarrow> None
     | Some ps \<Rightarrow> if filter (\<lambda>pa. pa \<noteq> addr) ps = [] then None else Some (filter (\<lambda>pa. pa \<noteq> addr) ps))"
    by (simp add: kept_def split: option.split)
  finally show ?thesis using Some by (simp add: nget_def)
qed

lemma deps_Invalidate: "set (deps_at (Invalidate p pm) a k) = set (deps_at pm a k) - {p}"
  by (auto simp: deps_at_def Invalidate_def nget_drop_pool_slots filter_empty_conv
      split: option.splits if_splits)

subsection \<open>Every step keeps the invariant\<close>

lemma Invalidate_config: "same_config pm (Invalidate p pm)" "pm_reader (Invalidate p pm) = pm_reader pm"
  by (simp_all add: same_config_def Invalidate_def)

text \<open>Invalidation, seen pool by pool: the pools that remain keep their dependencies.\<close>

lemma held_Invalidate:
  assumes "held E pm p q" and "p \<noteq> x"
  shows "held E (Invalidate x pm) p q"
  using assms unfolding held_def
  by (simp add: config_cong [OF Invalidate_config(1)] Invalidate_config(2) deps_Invalidate)

lemma coherent_Invalidate:
  assumes "coherent E pm"
  shows "coherent E (Invalidate x pm)"
  unfolding coherent_def
proof (intro conjI allI impI)
  fix p q assume "fmlookup (pm_pools (Invalidate x pm)) p = Some q"
  then have "fmlookup (pm_pools pm) p = Some q" "p \<noteq> x" by (auto simp: Invalidate_def split: if_splits)
  with assms show "held E (Invalidate x pm) p q" by (intro held_Invalidate) (auto simp: coherent_def)
next
  show "balances_ok (Invalidate x pm)" using assms by (auto simp: coherent_def balances_ok_def Invalidate_def)
  have "quotes_ok E pm" using assms by (simp add: coherent_def)
  then show "quotes_ok E (Invalidate x pm)"
    unfolding quotes_ok_def config_cong(3) [OF Invalidate_config(1)]
    by (auto simp: Invalidate_def)
qed

lemma coherent_Invalidates: "coherent E pm \<Longrightarrow> coherent E (fold Invalidate xs pm)"
  by (induction xs arbitrary: pm) (simp_all add: coherent_Invalidate)

lemma Invalidates_config:
  "same_config pm (fold Invalidate xs pm) \<and> pm_reader (fold Invalidate xs pm) = pm_reader pm"
  by (induction xs arbitrary: pm) (auto intro: same_config_trans Invalidate_config simp: Invalidate_config)

lemma Invalidates_deps: "set (deps_at (fold Invalidate xs pm) a k) = set (deps_at pm a k) - set xs"
  by (induction xs arbitrary: pm) (auto simp: deps_Invalidate)

lemma InvalidateBySlot_eq: "snd (InvalidateBySlot c s pm) = fold Invalidate (deps_at pm c s) pm"
  by (simp add: InvalidateBySlot_def deps_at_def split: option.split)

text \<open>The value of a slot changes and the pools that depend on it are invalidated.\<close>

definition slot_update :: "address \<Rightarrow> hash \<Rightarrow> hash \<Rightarrow> 'q pool_manager \<Rightarrow> 'q pool_manager" where
  "slot_update c s v pm =
     (snd (InvalidateBySlot c s pm))\<lparr>pm_reader := (pm_reader pm)(c := (pm_reader pm c)(s := v))\<rparr>"

lemma slot_update_config: "same_config pm (slot_update c s v pm)"
proof -
  have "same_config x (x\<lparr>pm_reader := r\<rparr>)" for x :: "'q pool_manager" and r by (simp add: same_config_def)
  then show ?thesis using Invalidates_config [of pm "deps_at pm c s"] same_config_trans
    unfolding slot_update_def InvalidateBySlot_eq by blast
qed

context pool_env
begin

lemma coherent_update:
  assumes "coherent E pm"
  shows "coherent E (slot_update c s v pm)"
proof -
  define pm1 where "pm1 = fold Invalidate (deps_at pm c s) pm"
  define r' where "r' = (pm_reader pm)(c := (pm_reader pm c)(s := v))"
  have u: "slot_update c s v pm = pm1\<lparr>pm_reader := r'\<rparr>"
    by (simp add: slot_update_def InvalidateBySlot_eq pm1_def r'_def)
  have co: "coherent E pm1" unfolding pm1_def by (rule coherent_Invalidates [OF assms])
  have rd: "pm_reader pm1 = pm_reader pm" unfolding pm1_def using Invalidates_config by blast
  have de: "p \<notin> set (deps_at pm1 c s)" for p unfolding pm1_def Invalidates_deps by simp
  have cf: "same_config pm1 (pm1\<lparr>pm_reader := r'\<rparr>)" by (simp add: same_config_def)
  have held': "held E (pm1\<lparr>pm_reader := r'\<rparr>) p q" if h: "held E pm1 p q" for p q
  proof (cases "q = zeroQuoter p")
    case True
    then show ?thesis by (simp add: held_def)
  next
    case False
    with h obtain fid built l where b: "GetFormulaID E p = Some fid" "0 \<le> fid"
      "construct E p fid pm1 = (Some built, l)" "q = wrap E p (tokens_of pm1 p) built"
      "\<forall>(a, k)\<in>set l. p \<in> set (deps_at pm1 a k)" by (auto simp: held_def)
    have "(c, s) \<notin> set l" using b(5) de by auto
    then have "construct E p fid (pm1\<lparr>pm_reader := r'\<rparr>) = construct E p fid pm1"
      using b(3) by (intro construct_tracking) (auto simp: r'_def rd)
    with b show ?thesis unfolding held_def
      by (intro disjI2 exI [of _ fid] exI [of _ built] exI [of _ l])
        (auto simp: config_cong [OF cf] deps_at_def)
  qed
  show ?thesis
    using co held' unfolding u coherent_def
    by (simp add: balances_ok_def quotes_ok_def config_cong(3) [OF cf])
qed

end

lemma Get_spec:
  assumes "coherent E pm" and "Get E p pm = (q, pm')"
  shows "coherent E pm' \<and> same_config pm pm' \<and> pm_reader pm' = pm_reader pm
    \<and> fmlookup (pm_pools pm') p = Some q
    \<and> pm_quoteCaches pm' = pm_quoteCaches pm \<and> pm_balanceCache pm' = pm_balanceCache pm
    \<and> (fmlookup (pm_pools pm) p \<noteq> Some (zeroQuoter p) \<longrightarrow> q = fresh_quoter E pm p)"
proof (cases "fmlookup (pm_pools pm) p")
  case (Some q0)
  with assms have "q = q0" "pm' = pm" by (auto simp: Get_def)
  moreover have "held E pm p q0" using assms(1) Some by (simp add: coherent_def)
  ultimately show ?thesis using Some assms(1) held_fresh [of E pm p q0] by auto
next
  case None
  have insert: "coherent E (pm\<lparr>pm_depSlots := D, pm_pools := fmupd p q (pm_pools pm)\<rparr>)"
    if D: "\<And>a k. set (deps_at pm a k) \<subseteq> set (deps_at (pm\<lparr>pm_depSlots := D, pm_pools := fmupd p q (pm_pools pm)\<rparr>) a k)"
      and q: "held E (pm\<lparr>pm_depSlots := D, pm_pools := fmupd p q (pm_pools pm)\<rparr>) p q" for D
  proof -
    let ?pm = "pm\<lparr>pm_depSlots := D, pm_pools := fmupd p q (pm_pools pm)\<rparr>"
    have cf: "same_config pm ?pm" "pm_reader ?pm = pm_reader pm" by (simp_all add: same_config_def)
    have "balances_ok ?pm" using assms(1) by (simp add: coherent_def balances_ok_def)
    moreover have "quotes_ok E ?pm"
      unfolding quotes_ok_def config_cong(3) [OF cf(1)]
    proof (intro allI impI)
      fix p' c amt ti to out
      assume "fmlookup (pm_quoteCaches ?pm) p' = Some c" "qc_Lookup c amt ti to = Some out"
      then obtain q' where "fmlookup (pm_pools pm) p' = Some q'" "out = capped pm p' to (quoter_Quote E q' amt ti to)"
        using assms(1) unfolding coherent_def quotes_ok_def by simp blast
      with None show "\<exists>q'. fmlookup (pm_pools ?pm) p' = Some q' \<and> out = capped pm p' to (quoter_Quote E q' amt ti to)"
        by auto
    qed
    moreover have "held E ?pm p' q'" if "fmlookup (pm_pools ?pm) p' = Some q'" for p' q'
    proof (cases "p = p'")
      case True
      with that q show ?thesis by simp
    next
      case False
      with that have "held E pm p' q'" using assms(1) by (simp add: coherent_def)
      then show ?thesis by (rule held_mono [OF _ cf D])
    qed
    ultimately show ?thesis by (simp add: coherent_def)
  qed
  show ?thesis
  proof (cases "\<exists>fid built l. GetFormulaID E p = Some fid \<and> 0 \<le> fid \<and> construct E p fid pm = (Some built, l)")
    case True
    then obtain fid built l where b: "GetFormulaID E p = Some fid" "0 \<le> fid"
      "construct E p fid pm = (Some built, l)" by blast
    define D where "D = fold (register_slot p) l (pm_depSlots pm)"
    have q: "q = wrap E p (tokens_of pm p) built"
      and pm': "pm' = pm\<lparr>pm_depSlots := D, pm_pools := fmupd p q (pm_pools pm)\<rparr>"
      using assms(2) None b by (auto simp: Get_def buildQuoter_def Let_def D_def)
    have cf: "same_config pm pm'" "pm_reader pm' = pm_reader pm" by (simp_all add: pm' same_config_def)
    have d: "set (deps_at pm' a k) = set (deps_at pm a k) \<union> (if (a, k) \<in> set l then {p} else {})" for a k
      by (simp add: deps_at_def pm' D_def deps_registers)
    have "held E pm' p q"
      unfolding held_def using b q by (auto simp: config_cong [OF cf(1)] cf(2) d)
    then have "coherent E pm'" using d unfolding pm' by (intro insert) auto
    moreover have "q = fresh_quoter E pm p" using b q by (simp add: fresh_quoter_def)
    ultimately show ?thesis using cf by (simp add: pm')
  next
    case False
    then have q: "q = zeroQuoter p" and pm': "pm' = pm\<lparr>pm_depSlots := pm_depSlots pm, pm_pools := fmupd p q (pm_pools pm)\<rparr>"
      and f: "fresh_quoter E pm p = zeroQuoter p"
      using assms(2) None
      by (auto simp: Get_def buildQuoter_def fresh_quoter_def not_less [symmetric]
          split: option.splits if_splits prod.splits)
    have "coherent E pm'" unfolding pm' by (rule insert) (auto simp: deps_at_def held_def q)
    then show ?thesis using f q by (simp add: pm' same_config_def)
  qed
qed

lemma token_index_spec:
  "(token_index toks t = None \<longleftrightarrow> t \<notin> set toks) \<and> (\<forall>i. token_index toks t = Some i \<longrightarrow> i < length toks \<and> toks ! i = t)"
  by (induction toks) (auto split: if_splits)

lemma apply_cap_spec:
  assumes "balances_ok pm"
  shows "\<exists>B. apply_cap p to out pm = Some (capped pm p to out, pm\<lparr>pm_balanceCache := B\<rparr>)
    \<and> balances_ok (pm\<lparr>pm_balanceCache := B\<rparr>)"
proof (cases "pm_evmCaller pm = None \<or> out = 0 \<or> fmlookup (pm_poolTokens pm) p = None")
  case True
  then show ?thesis using assms
    by (intro exI [of _ "pm_balanceCache pm"]) (auto simp: apply_cap_def capped_def split: option.splits)
next
  case False
  then obtain caller toks where ct: "pm_evmCaller pm = Some caller" "out \<noteq> 0" "fmlookup (pm_poolTokens pm) p = Some toks"
    by auto
  define bs where "bs = map (\<lambda>t. readBalanceOf caller t p) toks"
  have b: "(case fmlookup (pm_balanceCache pm) p of Some bs \<Rightarrow> bs | None \<Rightarrow> bs) = bs"
    using assms ct unfolding balances_ok_def bs_def by (fastforce split: option.split)
  have cap: "cap_output bs toks to out = Some (capped pm p to out)"
    using token_index_spec [of toks to] ct
    by (auto simp: cap_output_def capped_def bs_def split: option.split)
  show ?thesis
  proof (cases "fmlookup (pm_balanceCache pm) p")
    case None
    then show ?thesis using assms ct b cap
      by (intro exI [of _ "fmupd p bs (pm_balanceCache pm)"])
        (auto simp: apply_cap_def bs_def balances_ok_def)
  next
    case (Some bs')
    then show ?thesis using assms ct b cap
      by (intro exI [of _ "pm_balanceCache pm"]) (auto simp: apply_cap_def)
  qed
qed

subsection \<open>Quoting\<close>

lemma store_quote_spec:
  assumes co: "coherent E pm" and q: "fmlookup (pm_pools pm) p = Some q"
    and out: "out = capped pm p to (quoter_Quote E q amt ti to)"
  shows "coherent E (store_quote p amt ti to out pm)" "same_config pm (store_quote p amt ti to out pm)"
    "pm_reader (store_quote p amt ti to out pm) = pm_reader pm"
    "pm_pools (store_quote p amt ti to out pm) = pm_pools pm"
proof -
  let ?pm = "store_quote p amt ti to out pm"
  show cf: "same_config pm ?pm" and rd: "pm_reader ?pm = pm_reader pm" and pl: "pm_pools ?pm = pm_pools pm"
    by (simp_all add: store_quote_def same_config_def Let_def)
  have dp: "deps_at ?pm a k = deps_at pm a k" for a k by (simp add: deps_at_def store_quote_def Let_def)
  have "quotes_ok E ?pm"
    unfolding quotes_ok_def config_cong(3) [OF cf] pl
  proof (intro allI impI)
    fix p' c amt' ti' to' out'
    assume c: "fmlookup (pm_quoteCaches ?pm) p' = Some c" "qc_Lookup c amt' ti' to' = Some out'"
    show "\<exists>q. fmlookup (pm_pools pm) p' = Some q \<and> out' = capped pm p' to' (quoter_Quote E q amt' ti' to')"
    proof (cases "\<exists>c0. fmlookup (pm_quoteCaches pm) p' = Some c0 \<and> qc_Lookup c0 amt' ti' to' = Some out'")
      case True
      then show ?thesis using co unfolding coherent_def quotes_ok_def by blast
    next
      case False
      with c have "p' = p \<and> amt' = amt \<and> ti' = ti \<and> to' = to \<and> out' = out"
        by (auto simp: store_quote_def qc_Store_def qc_Lookup_def Let_def split: if_splits option.splits)
      with q out show ?thesis by blast
    qed
  qed
  moreover have "balances_ok ?pm" using co by (simp add: coherent_def balances_ok_def store_quote_def Let_def)
  moreover have "held E ?pm p' q'" if "fmlookup (pm_pools pm) p' = Some q'" for p' q'
    using co that held_mono [OF _ cf rd] dp by (simp add: coherent_def)
  ultimately show "coherent E ?pm" by (simp add: coherent_def pl)
qed

lemma coherent_balances:
  assumes "coherent E pm" and "balances_ok (pm\<lparr>pm_balanceCache := B\<rparr>)"
  shows "coherent E (pm\<lparr>pm_balanceCache := B\<rparr>)"
proof -
  have cf: "same_config pm (pm\<lparr>pm_balanceCache := B\<rparr>)" by (simp add: same_config_def)
  have "held E (pm\<lparr>pm_balanceCache := B\<rparr>) p q" if "held E pm p q" for p q
    using held_mono [OF that cf] by (simp add: deps_at_def)
  with assms show ?thesis by (simp add: coherent_def quotes_ok_def config_cong(3) [OF cf])
qed

lemma pm_Quote_spec:
  assumes co: "coherent E pm"
  shows "\<exists>out pm'. pm_Quote E p amt ti to pm = Some (out, pm') \<and> coherent E pm' \<and> same_config pm pm'
    \<and> pm_reader pm' = pm_reader pm
    \<and> (fmlookup (pm_pools pm) p \<noteq> Some (zeroQuoter p) \<longrightarrow> out = direct_quote E pm p amt ti to)"
proof (cases "cached_quote pm p amt ti to")
  case (Some out)
  then obtain c where "fmlookup (pm_quoteCaches pm) p = Some c" "qc_Lookup c amt ti to = Some out"
    by (auto simp: cached_quote_def split: if_splits option.splits)
  then obtain q where "fmlookup (pm_pools pm) p = Some q" "out = capped pm p to (quoter_Quote E q amt ti to)"
    using co unfolding coherent_def quotes_ok_def by blast
  moreover from this have "held E pm p q" using co by (simp add: coherent_def)
  ultimately show ?thesis using Some co held_fresh [of E pm p q]
    by (auto simp: pm_Quote_def direct_quote_def)
next
  case None
  obtain q pm1 where g: "Get E p pm = (q, pm1)" by force
  note gs = Get_spec [OF co g]
  let ?out = "quoter_Quote E q amt ti to"
  have "balances_ok pm1" using gs by (simp add: coherent_def)
  from apply_cap_spec [OF this, of p to ?out] obtain B where
    B: "apply_cap p to ?out pm1 = Some (capped pm1 p to ?out, pm1\<lparr>pm_balanceCache := B\<rparr>)"
    "balances_ok (pm1\<lparr>pm_balanceCache := B\<rparr>)" by blast
  let ?pm2 = "pm1\<lparr>pm_balanceCache := B\<rparr>"
  have cf: "same_config pm1 ?pm2" by (simp add: same_config_def)
  have cap: "capped pm1 p to ?out = capped pm p to ?out" using gs by (simp add: config_cong)
  have co2: "coherent E ?pm2" using coherent_balances gs B(2) by blast
  have st: "coherent E (store_quote p amt ti to (capped pm p to ?out) ?pm2)"
      "same_config ?pm2 (store_quote p amt ti to (capped pm p to ?out) ?pm2)"
      "pm_reader (store_quote p amt ti to (capped pm p to ?out) ?pm2) = pm_reader ?pm2"
    using store_quote_spec [OF co2, of p q "capped pm p to ?out" to amt ti] gs
    by (simp_all add: config_cong(3) [OF cf] cap)
  have "same_config pm (store_quote p amt ti to (capped pm p to ?out) ?pm2)"
    using gs cf st(2) same_config_trans by blast
  then show ?thesis using None g B(1) gs st cap
    by (auto simp: pm_Quote_def direct_quote_def)
qed

subsection \<open>Managed pool managers\<close>

text \<open>
  A pool manager in use: configured while its caches are empty, then quotes, changed slots with
  their invalidation, explicit invalidations and cleared caches, in any order.  What the EVM caller
  answers does not change meanwhile.
\<close>

inductive managed :: "'q env \<Rightarrow> 'q pool_manager \<Rightarrow> bool" for E where
  managed_new: "pm_pools pm = fmempty \<Longrightarrow> pm_quoteCaches pm = fmempty \<Longrightarrow> pm_balanceCache pm = fmempty \<Longrightarrow> managed E pm"
| managed_quote: "managed E pm \<Longrightarrow> pm_Quote E p amt ti to pm = Some (out, pm') \<Longrightarrow> managed E pm'"
| managed_get: "managed E pm \<Longrightarrow> managed E (snd (Get E p pm))"
| managed_update: "managed E pm \<Longrightarrow> managed E (slot_update c s v pm)"
| managed_invalidate: "managed E pm \<Longrightarrow> managed E (Invalidate p pm)"
| managed_clear: "managed E pm \<Longrightarrow> managed E (ClearQuoteCache pm)"

lemma coherent_clear:
  assumes "coherent E pm"
  shows "coherent E (ClearQuoteCache pm)"
proof -
  have cf: "same_config pm (ClearQuoteCache pm)" by (simp add: same_config_def ClearQuoteCache_def)
  have "held E (ClearQuoteCache pm) p q" if "held E pm p q" for p q
    using held_mono [OF that cf] by (simp add: deps_at_def ClearQuoteCache_def)
  with assms show ?thesis
    by (auto simp: coherent_def quotes_ok_def balances_ok_def) (simp_all add: ClearQuoteCache_def)
qed

context pool_env
begin

lemma managed_coherent: "managed E pm \<Longrightarrow> coherent E pm"
proof (induction rule: managed.induct)
  case (managed_new pm)
  then show ?case by (simp add: coherent_def quotes_ok_def balances_ok_def)
next
  case (managed_quote pm p amt ti to out pm')
  then show ?case using pm_Quote_spec [OF managed_quote.IH, of p amt ti to] by auto
next
  case (managed_get pm p)
  then show ?case using Get_spec [of E pm p "fst (Get E p pm)"] by simp
qed (simp_all add: coherent_update coherent_Invalidate coherent_clear)

lemma managed_quote_fresh:
  assumes "managed E pm" and "fmlookup (pm_pools pm) p \<noteq> Some (zeroQuoter p)"
  shows "\<exists>pm'. pm_Quote E p amt ti to pm = Some (direct_quote E pm p amt ti to, pm')
    \<and> same_config pm pm' \<and> pm_reader pm' = pm_reader pm"
  using pm_Quote_spec [OF managed_coherent [OF assms(1)], of p amt ti to] assms(2) by blast

lemma managed_quote_total:
  assumes "managed E pm"
  shows "\<exists>out pm'. pm_Quote E p amt ti to pm = Some (out, pm')"
  using pm_Quote_spec [OF managed_coherent [OF assms], of p amt ti to] by blast

end

text \<open>A pool that could not be built is remembered as a zero quoter without any dependency.\<close>

definition stuck :: "address \<Rightarrow> 'q pool_manager \<Rightarrow> bool" where
  "stuck p pm \<longleftrightarrow> fmlookup (pm_pools pm) p = Some (zeroQuoter p) \<and> (\<forall>a k. p \<notin> set (deps_at pm a k))"

lemma Invalidates_pools:
  "p \<notin> set xs \<Longrightarrow> fmlookup (pm_pools (fold Invalidate xs pm)) p = fmlookup (pm_pools pm) p"
  by (induction xs arbitrary: pm) (auto simp: Invalidate_def)

lemma stuck_update: "stuck p pm \<Longrightarrow> stuck p (slot_update c s v pm)"
  by (auto simp: stuck_def slot_update_def InvalidateBySlot_eq Invalidates_pools Invalidates_deps
      deps_at_def [of "_\<lparr>pm_reader := _\<rparr>"] deps_at_def [symmetric])

lemma stuck_updates: "stuck p pm \<Longrightarrow> stuck p (fold (\<lambda>(c, s, v). slot_update c s v) us pm)"
  by (induction us arbitrary: pm) (auto simp: stuck_update)

lemma Get_built:
  assumes "fmlookup (pm_pools pm) p = None" and "GetFormulaID E p = Some fid" and "0 \<le> fid"
    and "construct E p fid pm = (Some built, l)"
  shows "Get E p pm = (wrap E p (tokens_of pm p) built,
    pm\<lparr>pm_depSlots := fold (register_slot p) l (pm_depSlots pm),
       pm_pools := fmupd p (wrap E p (tokens_of pm p) built) (pm_pools pm)\<rparr>)"
  using assms by (simp add: Get_def buildQuoter_def Let_def)

lemma Get_stuck:
  assumes "fmlookup (pm_pools pm) p = None" and "GetFormulaID E p = Some fid" and "0 \<le> fid"
    and "fst (construct E p fid pm) = None" and "\<And>a k. p \<notin> set (deps_at pm a k)"
  shows "stuck p (snd (Get E p pm))"
  using assms by (cases "construct E p fid pm") (auto simp: stuck_def Get_def buildQuoter_def deps_at_def)

lemma stuck_bypass: "stuck p pm \<Longrightarrow> fst (QuoteBypassQuoteCache E p amt ti to pm) = 0"
  by (simp add: stuck_def QuoteBypassQuoteCache_def Get_def)

text \<open>The change of the block time passes by pools under a dead-direction wrapper.\<close>

lemma SetBlockTimestamp_dead_dir:
  assumes "fmlookup (pm_pools pm) p = Some (deadDirQuoter q any_dir inp)"
  shows "fmlookup (pm_pools (SetBlockTimestamp E ts pm)) p = Some (deadDirQuoter q any_dir inp)
    \<and> fmlookup (pm_quoteCaches (SetBlockTimestamp E ts pm)) p = fmlookup (pm_quoteCaches pm) p"
  using assms by (simp add: SetBlockTimestamp_def retime_def)

subsection \<open>An environment without other formulas\<close>

definition v2_env :: "(address \<Rightarrow> int option) \<Rightarrow> unit env" where
  "v2_env reg = \<lparr>GetFormulaID = reg, newOther = (\<lambda>fid pool toks ts evm r. (None, [])),
     other_Quote = (\<lambda>p a i t. 0), other_Address = (\<lambda>p. 0), lfj_SetBlockTimestamp = (\<lambda>ts p. None),
     IsFotExemptPool = (\<lambda>p. False), IsFotExemptInputPool = (\<lambda>p. False), IsFotExemptOutputPool = (\<lambda>p. False),
     FotPoolTokenOverrides = (\<lambda>p t. None), GetModel = (\<lambda>t. Some defaultTokenModel)\<rparr>"

interpretation v2_only: pool_env "v2_env reg" for reg
  by unfold_locales (simp add: v2_env_def)

end
