(* ===== verification/Pool_Overlay.thy ===== *)
theory Pool_Overlay
  imports Pool_Cache
begin

text \<open>
  The overlay of a pool manager (\<open>formulas/overlay.go\<close>): dirty storage slots over a base manager.
  Pools that depend on a dirty slot are quoted by a scratch manager that reads through the dirty
  slots, all others by the base.  The loops over Go maps are loops over lists in the order of the
  visit; the set of affected pools is the list of its members.
\<close>

record 'q pm_overlay =
  ol_base :: "'q pool_manager"
  ol_dirtySlots :: "(address, hash, hash) nested"
  ol_affectedPools :: "address list"
  ol_scratchPM :: "'q pool_manager option"

definition NewPoolManagerOverlay ::
  "(address \<times> hash) list \<Rightarrow> 'q pool_manager \<Rightarrow> (address, hash, hash) nested \<Rightarrow> 'q pm_overlay" where
  "NewPoolManagerOverlay order base dirtySlots =
     \<lparr>ol_base = base, ol_dirtySlots = dirtySlots,
      ol_affectedPools = remdups (concat (map (\<lambda>(contractAddr, slot).
        (case nget (pm_depSlots base) contractAddr slot of None \<Rightarrow> [] | Some pools \<Rightarrow> pools)) order)),
      ol_scratchPM = None\<rparr>"

definition AffectedCount :: "'q pm_overlay \<Rightarrow> nat" where
  "AffectedCount o' = length (ol_affectedPools o')"

definition overlay_reader :: "(address, hash, hash) nested \<Rightarrow> storage_reader \<Rightarrow> storage_reader" where
  "overlay_reader dirty baseReader addr slot =
     (case nget dirty addr slot of Some val \<Rightarrow> val | None \<Rightarrow> baseReader addr slot)"

text \<open>The registration of a pool's metadata with the scratch manager.\<close>

definition register_pool :: "'q pool_manager \<Rightarrow> address \<Rightarrow> 'q pool_manager \<Rightarrow> 'q pool_manager" where
  "register_pool base pool sc =
     (let tokens = tokens_of base pool;
          sc = (if 2 \<le> length tokens then SetPoolTokens pool tokens sc else sc)
      in SetPoolType pool (case fmlookup (pm_poolTypes base) pool of None \<Rightarrow> 0 | Some t \<Rightarrow> t) (dex_of base pool) sc)"

definition ensureScratch :: "'q env \<Rightarrow> 'q pm_overlay \<Rightarrow> 'q pm_overlay" where
  "ensureScratch E o' = (case ol_scratchPM o' of
     Some sc \<Rightarrow> o'
   | None \<Rightarrow>
       (let base = ol_base o';
            sc = NewPoolManager (overlay_reader (ol_dirtySlots o') (pm_reader base));
            sc = SetBlockTimestamp E (pm_blockTimestamp base) sc;
            sc = (case pm_evmCaller base of None \<Rightarrow> sc | Some caller \<Rightarrow> SetEVMCaller caller sc);
            sc = fold (register_pool base) (ol_affectedPools o') sc
        in o'\<lparr>ol_scratchPM := Some sc\<rparr>))"

definition ol_Quote ::
  "'q env \<Rightarrow> address \<Rightarrow> u256 \<Rightarrow> address \<Rightarrow> address \<Rightarrow> 'q pm_overlay \<Rightarrow> (u256 \<times> 'q pm_overlay) option" where
  "ol_Quote E pool amountIn tokenIn tokenOut o' =
     (if pool \<notin> set (ol_affectedPools o')
      then do { (out, base) \<leftarrow> pm_Quote E pool amountIn tokenIn tokenOut (ol_base o');
                Some (out, o'\<lparr>ol_base := base\<rparr>) }
      else let o' = ensureScratch E o'
           in do { sc \<leftarrow> ol_scratchPM o';
                   (out, sc) \<leftarrow> pm_Quote E pool amountIn tokenIn tokenOut sc;
                   Some (out, o'\<lparr>ol_scratchPM := Some sc\<rparr>) })"

text \<open>
  \<open>news\<close> are the new dirty slots in the order of the visit.  The reader of an existing scratch manager
  is a closure over the overlay, so it sees the new values at once.
\<close>

definition UpdateDirtySlots :: "(address \<times> hash \<times> hash) list \<Rightarrow> 'q pm_overlay \<Rightarrow> 'q pm_overlay" where
  "UpdateDirtySlots news o' =
     (let base = ol_base o';
          dirty = fold (\<lambda>(a, k, v). nset a k v) news (ol_dirtySlots o');
          newly = concat (map (\<lambda>(a, k, v). (case nget (pm_depSlots base) a k of None \<Rightarrow> [] | Some pools \<Rightarrow> pools)) news);
          affected = remdups (ol_affectedPools o' @ newly);
          scratch = map_option (\<lambda>sc. fold (\<lambda>pa sc. register_pool base pa (Invalidate pa sc)) newly
                      (sc\<lparr>pm_reader := overlay_reader dirty (pm_reader base)\<rparr>)) (ol_scratchPM o')
      in o'\<lparr>ol_dirtySlots := dirty, ol_affectedPools := affected, ol_scratchPM := scratch\<rparr>)"

subsection \<open>Managers whose reader never changes hold fresh pools\<close>

definition exact :: "'q env \<Rightarrow> 'q pool_manager \<Rightarrow> bool" where
  "exact E pm \<longleftrightarrow> (\<forall>p q. fmlookup (pm_pools pm) p = Some q \<longrightarrow> q = fresh_quoter E pm p)"

lemma Get_pools:
  "Get E p pm = (q, pm') \<Longrightarrow> pm_pools pm' = (if fmlookup (pm_pools pm) p = None then fmupd p q (pm_pools pm) else pm_pools pm)"
  by (auto simp: Get_def buildQuoter_def Let_def split: option.splits prod.splits if_splits)

lemma pm_Quote_pools:
  assumes "pm_Quote E p amt ti to pm = Some (out, pm')"
  shows "pm_pools pm' = pm_pools pm \<or> pm_pools pm' = pm_pools (snd (Get E p pm))"
proof (cases "cached_quote pm p amt ti to")
  case None
  obtain q pm1 where g: "Get E p pm = (q, pm1)" by force
  from assms None g obtain out' pm2 where c: "apply_cap p to (quoter_Quote E q amt ti to) pm1 = Some (out', pm2)"
    and p': "pm' = store_quote p amt ti to out' pm2"
    by (auto simp: pm_Quote_def bind_eq_Some_conv)
  have "pm_pools pm2 = pm_pools pm1" using c
    by (auto simp: apply_cap_def Let_def bind_eq_Some_conv split: option.splits if_splits)
  with p' g show ?thesis by (simp add: store_quote_def Let_def)
qed (use assms in \<open>simp add: pm_Quote_def\<close>)

lemma pm_Quote_keeps_pool:
  assumes "pm_Quote E p amt ti to pm = Some (out, pm')" and "fmlookup (pm_pools pm) x = Some q"
  shows "fmlookup (pm_pools pm') x = Some q"
  using pm_Quote_pools [OF assms(1)] assms(2) Get_pools [of E p pm "fst (Get E p pm)" "snd (Get E p pm)"]
  by auto

lemma exact_quote:
  assumes co: "coherent E pm" and ex: "exact E pm"
  shows "\<exists>pm'. pm_Quote E p amt ti to pm = Some (direct_quote E pm p amt ti to, pm')
    \<and> coherent E pm' \<and> exact E pm' \<and> same_config pm pm' \<and> pm_reader pm' = pm_reader pm"
proof -
  obtain q pm1 where g: "Get E p pm = (q, pm1)" by force
  note gs = Get_spec [OF co g]
  have qf: "q = fresh_quoter E pm p"
    using gs g ex by (cases "fmlookup (pm_pools pm) p") (auto simp: exact_def Get_def)
  from pm_Quote_spec [OF co, of p amt ti to] obtain out pm' where
    r: "pm_Quote E p amt ti to pm = Some (out, pm')" "coherent E pm'" "same_config pm pm'" "pm_reader pm' = pm_reader pm"
    and o: "fmlookup (pm_pools pm) p \<noteq> Some (zeroQuoter p) \<longrightarrow> out = direct_quote E pm p amt ti to" by blast
  have "exact E pm'"
    using pm_Quote_pools [OF r(1)] ex qf Get_pools [OF g] g
    by (auto simp: exact_def fresh_cong [OF r(3,4)] split: if_splits)
  moreover have "out = direct_quote E pm p amt ti to"
  proof (cases "fmlookup (pm_pools pm) p = Some (zeroQuoter p)")
    case True
    then have f: "fresh_quoter E pm p = zeroQuoter p" using ex by (auto simp: exact_def)
    have d: "direct_quote E pm p amt ti to = 0"
      by (auto simp: direct_quote_def f capped_def split: option.split)
    show ?thesis
    proof (cases "cached_quote pm p amt ti to")
      case None
      have "Get E p pm = (zeroQuoter p, pm)" using True by (simp add: Get_def)
      with None r(1) d show ?thesis
        by (auto simp: pm_Quote_def apply_cap_def bind_eq_Some_conv split: option.splits)
    next
      case (Some out')
      then obtain c where "fmlookup (pm_quoteCaches pm) p = Some c" "qc_Lookup c amt ti to = Some out'"
        by (auto simp: cached_quote_def split: if_splits option.splits)
      then obtain q' where "fmlookup (pm_pools pm) p = Some q'" "out' = capped pm p to (quoter_Quote E q' amt ti to)"
        using co unfolding coherent_def quotes_ok_def by blast
      with True f Some r(1) show ?thesis by (auto simp: pm_Quote_def direct_quote_def)
    qed
  qed (use o in blast)
  ultimately show ?thesis using r by blast
qed

lemma direct_cong_pool:
  assumes "tokens_of pm' p = tokens_of pm p" "fmlookup (pm_poolTokens pm') p = fmlookup (pm_poolTokens pm) p"
    "dex_of pm' p = dex_of pm p" "pm_blockTimestamp pm' = pm_blockTimestamp pm"
    "pm_evmCaller pm' = pm_evmCaller pm" "pm_reader pm' = pm_reader pm"
  shows "direct_quote E pm' p amt ti to = direct_quote E pm p amt ti to"
proof -
  have "construct E p fid pm' = construct E p fid pm" for fid by (simp add: construct_def assms)
  then have "fresh_quoter E pm' p = fresh_quoter E pm p"
    by (auto simp: fresh_quoter_def assms(1) split: option.split)
  moreover have "capped pm' p to out = capped pm p to out" for out by (simp add: capped_def assms)
  ultimately show ?thesis by (simp add: direct_quote_def)
qed

subsection \<open>The scratch manager\<close>

definition scratch_for :: "'q pool_manager \<Rightarrow> storage_reader \<Rightarrow> address list \<Rightarrow> 'q pool_manager \<Rightarrow> bool" where
  "scratch_for base r affected sc \<longleftrightarrow> pm_reader sc = r \<and> pm_evmCaller sc = pm_evmCaller base
     \<and> pm_blockTimestamp sc = pm_blockTimestamp base
     \<and> (\<forall>p\<in>set affected. dex_of sc p = dex_of base p
          \<and> (2 \<le> length (tokens_of base p) \<longrightarrow> fmlookup (pm_poolTokens sc) p = fmlookup (pm_poolTokens base) p))"

lemma register_pool_fields:
  "pm_reader (register_pool base p sc) = pm_reader sc" "pm_evmCaller (register_pool base p sc) = pm_evmCaller sc"
  "pm_blockTimestamp (register_pool base p sc) = pm_blockTimestamp sc" "pm_pools (register_pool base p sc) = pm_pools sc"
  "pm_quoteCaches (register_pool base p sc) = pm_quoteCaches sc"
  "pm_balanceCache (register_pool base p sc) = pm_balanceCache sc"
  "dex_of (register_pool base p sc) x = (if x = p then dex_of base p else dex_of sc x)"
  by (simp_all add: register_pool_def SetPoolType_def SetPoolTokens_def dex_of_def Let_def)

lemma tokens_lookup: "2 \<le> length (tokens_of base p) \<Longrightarrow> fmlookup (pm_poolTokens base) p = Some (tokens_of base p)"
  by (simp add: tokens_of_def split: option.splits)

lemma register_pool_tokens:
  "2 \<le> length (tokens_of base x) \<Longrightarrow> fmlookup (pm_poolTokens (register_pool base p sc)) x =
    (if x = p then fmlookup (pm_poolTokens base) x else fmlookup (pm_poolTokens sc) x)"
  by (auto simp: register_pool_def SetPoolType_def SetPoolTokens_def Let_def tokens_lookup)

lemma register_pools_fields:
  "pm_reader (fold (register_pool base) ps sc) = pm_reader sc"
  "pm_evmCaller (fold (register_pool base) ps sc) = pm_evmCaller sc"
  "pm_blockTimestamp (fold (register_pool base) ps sc) = pm_blockTimestamp sc"
  "pm_pools (fold (register_pool base) ps sc) = pm_pools sc"
  "pm_quoteCaches (fold (register_pool base) ps sc) = pm_quoteCaches sc"
  "pm_balanceCache (fold (register_pool base) ps sc) = pm_balanceCache sc"
  by (induction ps arbitrary: sc) (simp_all add: register_pool_fields)

lemma register_pools_dex:
  assumes "x \<in> set ps \<or> dex_of sc x = dex_of base x"
  shows "dex_of (fold (register_pool base) ps sc) x = dex_of base x"
  using assms
proof (induction ps arbitrary: sc)
  case (Cons p ps)
  have "x \<in> set ps \<or> dex_of (register_pool base p sc) x = dex_of base x"
  proof (cases "x = p")
    case True
    then show ?thesis by (simp add: register_pool_fields(7))
  next
    case False
    with Cons.prems show ?thesis by (simp only: register_pool_fields(7) if_False) auto
  qed
  from Cons.IH [OF this] show ?case by simp
qed simp

lemma register_pools_tokens:
  assumes "2 \<le> length (tokens_of base x)"
    and "x \<in> set ps \<or> fmlookup (pm_poolTokens sc) x = fmlookup (pm_poolTokens base) x"
  shows "fmlookup (pm_poolTokens (fold (register_pool base) ps sc)) x = fmlookup (pm_poolTokens base) x"
  using assms(2)
proof (induction ps arbitrary: sc)
  case (Cons p ps)
  then show ?case using register_pool_tokens [OF assms(1), of p sc]
    by (cases "x = p") (auto intro!: Cons.IH)
qed simp

lemma ensureScratch_new:
  assumes "ol_scratchPM o' = None"
  shows "\<exists>sc. ensureScratch E o' = o'\<lparr>ol_scratchPM := Some sc\<rparr> \<and> coherent E sc \<and> exact E sc
    \<and> scratch_for (ol_base o') (overlay_reader (ol_dirtySlots o') (pm_reader (ol_base o'))) (ol_affectedPools o') sc"
proof -
  define base where "base = ol_base o'"
  define sc0 where "sc0 = (case pm_evmCaller base of
      None \<Rightarrow> SetBlockTimestamp E (pm_blockTimestamp base) (NewPoolManager (overlay_reader (ol_dirtySlots o') (pm_reader base)))
    | Some caller \<Rightarrow> SetEVMCaller caller (SetBlockTimestamp E (pm_blockTimestamp base)
        (NewPoolManager (overlay_reader (ol_dirtySlots o') (pm_reader base)))))"
  define sc where "sc = fold (register_pool base) (ol_affectedPools o') sc0"
  have s0: "pm_reader sc0 = overlay_reader (ol_dirtySlots o') (pm_reader base)" "pm_evmCaller sc0 = pm_evmCaller base"
    "pm_blockTimestamp sc0 = pm_blockTimestamp base" "pm_pools sc0 = fmempty" "pm_quoteCaches sc0 = fmempty"
    "pm_balanceCache sc0 = fmempty"
    by (auto simp: sc0_def SetBlockTimestamp_def NewPoolManager_def SetEVMCaller_def split: option.split)
  have f: "pm_pools sc = fmempty" "pm_quoteCaches sc = fmempty" "pm_balanceCache sc = fmempty"
    by (simp_all add: sc_def register_pools_fields s0)
  have "coherent E sc" using f by (simp add: coherent_def balances_ok_def quotes_ok_def)
  moreover have "exact E sc" using f by (simp add: exact_def)
  moreover have "scratch_for base (overlay_reader (ol_dirtySlots o') (pm_reader base)) (ol_affectedPools o') sc"
    by (simp add: scratch_for_def sc_def register_pools_fields s0 register_pools_dex register_pools_tokens)
  moreover have "ensureScratch E o' = o'\<lparr>ol_scratchPM := Some sc\<rparr>"
    using assms by (simp add: ensureScratch_def sc_def sc0_def base_def Let_def split: option.split)
  ultimately show ?thesis by (auto simp: base_def)
qed

subsection \<open>Quoting through the overlay\<close>

text \<open>The invariant of an overlay in use, relative to the base and the dirty slots at its creation.\<close>

definition overlay_ok ::
  "'q env \<Rightarrow> 'q pool_manager \<Rightarrow> (address, hash, hash) nested \<Rightarrow> address list \<Rightarrow> 'q pm_overlay \<Rightarrow> bool" where
  "overlay_ok E base dirty affected o' \<longleftrightarrow>
     managed E (ol_base o') \<and> same_config base (ol_base o') \<and> pm_reader (ol_base o') = pm_reader base
     \<and> (\<forall>p q. fmlookup (pm_pools base) p = Some q \<longrightarrow> fmlookup (pm_pools (ol_base o')) p = Some q)
     \<and> ol_dirtySlots o' = dirty \<and> ol_affectedPools o' = affected
     \<and> (\<forall>sc. ol_scratchPM o' = Some sc \<longrightarrow> coherent E sc \<and> exact E sc
          \<and> scratch_for base (overlay_reader dirty (pm_reader base)) affected sc)"

lemma scratch_for_config:
  "scratch_for base r aff sc \<Longrightarrow> same_config sc sc' \<Longrightarrow> pm_reader sc' = pm_reader sc \<Longrightarrow> scratch_for base r aff sc'"
  by (auto simp: scratch_for_def same_config_def dex_of_def)

lemma scratch_for_base: "same_config base base' \<Longrightarrow> scratch_for base' r aff sc \<longleftrightarrow> scratch_for base r aff sc"
  by (simp add: scratch_for_def config_cong) (simp add: same_config_def)

definition overlaid :: "(address, hash, hash) nested \<Rightarrow> 'q pool_manager \<Rightarrow> 'q pool_manager" where
  "overlaid dirty base = base\<lparr>pm_reader := overlay_reader dirty (pm_reader base)\<rparr>"

lemma scratch_direct:
  assumes "scratch_for base (overlay_reader dirty (pm_reader base)) aff sc" and "p \<in> set aff"
    and "2 \<le> length (tokens_of base p)"
  shows "direct_quote E sc p amt ti to = direct_quote E (overlaid dirty base) p amt ti to"
  using assms
  by (intro direct_cong_pool) (auto simp: scratch_for_def overlaid_def tokens_of_def dex_of_def)

context pool_env
begin

text \<open>A pool the base has built and no dirty slot touches is the same pool over the dirty slots.\<close>

lemma untouched_direct:
  assumes co: "coherent E base" and q: "fmlookup (pm_pools base) p = Some q" "q \<noteq> zeroQuoter p"
    and clean: "\<And>a k. nget dirty a k \<noteq> None \<Longrightarrow> p \<notin> set (deps_at base a k)"
  shows "direct_quote E base p amt ti to = direct_quote E (overlaid dirty base) p amt ti to"
proof -
  have "held E base p q" using co q by (simp add: coherent_def)
  with q obtain fid built l where b: "GetFormulaID E p = Some fid" "0 \<le> fid"
    "construct E p fid base = (Some built, l)" "q = wrap E p (tokens_of base p) built"
    "\<forall>(a, k)\<in>set l. p \<in> set (deps_at base a k)" by (auto simp: held_def)
  have "construct E p fid (overlaid dirty base) = construct E p fid base"
    unfolding overlaid_def
  proof (rule construct_tracking)
    fix a k assume "(a, k) \<in> set (snd (construct E p fid base))"
    with b have "p \<in> set (deps_at base a k)" by auto
    with clean have "nget dirty a k = None" by blast
    then show "overlay_reader dirty (pm_reader base) a k = pm_reader base a k" by (simp add: overlay_reader_def)
  qed
  moreover have "tokens_of (overlaid dirty base) p = tokens_of base p" by (simp add: overlaid_def tokens_of_def)
  ultimately have "fresh_quoter E (overlaid dirty base) p = fresh_quoter E base p"
    using b by (simp add: fresh_quoter_def)
  then show ?thesis by (simp add: direct_quote_def capped_def overlaid_def)
qed

lemma ol_Quote_ok:
  assumes "overlay_ok E base dirty aff o'"
  shows "\<exists>out o''. ol_Quote E p amt ti to o' = Some (out, o'') \<and> overlay_ok E base dirty aff o''"
    and "p \<notin> set aff \<Longrightarrow> fmlookup (pm_pools base) p = Some q \<Longrightarrow> q \<noteq> zeroQuoter p \<Longrightarrow>
      \<exists>o''. ol_Quote E p amt ti to o' = Some (direct_quote E base p amt ti to, o'')"
    and "p \<in> set aff \<Longrightarrow> 2 \<le> length (tokens_of base p) \<Longrightarrow>
      \<exists>o''. ol_Quote E p amt ti to o' = Some (direct_quote E (overlaid dirty base) p amt ti to, o'')"
proof -
  let ?r = "overlay_reader dirty (pm_reader base)"
  note ok = assms [unfolded overlay_ok_def]
  have unaff: "\<exists>out b. pm_Quote E p amt ti to (ol_base o') = Some (out, b)
      \<and> ol_Quote E p amt ti to o' = Some (out, o'\<lparr>ol_base := b\<rparr>) \<and> overlay_ok E base dirty aff (o'\<lparr>ol_base := b\<rparr>)"
    if "p \<notin> set aff"
  proof -
    have co: "coherent E (ol_base o')" using ok managed_coherent by blast
    from pm_Quote_spec [OF co, of p amt ti to] obtain out b where
      b: "pm_Quote E p amt ti to (ol_base o') = Some (out, b)" "same_config (ol_base o') b" "pm_reader b = pm_reader (ol_base o')"
      by blast
    have "managed E b" using ok b(1) managed_quote by blast
    then have "overlay_ok E base dirty aff (o'\<lparr>ol_base := b\<rparr>)"
      using ok b pm_Quote_keeps_pool [OF b(1)] same_config_trans by (simp add: overlay_ok_def) blast
    then show ?thesis using b(1) that ok by (simp add: ol_Quote_def)
  qed
  have aff: "\<exists>sc o''. exact E sc \<and> coherent E sc \<and> scratch_for base ?r aff sc
      \<and> ol_Quote E p amt ti to o' = Some (direct_quote E sc p amt ti to, o'') \<and> overlay_ok E base dirty aff o''"
    if "p \<in> set aff"
  proof -
    obtain sc where e: "ensureScratch E o' = o'\<lparr>ol_scratchPM := Some sc\<rparr>" and
      sc: "coherent E sc" "exact E sc" "scratch_for base ?r aff sc"
    proof (cases "ol_scratchPM o'")
      case None
      from ensureScratch_new [OF None, of E] ok that show ?thesis
        using scratch_for_base [of base "ol_base o'"] by auto
    next
      case (Some sc)
      then have "ensureScratch E o' = o'\<lparr>ol_scratchPM := Some sc\<rparr>" by (simp add: ensureScratch_def)
      with Some ok show ?thesis using that by blast
    qed
    from exact_quote [OF sc(1,2), of p amt ti to] obtain sc' where
      q: "pm_Quote E p amt ti to sc = Some (direct_quote E sc p amt ti to, sc')"
      and s: "coherent E sc'" "exact E sc'" "same_config sc sc'" "pm_reader sc' = pm_reader sc" by blast
    have "overlay_ok E base dirty aff (o'\<lparr>ol_scratchPM := Some sc'\<rparr>)"
      using ok s scratch_for_config [OF sc(3) s(3,4)] by (simp add: overlay_ok_def)
    moreover have "ol_Quote E p amt ti to o' = Some (direct_quote E sc p amt ti to, o'\<lparr>ol_scratchPM := Some sc'\<rparr>)"
      using that ok e q by (simp add: ol_Quote_def)
    ultimately show ?thesis using sc by blast
  qed
  show "\<exists>out o''. ol_Quote E p amt ti to o' = Some (out, o'') \<and> overlay_ok E base dirty aff o''"
    using unaff aff by blast
  show "\<exists>o''. ol_Quote E p amt ti to o' = Some (direct_quote E base p amt ti to, o'')"
    if "p \<notin> set aff" "fmlookup (pm_pools base) p = Some q" "q \<noteq> zeroQuoter p"
  proof -
    have "managed E (ol_base o')" "fmlookup (pm_pools (ol_base o')) p \<noteq> Some (zeroQuoter p)"
      using ok that by auto
    from managed_quote_fresh [OF this, of amt ti to] unaff [OF that(1)] obtain o'' where
      "ol_Quote E p amt ti to o' = Some (direct_quote E (ol_base o') p amt ti to, o'')" by force
    moreover have "direct_quote E (ol_base o') p amt ti to = direct_quote E base p amt ti to"
      using ok by (intro direct_cong) auto
    ultimately show ?thesis by simp
  qed
  show "\<exists>o''. ol_Quote E p amt ti to o' = Some (direct_quote E (overlaid dirty base) p amt ti to, o'')"
    if "p \<in> set aff" "2 \<le> length (tokens_of base p)"
    using aff [OF that(1)] scratch_direct [OF _ that, of dirty] by metis
qed

end

text \<open>Sequences of quotes on an overlay.\<close>

type_synonym quote_request = "address \<times> u256 \<times> address \<times> address"

definition ol_quotes :: "'q env \<Rightarrow> quote_request list \<Rightarrow> 'q pm_overlay \<Rightarrow> 'q pm_overlay option" where
  "ol_quotes E = foldo (\<lambda>(p, amt, ti, to) o'. map_option snd (ol_Quote E p amt ti to o'))"

lemma affected_iff:
  assumes "\<And>a k. (a, k) \<in> set order \<longleftrightarrow> nget dirty a k \<noteq> None"
  shows "p \<in> set (ol_affectedPools (NewPoolManagerOverlay order base dirty)) \<longleftrightarrow>
    (\<exists>a k. nget dirty a k \<noteq> None \<and> p \<in> set (deps_at base a k))"
  unfolding deps_at_def assms [symmetric] by (auto simp: NewPoolManagerOverlay_def)

context pool_env
begin

lemma ol_quotes_ok: "overlay_ok E base dirty aff o' \<Longrightarrow> \<exists>o''. ol_quotes E qs o' = Some o'' \<and> overlay_ok E base dirty aff o''"
  unfolding ol_quotes_def
proof (rule foldo_total)
  fix x :: quote_request and o1
  assume "overlay_ok E base dirty aff o1"
  moreover obtain p amt ti to where "x = (p, amt, ti, to)" by (cases x) auto
  ultimately show "\<exists>s'. (case x of (p, amt, ti, to) \<Rightarrow> \<lambda>o'. map_option snd (ol_Quote E p amt ti to o')) o1 = Some s'
      \<and> overlay_ok E base dirty aff s'"
    using ol_Quote_ok(1) [of base dirty aff o1 p amt ti to] by auto
qed simp

lemma overlay_quotes_dirty_state:
  assumes m: "managed E base" and order: "\<And>a k. (a, k) \<in> set order \<longleftrightarrow> nget dirty a k \<noteq> None"
    and q: "fmlookup (pm_pools base) p = Some q" "q \<noteq> zeroQuoter p" and t: "2 \<le> length (tokens_of base p)"
  shows "\<exists>o1 o2. ol_quotes E qs (NewPoolManagerOverlay order base dirty) = Some o1
    \<and> ol_Quote E p amt ti to o1 = Some (direct_quote E (overlaid dirty base) p amt ti to, o2)"
proof -
  let ?o = "NewPoolManagerOverlay order base dirty"
  have "overlay_ok E base dirty (ol_affectedPools ?o) ?o"
    using m by (simp add: overlay_ok_def NewPoolManagerOverlay_def)
  from ol_quotes_ok [OF this, of qs] obtain o1 where
    o1: "ol_quotes E qs ?o = Some o1" "overlay_ok E base dirty (ol_affectedPools ?o) o1" by blast
  show ?thesis
  proof (cases "p \<in> set (ol_affectedPools ?o)")
    case True
    with ol_Quote_ok(3) [OF o1(2) True t, of amt ti to] o1(1) show ?thesis by blast
  next
    case False
    have "p \<notin> set (deps_at base a k)" if "nget dirty a k \<noteq> None" for a k
      using False that unfolding affected_iff [OF order] by blast
    then have "direct_quote E base p amt ti to = direct_quote E (overlaid dirty base) p amt ti to"
      by (rule untouched_direct [OF managed_coherent [OF m] q])
    with ol_Quote_ok(2) [OF o1(2) False q, of amt ti to] o1(1) show ?thesis by auto
  qed
qed

end

text \<open>A pool the base has not built is quoted from the base, whatever slots are dirty.\<close>

lemma overlay_ignores_unbuilt:
  assumes "\<And>a k. p \<notin> set (deps_at base a k)"
  shows "ol_Quote E p amt ti to (NewPoolManagerOverlay order base dirty) =
    map_option (\<lambda>(out, b). (out, (NewPoolManagerOverlay order base dirty)\<lparr>ol_base := b\<rparr>)) (pm_Quote E p amt ti to base)"
proof -
  have "p \<notin> set (ol_affectedPools (NewPoolManagerOverlay order base dirty))"
    using assms by (auto simp: NewPoolManagerOverlay_def deps_at_def)
  moreover have "ol_base (NewPoolManagerOverlay order base dirty) = base" by (simp add: NewPoolManagerOverlay_def)
  ultimately show ?thesis
    by (cases "pm_Quote E p amt ti to base") (auto simp: ol_Quote_def)
qed

end
