(* ===== verification/Spec2Isabelle.thy ===== *)
theory Spec2Isabelle
  imports V3_Lossless V2_Pool V4_Pool Slot_Keys Bfs Evm_Context Split_Market Server_Client Pool_Overlay
begin

text \<open>
  Header to be completed.
\<close>

section \<open>Quotes of concentrated-liquidity pools\<close>

text \<open>
  C1 Pre-computation is lossless: for every amount and direction, the quote of a pool with its
  pre-computed tick crossings equals the quote of the same pool without them, provided no crossing was
  recorded at the two extreme ticks and the liquidity met on the walk stays below \<open>2\<^sup>1\<^sup>2\<^sup>8\<close>.
\<close>

theorem v3_precompute_lossless:
  assumes "muldiv_lib md" and "v3_pool_ok p"
    and "preStepsDown p = Map.empty" and "preStepsUp p = Map.empty"
    and "preStepsDown (precomputeSteps md p) algebraMinTick = None"
    and "preStepsUp (precomputeSteps md p) algebraMaxTick = None"
    and "\<And>z w. walk_reach p z w \<Longrightarrow> uint (w_liq w) < 2 ^ 128"
  shows "v3_Quote md (precomputeSteps md p) x a b = v3_Quote md p x a b"
  using assms by (rule precompute_lossless)

definition pool_at_5 :: v3_pool where
  "pool_at_5 = (empty_v3_pool 7 3000 60)\<lparr>v3_tick := 5, v3_sqrtPriceX96 := getSqrtRatioAtTickU256Compute 5,
     v3_liquidity := 10 ^ 20, bitmapMinWord := - 1, bitmapMaxWord := 0\<rparr>"

lemma pool_at_5_fields:
  "tickSpacing pool_at_5 = 60" "bitmapWords pool_at_5 = Map.empty" "bitmapMinWord pool_at_5 = - 1"
  "bitmapMaxWord pool_at_5 = 0" "v3_tick pool_at_5 = 5"  "v3_liquidity pool_at_5 = 10 ^ 20"
  by (simp_all add: pool_at_5_def empty_v3_pool_def)
lemma pool_at_5_position: "v3Position 0 = (0, 0)" "v3Position (- 1) = (- 1, 255)" "v3Position (-257) = (- 2, 255)"
   "v3Position 1 = (0, 1)" "v3Position 256 = (1, 0)"
  by (simp_all add: v3Position_def to_int16_def Let_def drop_bit_eq_div)
lemma pool_at_5_floor: "v3FloorDiv 5 60 = 0" "v3FloorDiv (-1) 60 = -1" "v3FloorDiv (-15361) 60 = -257" "v3FloorDiv 15300 60 = 255"
  by (simp_all add: v3FloorDiv_div)
lemma pool_at_5_next:
  "v3_nextInitializedTick pool_at_5 5 True = (0, False, False)"
  "v3_nextInitializedTick pool_at_5 (- 1) True = (- 15360, False, False)"
  "v3_nextInitializedTick pool_at_5 (- 15361) True = (0, False, True)"
  "v3_nextInitializedTick pool_at_5 5 False = (15300, False, False)"
  "v3_nextInitializedTick pool_at_5 15300 False = (0, False, True)"
  by (simp_all add: v3_nextInitializedTick_def pool_at_5_fields pool_at_5_position pool_at_5_floor get0_def to_int32_def)

lemma pool_at_5_walk: "walk_reach pool_at_5 z w \<Longrightarrow> w_liq w = 10 ^ 20"
proof (induction rule: walk_reach.induct)
  case start
  show ?case by (simp add: walk_start_def pool_at_5_def)
next
  case (step w nx ini)
  have "bitmapWords pool_at_5 = Map.empty" by (simp add: pool_at_5_def empty_v3_pool_def)
  then have "\<not> ini" using step.hyps(2)
    by (auto simp: v3_nextInitializedTick_def Let_def get0_def split: if_splits prod.splits)
  then show ?case using step.IH by (simp add: walk_next_def cross_liquidity_def)
qed

lemma pool_at_5_ok: "v3_pool_ok pool_at_5"
  using sqrtRatio_strict_mono [of 5 6]
  by (simp add: v3_pool_ok_def pool_at_5_def empty_v3_pool_def spacing_ok_def algebraMinTick_def algebraMaxTick_def)

lemma pre_loop_numeral:
  "pre_loop md p z (numeral k) w steps =
     (case v3_nextInitializedTick p (w_tick w) z of (next, initialized, outOfRange) \<Rightarrow>
        if outOfRange then steps
        else
          let nextTick = clamp_tick next;
              sqrtPriceNext = getSqrtRatioAtTickU256Compute nextTick;
              steps' = (if \<not> initialized \<and> w_liq w \<noteq> 0
                        then steps(nextTick \<mapsto> make_prestep md p z (w_price w) sqrtPriceNext (w_liq w))
                        else steps)
          in pre_loop md p z (pred_numeral k) (walk_next p z w nextTick initialized) steps')"
  by (simp add: numeral_eq_Suc)

lemma pool_at_5_ends:
  "preStepsDown (precomputeSteps md pool_at_5) algebraMinTick = None"
  "preStepsUp (precomputeSteps md pool_at_5) algebraMaxTick = None"
  by (simp_all add: precomputeSteps_def pre_loop_numeral pool_at_5_next pool_at_5_fields walk_start_def walk_next_def
    cross_liquidity_def clamp_tick_def algebraMinTick_def algebraMaxTick_def Let_def)
    (simp_all add: pool_at_5_def empty_v3_pool_def)

theorem v3_precompute_lossless_witness:
  "v3_Quote muldiv_full (precomputeSteps muldiv_full pool_at_5) 1000 1 2 = v3_Quote muldiv_full pool_at_5 1000 1 2"
  by (rule v3_precompute_lossless)
    (simp_all add: full.muldiv_lib_axioms pool_at_5_ok pool_at_5_ends pool_at_5_walk,
     simp_all add: pool_at_5_def empty_v3_pool_def)

text \<open>
  The tick that a partial step recomputes from the price is never used: the quote does not depend on
  the function that computes it.
\<close>

theorem v3_quote_ignores_tick_of_price:
  "v3_Quote_with tickOf md p x a b = v3_Quote md p x a b"
  by (rule v3_Quote_tickOf)

text \<open>
  That function is wrong: the price \<open>2\<^sup>9\<^sup>6\<close>, the square root of the price 1, gets the tick
  \<open>-443636\<close>, though the table gives \<open>2\<^sup>9\<^sup>6\<close> for tick 0.
\<close>

theorem tick_of_price_one_is_wrong:
  "fst (getTickAtSqrtRatioU256 Map.empty (2 ^ 96)) = - 443636 \<and> getSqrtRatioAtTick 0 = Some (2 ^ 96)"
  using getTickAtSqrtRatioU256_q96 [OF sqrt_cache_empty_ok] sqrt_ratio_zero by simp

text \<open>
  The search for the next initialized tick towards lower ticks: when the word is loaded, the result is
  a multiple of the spacing at or below the current tick, no tick strictly between is set, and the flag says
  whether the result is set.
\<close>

theorem v3_next_tick_down:
  assumes "0 < tickSpacing p" and "tickSpacing p \<le> 2 ^ 20" and "- (2 ^ 20) < t" and "t < 2 ^ 20"
    and "v3_nextInitializedTick p t True = (nx, ini, False)"
  shows "\<exists>c. nx = c * tickSpacing p \<and> c \<le> t div tickSpacing p \<and> t div tickSpacing p - 255 \<le> c
    \<and> ini = tick_set p c \<and> (\<forall>d. c < d \<and> d \<le> t div tickSpacing p \<longrightarrow> \<not> tick_set p d)"
  using next_down [OF assms] by blast

theorem v3_next_tick_down_witness:
  "\<exists>c. (0 :: int) = c * tickSpacing pool_at_5 \<and> c \<le> 5 div tickSpacing pool_at_5
    \<and> 5 div tickSpacing pool_at_5 - 255 \<le> c
    \<and> False = tick_set pool_at_5 c \<and> (\<forall>d. c < d \<and> d \<le> 5 div tickSpacing pool_at_5 \<longrightarrow> \<not> tick_set pool_at_5 d)"
proof -
  have "0 < tickSpacing pool_at_5" "tickSpacing pool_at_5 \<le> 2 ^ 20" by (simp_all add: pool_at_5_fields)
  moreover have "- (2 ^ 20) < (5 :: int)" "(5 :: int) < 2 ^ 20" by simp_all
  ultimately show ?thesis using pool_at_5_next(1) by (rule v3_next_tick_down [of pool_at_5 5 0 False])
qed

section \<open>Tick and swap mathematics\<close>

text \<open>
  C2 The 256-bit tick table refines the one on unbounded integers: for every tick no intermediate value
  wraps and the two results are the same number.
\<close>

theorem sqrt_ratio_words_refine:
  "getSqrtRatioAtTick t = Some (uint (getSqrtRatioAtTickU256Compute t))"
  by (rule getSqrtRatioAtTickU256Compute_refines)

text \<open>C3 The square-root price grows strictly with the tick over the whole 20-bit range.\<close>

theorem sqrt_ratio_strictly_increasing:
  assumes "- (2 ^ 20) < t" and "t < u" and "u < 2 ^ 20"
  shows "getSqrtRatioAtTickU256Compute t < getSqrtRatioAtTickU256Compute u"
  using assms by (rule sqrtRatio_strict_mono)

theorem sqrt_ratio_strictly_increasing_witness:
  "getSqrtRatioAtTickU256Compute (- 887272) < getSqrtRatioAtTickU256Compute 887272"
  by (rule sqrt_ratio_strictly_increasing) simp_all

text \<open>The cache of square-root prices never changes an answer and stays correct.\<close>

theorem sqrt_ratio_cache_transparent:
  assumes "sqrt_cache_ok cache"
  shows "fst (getSqrtRatioAtTickU256 cache t) = getSqrtRatioAtTickU256Compute t
    \<and> sqrt_cache_ok (snd (getSqrtRatioAtTickU256 cache t))"
  using getSqrtRatioAtTickU256_cached [OF assms] by simp

theorem sqrt_ratio_cache_transparent_witness:
  "fst (getSqrtRatioAtTickU256 Map.empty 60) = getSqrtRatioAtTickU256Compute 60
    \<and> sqrt_cache_ok (snd (getSqrtRatioAtTickU256 Map.empty 60))"
  by (rule sqrt_ratio_cache_transparent) (rule sqrt_cache_empty_ok)

text \<open>
  C4 The 256-bit amount deltas refine the unbounded ones, rounding included, for 128-bit liquidity and
  160-bit prices; rounding up, the product of liquidity and price difference must fit 160 bits, beyond
  which the wrapped remainder may lose the rounding.
\<close>

theorem amount_deltas_refine:
  assumes "muldiv_lib md" and "uint l < 2 ^ 128" and "uint a < 2 ^ 160" and "uint b < 2 ^ 160"
    and "a \<noteq> 0" and "b \<noteq> 0" and "up \<Longrightarrow> uint l * \<bar>uint b - uint a\<bar> < 2 ^ 160"
  shows "sGetAmount0Delta (uint a) (uint b) (uint l) up = Some (uint (sGetAmount0DeltaU256 md a b l up))
    \<and> sGetAmount1Delta (uint a) (uint b) (uint l) up = Some (uint (sGetAmount1DeltaU256 md a b l up))"
  using sGetAmount0DeltaU256_refines [of md l a b up] sGetAmount1DeltaU256_refines [of md l a b up] assms by simp

theorem amount_deltas_refine_witness:
  "sGetAmount0Delta (uint (2 ^ 96 :: u256)) (uint (2 ^ 97 :: u256)) (uint (10 ^ 18 :: u256)) True
      = Some (uint (sGetAmount0DeltaU256 muldiv_full (2 ^ 96) (2 ^ 97) (10 ^ 18) True))
    \<and> sGetAmount1Delta (uint (2 ^ 96 :: u256)) (uint (2 ^ 97 :: u256)) (uint (10 ^ 18 :: u256)) True
      = Some (uint (sGetAmount1DeltaU256 muldiv_full (2 ^ 96) (2 ^ 97) (10 ^ 18) True))"
  by (rule amount_deltas_refine) (simp_all add: full.muldiv_lib_axioms)


lemma witness_amount_in: "amount_in_to muldiv_full (2 ^ 96) (2 ^ 97) (2 ^ 20) False = 2 ^ 20"
  by (simp add: amount_in_to_def sGetAmount1DeltaU256_def mulDivRoundingUpU256_def mulDivU256_def u256_mod_def
    muldiv_full_def u256Q96_def push_bit_eq_mult)


text \<open>
  A step that stops short of its target has used up the remaining input: nothing is left after the
  amount and the fee are taken.
\<close>

theorem swap_step_partial_uses_all:
  assumes "computeSwapStepU256 md cur tgt liq R f = (next, ain, aout, fee)" and "next \<noteq> tgt"
  shows "R - ain - fee = 0"
  using assms by (rule computeSwapStepU256_partial)

theorem swap_step_partial_uses_all_witness:
  "\<exists>nx ain aout fee. computeSwapStepU256 muldiv_full (2 ^ 96) (2 ^ 97) (2 ^ 20) 1000 3000 = (nx, ain, aout, fee)
    \<and> nx \<noteq> 2 ^ 97 \<and> 1000 - ain - fee = 0"
proof -
  obtain nx ain aout fee where
    s: "computeSwapStepU256 muldiv_full (2 ^ 96) (2 ^ 97) (2 ^ 20) 1000 3000 = (nx, ain, aout, fee)"
    by (metis prod_cases4)
  have "nx \<noteq> 2 ^ 97"
    using s witness_amount_in
    by (auto simp: computeSwapStepU256_def Let_def v3GetNextPriceFromInputU256_def mulDivU256_def
      sGetNextSqrtPriceFromInputU256_def u256Q96_def
      muldiv_full_def fee_complement_def push_bit_eq_mult)
  then show ?thesis using s swap_step_partial_uses_all [OF s] by blast
qed

text \<open>
  C6 The fused multiply-divide rounds up from the remainder of the wrapped product: its result is the
  quotient plus one exactly when the denominator does not divide the product modulo \<open>2\<^sup>2\<^sup>5\<^sup>6\<close>, which is the
  ceiling of the exact quotient only when the two remainders vanish together.
\<close>

theorem rounding_up_uses_wrapped_remainder:
  assumes "muldiv_lib md" and "d \<noteq> 0" and "uint a * uint b div uint d + 1 < 2 ^ 256"
  shows "uint (mulDivRoundingUpU256 md a b d) = uint a * uint b div uint d
      + (if uint d dvd uint a * uint b mod 2 ^ 256 then 0 else 1)
    \<and> (uint (mulDivRoundingUpU256 md a b d) = ceil_div (uint a * uint b) (uint d)
        \<longleftrightarrow> (uint d dvd uint a * uint b \<longleftrightarrow> uint d dvd uint a * uint b mod 2 ^ 256))"
proof -
  have d: "0 < uint d" using assms(2) by (simp add: uint_pos_iff)
  have "ceil_div (uint a * uint b) (uint d) < 2 ^ 256"
    using ceil_div_bounds(2) [OF d, of "uint a * uint b"] assms(3) by linarith
  then have v: "uint (mulDivRoundingUpU256 md a b d) = uint a * uint b div uint d
      + (if uint d dvd uint a * uint b mod 2 ^ 256 then 0 else 1)"
    using assms by (intro mulDivRoundingUpU256_uint) auto
  moreover have "ceil_div (uint a * uint b) (uint d)
      = uint a * uint b div uint d + (if uint d dvd uint a * uint b then 0 else 1)"
    using d by (auto simp: ceil_div_def neg_div_ceil)
  ultimately show ?thesis by auto
qed

theorem rounding_up_uses_wrapped_remainder_witness:
  "uint (mulDivRoundingUpU256 muldiv_full (2 ^ 255) 4 (2 ^ 200 + 2 ^ 199)) = 2 ^ 257 div (2 ^ 200 + 2 ^ 199)
    \<and> ceil_div (2 ^ 257) (2 ^ 200 + 2 ^ 199) = 2 ^ 257 div (2 ^ 200 + 2 ^ 199) + (1 :: int)"
  using rounding_up_uses_wrapped_remainder [of muldiv_full "2 ^ 200 + 2 ^ 199" "2 ^ 255" 4]
  by (simp add: full.muldiv_lib_axioms ceil_div_def)

section \<open>Constant-product pools\<close>

text \<open>
  C7 A constant-product quote is safe: for inputs below \<open>2\<^sup>1\<^sup>2\<^sup>8\<close> it pays out less than the reserve, and the
  product of the reserves, with the fee left in the pool, does not fall.
\<close>

theorem v2_quote_keeps_product:
  assumes "v2_ok p" and "uint x < 2 ^ 128"
  shows "uint (v2_Quote p x a b) < v2_out p a b
    \<and> v2_in p a b * 10000 * v2_out p a b
      \<le> (v2_in p a b * 10000 + uint x * v2_fee p) * (v2_out p a b - uint (v2_Quote p x a b))"
  using v2_Quote_safe [OF assms] by simp

definition pool_1000_2000 :: v2_pool where
  "pool_1000_2000 = \<lparr>v2_addr = 7, reserve0 = 1000, reserve1 = 2000, factor = Some v2_factor,
     balance0 = 0, balance1 = 0, deadDir0 = False, deadDir1 = False\<rparr>"

lemma pool_1000_2000_ok: "v2_ok pool_1000_2000"
  by (simp add: pool_1000_2000_def v2_ok_def v2_factor_def)

theorem v2_quote_keeps_product_witness:
  "uint (v2_Quote pool_1000_2000 100 1 2) < v2_out pool_1000_2000 1 2
    \<and> v2_in pool_1000_2000 1 2 * 10000 * v2_out pool_1000_2000 1 2
      \<le> (v2_in pool_1000_2000 1 2 * 10000 + uint (100 :: u256) * v2_fee pool_1000_2000)
          * (v2_out pool_1000_2000 1 2 - uint (v2_Quote pool_1000_2000 100 1 2))"
  by (rule v2_quote_keeps_product) (simp_all add: pool_1000_2000_ok)

text \<open>
  Without a recorded output balance the quote grows with the input; a recorded balance may cut a
  quote that exceeds it to zero.
\<close>

theorem v2_quote_monotone:
  assumes "v2_ok p" and "v2_bal p a b = 0" and "x \<le> y" and "uint y < 2 ^ 128"
  shows "v2_Quote p x a b \<le> v2_Quote p y a b"
proof -
  have x: "uint x \<le> uint y" using assms(3) by (simp add: word_le_def)
  note b = v2_ok_bounds [OF assms(1), of a b] v2_ok_fee [OF assms(1)]
  have "v2_amount_out (uint x) (v2_fee p) (v2_in p a b) (v2_out p a b)
      \<le> v2_amount_out (uint y) (v2_fee p) (v2_in p a b) (v2_out p a b)"
    using x b by (intro v2_amount_out_mono) simp_all
  then show ?thesis
    using v2_Quote_uint [OF assms(1), of x a b] v2_Quote_uint [OF assms(1), of y a b] assms(2,4) x
    by (simp add: word_le_def Let_def)
qed

theorem v2_quote_monotone_witness: "v2_Quote pool_1000_2000 100 1 2 \<le> v2_Quote pool_1000_2000 200 1 2"
  by (rule v2_quote_monotone) (simp_all add: pool_1000_2000_ok v2_bal_def, simp_all add: pool_1000_2000_def)

text \<open>
  C8 Whatever the storage holds, every pool the constructors return is well formed: reserves non-zero
  and below \<open>2\<^sup>1\<^sup>1\<^sup>2\<close>, fee factor at most 10000; later adjustments for dead directions and token balances keep
  this.
\<close>

theorem v2_constructors_well_formed:
  "(\<forall>p. newV2Pool a rd = Some p \<or> newFraxswapPool a rd = Some p \<longrightarrow>
      v2_ok (SetTokenBalances (SetDeadDirs p t0 t1) c t0 t1))"
  using newV2Pool_ok newFraxswapPool_ok SetDeadDirs_ok SetTokenBalances_ok by blast

theorem v2_constructors_well_formed_witness:
  "v2_ok (SetTokenBalances (SetDeadDirs pool_1000_2000 1 2) None 1 2)"
proof -
  let ?rd = "(\<lambda>_ _. 2 ^ 112 * 2000 + 1000) :: storage_reader"
  have "newV2Pool 7 ?rd = Some pool_1000_2000"
    by (simp add: newV2Pool_def newV2PoolWithSlot_def Let_def hash_slice_def pool_1000_2000_def
      take_bit_eq_mod drop_bit_eq_div)
  then show ?thesis using v2_constructors_well_formed [of 7 ?rd 1 2 None] by blast
qed

section \<open>Storage keys of ticks and bitmap words\<close>

text \<open>
  C9 Reading the slots of one mapping through the cache gives the Keccak hash of the key, for every 64-bit
  key, and leaves the cache correct.
\<close>

theorem slot_cache_correct_for_one_mapping:
  assumes "slot_cache_ok keccak {s} cache" and "- (2 ^ 63) \<le> key" and "key < 2 ^ 63"
  shows "fst (cachedKeccakSlotBytes keccak cache key s) = keccak (slot_preimage key s)
    \<and> slot_cache_ok keccak {s} (snd (cachedKeccakSlotBytes keccak cache key s))"
  using cachedKeccakSlotBytes_correct [OF assms(1) fast_keys_single _ assms(2,3)] by simp

theorem slot_cache_correct_for_one_mapping_witness:
  "fst (cachedKeccakSlotBytes (\<lambda>bs. be_word bs) Map.empty (- 60) 5) = be_word (slot_preimage (- 60) 5)
    \<and> slot_cache_ok (\<lambda>bs. be_word bs) {5} (snd (cachedKeccakSlotBytes (\<lambda>bs. be_word bs) Map.empty (- 60) 5))"
  by (rule slot_cache_correct_for_one_mapping) (simp_all add: slot_cache_ok_def)

text \<open>
  Across mappings the cache is not collision-free: two mapping slots that agree in their last eight
  bytes share cache entries, so the second mapping is answered with the first one's hash.
\<close>

theorem slot_cache_confuses_mappings:
  assumes "uint s mod 2 ^ 64 = uint s' mod 2 ^ 64" and "cachedKeccakSlotBytes keccak Map.empty key s = (v, cache)"
  shows "fst (cachedKeccakSlotBytes keccak cache key s') = keccak (slot_preimage key s)"
  using assms by (rule cached_key_of_other_mapping)

theorem slot_cache_confuses_mappings_witness:
  "fst (cachedKeccakSlotBytes be_word (snd (cachedKeccakSlotBytes be_word Map.empty 1 5)) 1 (5 + 2 ^ 64))
    = be_word (slot_preimage 1 5)"
proof -
  obtain v cache where c: "cachedKeccakSlotBytes be_word Map.empty 1 5 = (v, cache)" by force
  show ?thesis using slot_cache_confuses_mappings [OF _ c, of "5 + 2 ^ 64"] c by simp
qed

text \<open>
  A well-formed line is read back field by field: address, exchange, type and tokens, with the last
  field that starts with \<open>@\<close> as extra data.
\<close>

theorem pool_line_round_trip:
  assumes "\<forall>p \<in> set (a # d # ty # blk # rest). CHR '':'' \<notin> set p"
    and "trim_space (join_with CHR '':'' (a # d # ty # blk # rest)) = join_with CHR '':'' (a # d # ty # blk # rest)"
    and "2 \<le> length rest" and "atoi ty = Some n"
    and "tokens = map hex (filter (\<lambda>p. take 1 p \<noteq> ''@'' \<and> length p = 42 \<and> take 2 p = ''0x'') rest)"
    and "2 \<le> length tokens"
  shows "parse_line hex (join_with CHR '':'' (a # d # ty # blk # rest)) =
    Some \<lparr>p_address = hex a, p_dex = d, p_type = n, p_tokens = tokens,
          p_extra = fold (\<lambda>p e. if take 1 p = ''@'' then drop 1 p else e) rest []\<rparr>"
  using assms by (rule parse_line_fields)

definition token_text :: "char \<Rightarrow> string" where
  "token_text c = ''0x'' @ replicate 40 c"

lemma token_text_eval:
  "token_text c = [CHR ''0'', CHR ''x'', c, c, c, c, c, c, c, c, c, c, c, c, c, c, c, c, c, c, c, c,
     c, c, c, c, c, c, c, c, c, c, c, c, c, c, c, c, c, c, c, c]"
  by (simp add: token_text_def numeral_eq_Suc)

theorem pool_line_round_trip_witness:
  "parse_line (\<lambda>s. of_nat (length s)) (join_with CHR '':'' (''0xaa'' # ''uniswap'' # ''12'' # ''99'' #
      [token_text CHR ''1'', token_text CHR ''2'', ''@fee=3''])) =
    Some \<lparr>p_address = 4, p_dex = ''uniswap'', p_type = 12, p_tokens = [42, 42], p_extra = ''fee=3''\<rparr>"
  using pool_line_round_trip [of "''0xaa''" "''uniswap''" "''12''" "''99''"
      "[token_text CHR ''1'', token_text CHR ''2'', ''@fee=3'']" 12 "[42, 42]" "\<lambda>s. of_nat (length s)"]
  by (simp add: token_text_eval atoi_def trim_space_def is_space_def digit_val_def Let_def of_char_def)


section \<open>Merging routes\<close>

text \<open>
  C10 Merging conserves volume: the amounts the merged calls introduce add up to the volumes of the legs
  that have steps.
\<close>

theorem merge_conserves_volume:
  assumes "MergeRoutes rs = Some calls"
  shows "calls_volume calls = legs_volume rs"
  using assms by (rule MergeRoutes_volume)

definition w_hop :: "nat \<Rightarrow> nat \<Rightarrow> nat \<Rightarrow> route_step" where
  "w_hop p a b = \<lparr>rs_pool = of_nat p, rs_type = 0, rs_in = of_nat a, rs_out = of_nat b, rs_extra = ''''\<rparr>"

definition two_legs :: "squish_route list" where
  "two_legs = [\<lparr>sr_steps = [w_hop 1 10 11, w_hop 2 11 12], sr_volume = 70\<rparr>,
               \<lparr>sr_steps = [w_hop 3 10 11, w_hop 2 11 12], sr_volume = 30\<rparr>]"

lemma two_legs_merged: "MergeRoutes two_legs = Some [(w_hop 1 10 11, 70), (w_hop 3 10 11, 30), (w_hop 2 11 12, 0)]"
proof -
  have "build_trie two_legs = [Node (w_hop 2 11 12) [Node (w_hop 1 10 11) [] [70], Node (w_hop 3 10 11) [] [30]] []]"
    by (simp add: build_trie_def two_legs_def stepMergeKey_def w_hop_def)
  moreover have "collapse_pair [(w_hop 1 10 11, 70), (w_hop 3 10 11, 30), (w_hop 2 11 12, 0)] = None"
    by (simp add: collapse_pair_def upt_rec stepMergeKey_def w_hop_def)
  ultimately show ?thesis
    by (simp add: MergeRoutes_def mergeRoutesInner_def two_legs_def collapseDuplicates_def collapse_loop.simps)
qed

theorem merge_conserves_volume_witness:
  "calls_volume [(w_hop 1 10 11, 70), (w_hop 3 10 11, 30), (w_hop 2 11 12, 0)] = legs_volume two_legs"
  by (rule merge_conserves_volume) (rule two_legs_merged)

text \<open>
  C11 Every merged call is fed: it starts a leg, or it takes a token that an earlier call puts out, when each
  leg is a connected path.
\<close>

theorem merged_calls_are_fed:
  assumes "MergeRoutes rs = Some calls" and "\<forall>r \<in> set rs. leg_joined r"
  shows "fed (first_keys rs) {} (map fst calls)"
  using assms by (rule MergeRoutes_fed)

theorem merged_calls_are_fed_witness:
  "fed (first_keys two_legs) {} (map fst [(w_hop 1 10 11, 70 :: u256), (w_hop 3 10 11, 30), (w_hop 2 11 12, 0)])"
  by (rule merged_calls_are_fed) (rule two_legs_merged, simp add: two_legs_def leg_joined_def w_hop_def)




text \<open>
  A leg that ends inside the suffix of another leg is truncated: of the legs \<open>p q\<close> and \<open>o p q\<close> the
  first loses its last hop, so its volume stops at the intermediate token.
\<close>

theorem merge_truncates_contained_leg:
  assumes "stepMergeKey o1 \<noteq> stepMergeKey p" and "stepMergeKey o1 \<noteq> stepMergeKey q"
    and "stepMergeKey p \<noteq> stepMergeKey q" and "v \<noteq> 0" and "w \<noteq> 0"
  shows "MergeRoutes [\<lparr>sr_steps = [p, q], sr_volume = v\<rparr>, \<lparr>sr_steps = [o1, p, q], sr_volume = w\<rparr>]
    = Some [(o1, w), (p, 0), (q, 0), (p, v)]"
  using assms by (rule MergeRoutes_truncates)

theorem merge_truncates_contained_leg_witness:
  "MergeRoutes [\<lparr>sr_steps = [w_hop 1 10 11, w_hop 2 11 12], sr_volume = 5\<rparr>,
      \<lparr>sr_steps = [w_hop 3 12 10, w_hop 1 10 11, w_hop 2 11 12], sr_volume = 6\<rparr>]
    = Some [(w_hop 3 12 10, 6), (w_hop 1 10 11, 0), (w_hop 2 11 12, 0), (w_hop 1 10 11, 5)]"
  by (rule merge_truncates_contained_leg) (simp_all add: stepMergeKey_def w_hop_def)

section \<open>Calldata\<close>




text \<open>
  C15 The two builders agree: the one for a single input amount writes the bytes of the general one with that
  amount first and zeros after it.
\<close>

theorem swap_builders_agree:
  assumes "poolAddrs \<noteq> []" and "length poolTypes = length poolAddrs"
    and "encode_extras hex poolTypes 0 extraDatas (poolAddrs, replicate (length poolAddrs) []) \<noteq> None"
  shows "EncodeSwapMulti hex poolAddrs poolTypes tokenPairs amountIn extraDatas minOutput
    = encodeSwapRaw hex swapSelector poolAddrs poolTypes tokenPairs (amountIn # replicate (length poolAddrs - 1) 0)
        extraDatas minOutput"
  using encodeSwapMultiInner_raw [OF assms(1,2) _ assms(3), of swapSelector]
  by (simp add: EncodeSwapMulti_def swapSelector_def)

theorem swap_builders_agree_witness:
  "EncodeSwapMulti (\<lambda>_. 0) [7, 8] [0, 1] [10, 11, 11, 12] 500 ['''', ''''] (Some 9)
    = encodeSwapRaw (\<lambda>_. 0) swapSelector [7, 8] [0, 1] [10, 11, 11, 12] (500 # replicate (length [7 :: address, 8] - 1) 0)
        ['''', ''''] (Some 9)"
  by (rule swap_builders_agree) simp_all

section \<open>The search for routes\<close>

text \<open>A small graph with a route of two hops and a direct pool, for the witnesses.\<close>

definition w_pools :: "pool list" where
  "w_pools = map (\<lambda>a. \<lparr>p_address = a, p_dex = ''x'', p_type = 0, p_tokens = [], p_extra = ''''\<rparr>) [7, 8, 9]"

definition w_edge :: "nat \<Rightarrow> address \<Rightarrow> address \<Rightarrow> pool_edge" where
  "w_edge i a b = \<lparr>pe_idx = of_nat i, pe_out = b, pe_in = a\<rparr>"

definition w_adj :: "address \<Rightarrow> pool_edge list" where
  "w_adj t = (if t = 10 then [w_edge 0 10 11, w_edge 2 10 12] else if t = 11 then [w_edge 1 11 12] else [])"

definition w_quote :: quoter where
  "w_quote p a i u = (if p = 9 then 40 else a)"

definition w_evm :: "byte list \<Rightarrow> (byte list \<times> nat) option" where
  "w_evm d = Some (be_bytes 32 50, 21000)"

lemma bfs_layers_numeral:
  "bfs_layers quote adj pools tokenIn tokenOut order hop (numeral k) layer s =
     do {
       s1 \<leftarrow> foldo (bfs_parent quote adj pools tokenIn tokenOut hop) layer (s\<lparr>b_best := []\<rparr>);
       let s2 = bfs_collect tokenIn tokenOut s1;
       let layer' = bfs_frontier (order hop) tokenOut s2;
       if layer' = [] then Some s2
       else bfs_layers quote adj pools tokenIn tokenOut order (hop + 1) (pred_numeral k) layer' s2
     }"
  by (simp add: numeral_eq_Suc)

definition w_nodes :: "bfs_node list" where
  "w_nodes = [\<lparr>n_amount = 100, n_parent = - 1, n_pool = 0, n_in = 0, n_token = 10\<rparr>,
              \<lparr>n_amount = 100, n_parent = 0, n_pool = 0, n_in = 10, n_token = 11\<rparr>,
              \<lparr>n_amount = 40, n_parent = 0, n_pool = 2, n_in = 10, n_token = 12\<rparr>,
              \<lparr>n_amount = 100, n_parent = 1, n_pool = 1, n_in = 11, n_token = 12\<rparr>]"

lemma w_layers:
  "bfs_layers w_quote w_adj w_pools 10 12 (\<lambda>_ ks. ks) 0 4 [0] (bfs_init 10 100) =
     Some \<lparr>b_nodes = w_nodes, b_best = [(12, [(100, 3)])], b_cands = [2, 3], b_quotes = 3\<rparr>"
  by (simp add: bfs_layers_numeral bfs_init_def bfs_parent_def bfs_edge_def bfs_offer_def bfs_push_def bfs_collect_def
    bfs_frontier_def best_of_def w_adj_def w_edge_def w_quote_def w_pools_def w_nodes_def topK_def Let_def)

lemma w_no_panic:
  "adj_in w_pools w_adj \<and> (\<forall>p\<in>set w_pools. encodeV4ExtraData (\<lambda>_. 0) (p_extra p) \<noteq> None)"
proof -
  have "encodeV4ExtraData (\<lambda>_. 0) [] \<noteq> None"
    using encodeV4ExtraData_abi [of "[]" "\<lambda>_. 0"] by (simp add: kv_parts_def scan_big_def scan_nat_def Let_def)
  then show ?thesis by (auto simp: adj_in_def w_adj_def w_edge_def w_pools_def)
qed

lemma bt_loop_unfold:
  "n_parent (nodes ! nat idx) < 0 \<Longrightarrow> bt_loop pools nodes idx acc = Some acc"
  "0 \<le> idx \<Longrightarrow> 0 \<le> n_parent (nodes ! nat idx) \<Longrightarrow> bt_loop pools nodes idx acc
    = bt_loop pools nodes (n_parent (nodes ! nat idx)) (acc @ [hop_step pools nodes (nat idx)])"
  by (subst bt_loop.simps; simp)+

lemma w_backtrack:
  "backtrack w_pools w_nodes 3 = Some
      [\<lparr>rs_pool = 7, rs_type = 0, rs_in = 10, rs_out = 11, rs_extra = []\<rparr>,
       \<lparr>rs_pool = 8, rs_type = 0, rs_in = 11, rs_out = 12, rs_extra = []\<rparr>]"
  "backtrack w_pools w_nodes 2 = Some [\<lparr>rs_pool = 9, rs_type = 0, rs_in = 10, rs_out = 12, rs_extra = []\<rparr>]"
  by (simp_all add: w_nodes_def backtrack_def bt_loop_unfold hop_step_def w_pools_def)

text \<open>The route of two hops is found first, then the direct one.\<close>

lemma w_found:
  "\<exists>r r'. FindTopRoutes w_quote w_adj w_pools (\<lambda>_. 0) w_evm (\<lambda>_ ks. ks) 10 12 100 0 3 = Some [r, r']
    \<and> map rs_pool (r_steps r) = [7, 8]"
proof -
  have sorted: "sort_cands (\<lambda>c. n_amount (w_nodes ! c)) [2, 3] = [3, 2]"
    by (simp add: sort_cands_def w_nodes_def)
  have evm: "evm_amount (w_evm d) = Some (50, 21000)" for d
    by (simp add: evm_amount_def w_evm_def be_word_def be_int_bytes Let_def del: be_bytes.simps)
       (simp add: be_bytes_map upt_rec)
  obtain d where d: "swap_calldata (\<lambda>_. 0) 100
      [\<lparr>rs_pool = 7, rs_type = 0, rs_in = 10, rs_out = 11, rs_extra = []\<rparr>,
       \<lparr>rs_pool = 8, rs_type = 0, rs_in = 11, rs_out = 12, rs_extra = []\<rparr>] = Some d"
    using swap_calldata_total [of "[\<lparr>rs_pool = 7, rs_type = 0, rs_in = 10, rs_out = 11, rs_extra = []\<rparr>,
       \<lparr>rs_pool = 8, rs_type = 0, rs_in = 11, rs_out = 12, rs_extra = []\<rparr>]" "\<lambda>_. 0" 100] w_no_panic
    by (auto simp: w_pools_def)
  obtain d' where d': "swap_calldata (\<lambda>_. 0) 100 [\<lparr>rs_pool = 9, rs_type = 0, rs_in = 10, rs_out = 12, rs_extra = []\<rparr>] = Some d'"
    using swap_calldata_total [of "[\<lparr>rs_pool = 9, rs_type = 0, rs_in = 10, rs_out = 12, rs_extra = []\<rparr>]" "\<lambda>_. 0" 100] w_no_panic
    by (auto simp: w_pools_def)
  show ?thesis
    using sorted evm w_backtrack d d' by (simp add: FindTopRoutes_def w_layers Let_def)
qed

text \<open>
  C16 Every route that is returned is a path along edges of the graph from the input token to the output
  token, with at least one hop and at most the hop limit, and in a search between different tokens it never
  returns to the input token.
\<close>

theorem routes_are_paths:
  assumes "FindTopRoutes quote adj pools hex evm order tokenIn tokenOut amountIn maxHops limit = Some rs" and "r \<in> set rs"
  shows "chain tokenIn (r_steps r) tokenOut \<and> r_steps r \<noteq> [] \<and> length (r_steps r) \<le> hops_of maxHops
    \<and> (\<forall>s\<in>set (r_steps r). step_of_edge adj pools s \<and> (tokenIn = tokenOut \<or> rs_out s \<noteq> tokenIn))"
  using FindTopRoutes_node [OF assms] bfs_node_ok_chain bfs_node_ok_edges by metis

theorem routes_are_paths_witness:
  "\<exists>r r'. FindTopRoutes w_quote w_adj w_pools (\<lambda>_. 0) w_evm (\<lambda>_ ks. ks) 10 12 100 0 3 = Some [r, r']
    \<and> chain 10 (r_steps r) 12 \<and> r_steps r \<noteq> [] \<and> length (r_steps r) \<le> hops_of 0
    \<and> (\<forall>s\<in>set (r_steps r). step_of_edge w_adj w_pools s \<and> ((10 :: address) = 12 \<or> rs_out s \<noteq> 10))"
proof -
  obtain r r' where f: "FindTopRoutes w_quote w_adj w_pools (\<lambda>_. 0) w_evm (\<lambda>_ ks. ks) 10 12 100 0 3 = Some [r, r']"
    using w_found by blast
  show ?thesis using f routes_are_paths [OF f, of r] by (intro exI [of _ r] exI [of _ r']) simp
qed

text \<open>
  Routes come in the order of what the formulas promise for them: the chained quote of a route is never
  below that of a later route.
\<close>

theorem routes_sorted_by_formula:
  assumes "FindTopRoutes quote adj pools hex evm order tokenIn tokenOut amountIn maxHops limit = Some rs" and "adj_wf adj"
  shows "sorted_wrt (\<lambda>r r'. QuotePath quote (r_steps r') amountIn \<le> QuotePath quote (r_steps r) amountIn) rs"
  using assms by (rule FindTopRoutes_order)

theorem routes_sorted_by_formula_witness:
  "\<exists>r r'. FindTopRoutes w_quote w_adj w_pools (\<lambda>_. 0) w_evm (\<lambda>_ ks. ks) 10 12 100 0 3 = Some [r, r']
    \<and> QuotePath w_quote (r_steps r') 100 \<le> QuotePath w_quote (r_steps r) 100"
proof -
  obtain r r' where f: "FindTopRoutes w_quote w_adj w_pools (\<lambda>_. 0) w_evm (\<lambda>_ ks. ks) 10 12 100 0 3 = Some [r, r']"
    using w_found by blast
  have "adj_wf w_adj" by (simp add: adj_wf_def w_adj_def w_edge_def)
  then show ?thesis using f routes_sorted_by_formula [OF f] by auto
qed

text \<open>
  C17 Every route that is returned was executed: its calldata encodes its steps, its output is the positive
  signed 256-bit number the router returned for that calldata, and no more routes than the limit are returned.
\<close>

theorem routes_are_verified:
  assumes "FindTopRoutes quote adj pools hex evm order tokenIn tokenOut amountIn maxHops limit = Some rs"
  shows "length rs \<le> (if limit \<le> 0 then 1 else nat limit) \<and>
    (\<forall>r\<in>set rs. swap_calldata hex amountIn (r_steps r) = Some (r_data r)
      \<and> evm_amount (evm (r_data r)) = Some (r_out r, r_gas r) \<and> 0 < uint (r_out r) \<and> uint (r_out r) < 2 ^ 255)"
proof -
  have "length rs \<le> (if limit \<le> 0 then 1 else nat limit)"
  proof (cases "amountIn = 0")
    case False
    then show ?thesis using FindTopRoutes_cands [OF assms False] by metis
  qed (use assms FindTopRoutes_zero in auto)
  moreover have "swap_calldata hex amountIn (r_steps r) = Some (r_data r)
      \<and> evm_amount (evm (r_data r)) = Some (r_out r, r_gas r) \<and> 0 < uint (r_out r) \<and> uint (r_out r) < 2 ^ 255"
    if "r \<in> set rs" for r
  proof (rule FindTopRoutes_node [OF assms that])
    fix nodes c
    assume "route_of hex evm pools nodes amountIn c r"
    then show ?thesis using evm_amount_pos [of "evm (r_data r)" "r_out r" "r_gas r"] by (simp add: route_of_def)
  qed
  ultimately show ?thesis by blast
qed

theorem routes_are_verified_witness:
  "\<exists>r r'. FindTopRoutes w_quote w_adj w_pools (\<lambda>_. 0) w_evm (\<lambda>_ ks. ks) 10 12 100 0 3 = Some [r, r']
    \<and> swap_calldata (\<lambda>_. 0) 100 (r_steps r) = Some (r_data r) \<and> 0 < uint (r_out r)"
proof -
  obtain r r' where f: "FindTopRoutes w_quote w_adj w_pools (\<lambda>_. 0) w_evm (\<lambda>_ ks. ks) 10 12 100 0 3 = Some [r, r']"
    using w_found by blast
  then show ?thesis using routes_are_verified [OF f] by auto
qed

text \<open>
  C18 The best route is at least as good as any direct pool: when the router accepts every call, the chained
  quote of the first route is at least the quote of each pool that trades the two tokens.
\<close>

theorem best_route_beats_direct_pools:
  assumes "FindTopRoutes quote adj pools hex evm order tokenIn tokenOut amountIn maxHops limit = Some (r # rs)"
    and "tokenIn \<noteq> tokenOut" and "adj_wf adj" and "\<And>data. evm_amount (evm data) \<noteq> None"
    and "e \<in> set (adj tokenIn)" and "pe_out e = tokenOut"
  shows "quote (p_address (pools ! unat (pe_idx e))) amountIn (pe_in e) tokenOut \<le> QuotePath quote (r_steps r) amountIn"
  using assms by (rule FindTopRoutes_direct)

theorem best_route_beats_direct_pools_witness:
  "\<exists>r r'. FindTopRoutes w_quote w_adj w_pools (\<lambda>_. 0) w_evm (\<lambda>_ ks. ks) 10 12 100 0 3 = Some [r, r']
    \<and> w_quote 9 100 10 12 \<le> QuotePath w_quote (r_steps r) 100"
proof -
  obtain r r' where f: "FindTopRoutes w_quote w_adj w_pools (\<lambda>_. 0) w_evm (\<lambda>_ ks. ks) 10 12 100 0 3 = Some [r, r']"
    using w_found by blast
  have "evm_amount (w_evm d) \<noteq> None" for d
    by (simp add: evm_amount_def w_evm_def be_word_def be_int_bytes Let_def del: be_bytes.simps)
       (simp add: be_bytes_map upt_rec)
  moreover have "adj_wf w_adj" "w_edge 2 10 12 \<in> set (w_adj 10)" by (simp_all add: adj_wf_def w_adj_def w_edge_def)
  ultimately show ?thesis
    using f best_route_beats_direct_pools [OF f, of "w_edge 2 10 12"] by (simp add: w_edge_def w_pools_def)
qed

text \<open>
  C19 The search does not panic and its backtracking ends, when every edge points into the pool list and the
  extra data of the pools can be encoded.
\<close>

theorem search_does_not_panic:
  assumes "adj_in pools adj" and "\<forall>p\<in>set pools. encodeV4ExtraData hex (p_extra p) \<noteq> None"
  shows "\<exists>rs. FindTopRoutes quote adj pools hex evm order tokenIn tokenOut amountIn maxHops limit = Some rs"
  using FindTopRoutes_total [OF assms] by auto

theorem search_does_not_panic_witness:
  "\<exists>rs. FindTopRoutes w_quote w_adj w_pools (\<lambda>_. 0) w_evm (\<lambda>_ ks. ks) 10 10 100 4 1 = Some rs"
  using search_does_not_panic w_no_panic by blast

section \<open>State layer\<close>

text \<open>
  C20 A revert restores the snapshot: on a call state prepared for a call, after any run of the
  EVM, a snapshot followed by any further run (reads, storage, balance, transient, refund,
  access-list and log operations, nested snapshots and their reverts) can be reverted without a
  panic, and the overrides, the access list, the refund, the logs, the journal and the outer
  snapshots are exactly those at the snapshot.
\<close>
theorem call_revert_restores:
  assumes "evm_run kc F 0 (cs_Prepare sender coinbase dest pre acc (cs_Reset s0)) s"
    and "cs_Snapshot s = (i, s1)"
    and "evm_run kc F (Suc i) s1 t"
  shows "\<exists>u. cs_RevertToSnapshot i t = Some u \<and> cs_ov u = cs_ov s \<and> cs_journal u = cs_journal s
    \<and> cs_snapshots u = cs_snapshots s"
proof (rule revert_after_run [OF _ assms(2,3)])
  have "run_inv (cs_Prepare sender coinbase dest pre acc (cs_Reset s0)) s"
    by (rule evm_run_inv [OF assms(1) Prepare_Reset_ok]) (simp add: Prepare_fields)
  then show "ov_ok (cs_ov s)" by (rule run_inv_wf)
qed

theorem call_revert_restores_witness:
  "let s = cs_Prepare 1 2 None [] [] (cs_Reset (NewCallState (NewStateDB (None :: view option))));
       t = cs_do (\<lambda>_. 0) fixed_node (Op_SetState 5 6 7) (snd (cs_Snapshot s))
   in \<exists>u. cs_RevertToSnapshot 0 t = Some u \<and> cs_ov u = cs_ov s \<and> cs_journal u = cs_journal s
        \<and> cs_snapshots u = cs_snapshots s"
  unfolding Let_def
  by (rule call_revert_restores [OF run_start _ run_op [OF run_start]])
    (simp add: cs_Snapshot_def cs_Prepare_def cs_Reset_def NewCallState_def)

text \<open>
  C21 A call state refines the plain account state: under any fetcher whose answers do not change by
  asking, each sequence of operations acts on storage, balances, transient storage, access list,
  refund and logs as the specification says, reads return the specification's values, and what
  the shared base shows is left as it was.
\<close>
theorem call_state_refines_accounts:
  assumes "fetch_source F"
  shows "abs_call F (fold (cs_do kc F) ops s) = fold spec_do ops (abs_call F s)
    \<and> fst (cs_GetState F a k (fold (cs_do kc F) ops s)) = as_storage (fold spec_do ops (abs_call F s)) a k
    \<and> fst (cs_GetBalance F a (fold (cs_do kc F) ops s)) = as_balance (fold spec_do ops (abs_call F s)) a
    \<and> db_view F (cs_base (fold (cs_do kc F) ops s)) = db_view F (cs_base s)"
  by (simp add: cs_read_values fetch_source.ops_refine [OF assms] fetch_source.ops_keep_base_view [OF assms])

theorem call_state_refines_accounts_witness:
  "fst (cs_GetBalance fixed_node 5 (fold (cs_do (\<lambda>_. 0) fixed_node) [Op_AddBalance 5 7, Op_SubBalance 5 3]
     (NewCallState (NewStateDB (Some zero_view))))) = 4"
proof -
  have "as_balance (abs_call fixed_node (NewCallState (NewStateDB (Some zero_view)))) 5 = 0"
    by (simp add: abs_call_def NewCallState_def empty_overlay_def NewStateDB_def db_view_def below_def
      observe_def fixed_node_def zero_view_def cached_Balance_def Immutable_def NewImmutableState_def
      im_GetBalance_def)
  then show ?thesis
    using call_state_refines_accounts [OF node.fetch_source_axioms, of "\<lambda>_. 0"
      "[Op_AddBalance 5 7, Op_SubBalance 5 3]" "NewCallState (NewStateDB (Some zero_view))" 5 0] by simp
qed

text \<open>
  C22 Nothing leaks from one EVM call to the next: a call on a reset call state returns the same
  result and leaves the same state as the call on a new one over the same base.
\<close>
theorem call_state_reset_is_new:
  "ExecuteWithCallState pre evm ctx (cs_Reset s) from_addr to_addr data =
   ExecuteWithCallState pre evm ctx (NewCallState (cs_base s)) from_addr to_addr data"
  by (simp add: ExecuteWithCallState_def Prepare_Reset_fresh)

text \<open>
  C23 Overrides: over any stable fetcher, the overlay built from a list of overrides shows, after any
  sequence of reads, the overridden slots, balances, nonces and non-empty code (the last
  override wins) and the base's values elsewhere; what the base below it shows never changes.
\<close>
theorem overrides_are_what_is_read:
  assumes "fetch_source F" and "ApplyOverrides kc base pos = Inr ov"
  shows "db_view (state_fetcher kc F) (fold (do_read kc (state_fetcher kc F)) rs ov) =
      fold override_view pos (through_overlay (db_view F base))
    \<and> below (state_fetcher kc F) (fold (do_read kc (state_fetcher kc F)) rs ov) = db_view F base"
proof -
  note src = fetch_source.overlay_source [OF assms(1), of kc]
  have ov: "ov = fold (apply_override kc) pos (NewOverlay base)"
    using assms(2) by (auto simp: ApplyOverrides_def split: if_splits)
  note av = apply_overrides_view [OF bare_layer_NewOverlay, of kc pos base "state_fetcher kc F"]
  have "below (state_fetcher kc F) ov = db_view F base"
    using av by (simp add: ov below_def NewOverlay_def NewStateDB_def observe_state_fetcher)
  with av show ?thesis
    by (simp add: fetch_source.reads_view [OF src] fetch_source.reads_below [OF src] ov db_view_NewOverlay)
qed

theorem overrides_are_what_is_read_witness:
  "let base = NewStateDB (Some zero_view);
       pos = [\<lparr>po_Addr = 1, po_Balance = Some 9, po_Nonce = 0, po_Code = None, po_Slots = [(2, 3)]\<rparr>];
       F1 = state_fetcher (\<lambda>_. 0) fixed_node;
       ov = fold (apply_override (\<lambda>_. 0)) pos (NewOverlay base);
       rs = [Read_Storage 1 2, Read_Balance 7]
   in db_view F1 (fold (do_read (\<lambda>_. 0) F1) rs ov) =
        fold override_view pos (through_overlay (db_view fixed_node base))
      \<and> below F1 (fold (do_read (\<lambda>_. 0) F1) rs ov) = db_view fixed_node base"
  unfolding Let_def
  by (rule overrides_are_what_is_read [OF node.fetch_source_axioms]) (simp add: ApplyOverrides_def)

text \<open>
  C24 Block diffs: whatever reads and diffs a loaded database has gone through, applying a diff makes
  it show the diff's values where the diff has one, also where the backfill holds an older one, and
  exactly what it showed before everywhere else; code hashes stay the hashes of the code shown.
\<close>
theorem block_diff_is_authoritative:
  assumes "live_db kc F s"
  shows "db_view F (ApplyBlockDiff kc d s) = diff_view d (db_view F s)
    \<and> fst (sd_GetCodeHash kc F a (ApplyBlockDiff kc d s)) = (case v_Code (db_view F s) a of
        Inl e \<Rightarrow> 0 | Inr c \<Rightarrow> if c = [] then 0 else kc c)"
proof -
  note l = live_layers_ok [OF assms]
  show ?thesis
    using ApplyBlockDiff_view [OF l, of F d] GetCodeHash_correct [OF layers_ok_diff [OF l], of F a d]
    by (simp add: diff_view_def)
qed

theorem block_diff_is_authoritative_witness:
  "let s = do_read (\<lambda>_. 0) fixed_node (Read_Storage 1 2)
             (SetImmutable (NewImmutableState 4 5) (NewStateDB (Some zero_view)));
       d = \<lparr>bd_BlockNum = 5, bd_BlockTime = 6, bd_Storage = nset 1 2 8 fmempty, bd_Balance = fmempty,
            bd_Nonce = fmempty\<rparr>
   in db_view fixed_node (ApplyBlockDiff (\<lambda>_. 0) d s) = diff_view d (db_view fixed_node s)
      \<and> fst (sd_GetCodeHash (\<lambda>_. 0) fixed_node 3 (ApplyBlockDiff (\<lambda>_. 0) d s)) =
        (case v_Code (db_view fixed_node s) 3 of Inl e \<Rightarrow> 0 | Inr c \<Rightarrow> if c = [] then 0 else 0)"
  unfolding Let_def
  by (rule block_diff_is_authoritative, rule live_read, rule live_load)
    (simp add: hashes_match_def NewImmutableState_def im_GetCode_def im_GetCodeHash_def)



text \<open>
  The flat storage cache answers as the two-level storage it was built from, for every order in
  which the nested loops may visit the maps.
\<close>
theorem fast_cache_equals_storage:
  assumes "visits_all order im"
  shows "fc_GetState (BuildFastCache order im) a k = im_GetStorage im a k"
  using assms by (rule BuildFastCache_reads)

theorem fast_cache_equals_storage_witness:
  "fc_GetState (BuildFastCache [(1, 2)] (im_SetStorage 1 2 3 (NewImmutableState 0 0))) 1 2 = Some 3"
proof -
  have "visits_all [(1, 2)] (im_SetStorage 1 2 3 (NewImmutableState 0 0))"
    by (auto simp: visits_all_def im_GetStorage_def im_SetStorage_def NewImmutableState_def)
  from fast_cache_equals_storage [OF this, of 1 2] show ?thesis
    by (simp add: im_GetStorage_def im_SetStorage_def NewImmutableState_def)
qed

section \<open>Pool manager\<close>

text \<open>A registry with one constant-product pool, its storage, and the manager that quotes it.\<close>

definition w_env :: "unit env" where
  "w_env = v2_env (\<lambda>p. if p = 1 then Some 0 else None)"

definition w_reserves :: hash where
  "w_reserves = 0x00000000000000000000000000000000271000000000000000000000000003e8"

definition w_reader :: storage_reader where
  "w_reader = (\<lambda>a k. if a = 1 \<and> k = 8 then w_reserves else 0)"

definition w_manager :: "storage_reader \<Rightarrow> unit pool_manager" where
  "w_manager r = SetPoolTokens 1 [2, 3] (NewPoolManager r)"



lemma w_construct:
  "fst (construct w_env 1 0 (w_manager w_reader)) \<noteq> None" "fst (construct w_env 1 0 (w_manager (\<lambda>a k. 0))) = None"
  by (simp_all add: construct_def construct_from_def tracked_v2_def newV2Pool_def newV2PoolWithSlot_def
      w_manager_def SetPoolTokens_def NewPoolManager_def dex_of_def FormulaV2_30bps_def w_reader_def
      reservesSlot_def w_reserves_def hash_slice_def take_bit_word_eq_self drop_bit_eq_div Let_def)



text \<open>
  C27 A pool whose first construction fails stays dead: its zero quoter is remembered without the slots
  the construction read, so no change of any slots, with their invalidations, makes the manager
  build it again.
\<close>
theorem failed_build_is_never_retried:
  assumes "fmlookup (pm_pools pm) p = None" and "GetFormulaID E p = Some fid" and "0 \<le> fid"
    and "fst (construct E p fid pm) = None" and "\<forall>a k. p \<notin> set (deps_at pm a k)"
  shows "fst (Get E p (fold (\<lambda>(c, s, v). slot_update c s v) us (snd (Get E p pm)))) = zeroQuoter p"
proof -
  have "stuck p (snd (Get E p pm))" using assms by (intro Get_stuck) auto
  from stuck_updates [OF this, of us] show ?thesis by (simp add: stuck_def Get_def)
qed

theorem failed_build_is_never_retried_witness:
  "fst (Get w_env 1 (fold (\<lambda>(c, s, v). slot_update c s v) [(1, 8, w_reserves)] (snd (Get w_env 1 (w_manager (\<lambda>a k. 0))))))
    = zeroQuoter 1 \<and> fst (construct w_env 1 0 (w_manager w_reader)) \<noteq> None"
  using failed_build_is_never_retried [of "w_manager (\<lambda>a k. 0)" 1 w_env 0 "[(1, 8, w_reserves)]"] w_construct
  by (simp add: w_env_def v2_env_def w_manager_def SetPoolTokens_def NewPoolManager_def deps_at_def)



section \<open>Order splitting\<close>





text \<open>
  C31 The recursive split never loses against the single route: its legs carry exactly the whole amount
  and give at least the output of one execution, at the full amount, of the route the search finds.
\<close>

theorem recursive_split_never_loses:
  assumes "GreedyRecursive p amountIn minPct = Some (Some res)"
  shows "sum_list (map (\<lambda>l. unat (lg_Volume l)) (sr_Legs res)) = unat amountIn \<and>
    (\<exists>rt out gas new. find_route p (sp_PM p) (overlay_state p fmempty) amountIn = Some (Some rt)
      \<and> run_leg p (overlay_state p fmempty) (r_steps rt) amountIn = Some (Some (out, gas, new))
      \<and> out \<le> sr_Total res)"
  using GreedyRecursive_kept [OF assms] by (auto simp: kept_def split_ok_def volumes_def beats_single_def)

lemma recursive_seventh: "GreedyRecursive seventh 100 60 = Some (Some \<lparr>sr_Legs = [seventh_leg 100], sr_Total = 14, sr_TotalGas = 21000\<rparr>)"
proof -
  obtain rt where rt: "find_route seventh seventh_quote (overlay_state seventh fmempty) 100 = Some (Some rt)" "r_steps rt = [market_hop 1]"
    using seventh_whole [of "overlay_state seventh fmempty"] by auto
  have "drop_bit 1 (100 :: u256) < 60" by simp
  then show ?thesis
    using rt seventh_whole [of "overlay_state seventh fmempty"]
    by (simp add: GreedyRecursive_def Let_def recurseSplit.simps [of seventh 100] outputs_def seventh_leg_def)
qed

theorem recursive_split_never_loses_witness:
  "\<exists>rt out gas new. find_route seventh (sp_PM seventh) (overlay_state seventh fmempty) 100 = Some (Some rt)
      \<and> run_leg seventh (overlay_state seventh fmempty) (r_steps rt) 100 = Some (Some (out, gas, new)) \<and> out \<le> 14"
  using recursive_split_never_loses [OF recursive_seventh] by simp

text \<open>
  C32 The default split runs its four strategies, and its result is at least as good as the result of each
  of them that has one; \<open>None\<close> for the whole is a panic of the route search, which the property on
  searches excludes for well-formed parameters.
\<close>

definition at_least :: "split_result option \<Rightarrow> split_result option \<Rightarrow> bool" where
  "at_least best r = (case r of None \<Rightarrow> True
     | Some r \<Rightarrow> (case best of None \<Rightarrow> False | Some b \<Rightarrow> sr_Total r \<le> sr_Total b))"

theorem default_split_is_greatest:
  "case Split p amountIn of None \<Rightarrow> True
   | Some best \<Rightarrow> (\<exists>front optim2 grad compete.
       GreedyMixed p amountIn SchedFrontLoaded = Some front \<and> OptimizedV2 p amountIn = Some optim2
       \<and> GreedyMixed p amountIn SchedGradual = Some grad \<and> GreedyCompete p amountIn 30 2 = Some compete
       \<and> list_all (at_least best) [front, optim2, grad, compete])"
proof (cases "Split p amountIn")
  case (Some best)
  then obtain front optim2 grad compete where
    r: "GreedyMixed p amountIn SchedFrontLoaded = Some front" "OptimizedV2 p amountIn = Some optim2"
    "GreedyMixed p amountIn SchedGradual = Some grad" "GreedyCompete p amountIn 30 2 = Some compete"
    and b: "reallocate p amountIn [front, optim2, grad, compete] = Some best"
    by (auto simp: Split_def SplitMax_def bind_eq_Some_conv)
  have "at_least best x" if "x \<in> {front, optim2, grad, compete}" for x
    using reallocate_best [OF b, of "the x"] that by (cases x) (auto simp: at_least_def)
  then show ?thesis using r Some by simp
qed simp

text \<open>
  The tournament split can return less than the single route, although the documentation calls it
  the one that provably never does: it compares inside slabs of 30 percent and never tries the full
  amount.  One pool that pays a seventh of the input, rounded down, is enough: 13 instead of 14.
\<close>

theorem compete_can_lose:
  "\<exists>res rt. GreedyCompete seventh 100 30 2 = Some (Some res) \<and> sr_Total res = 13
    \<and> find_route seventh (sp_PM seventh) (overlay_state seventh fmempty) 100 = Some (Some rt)
    \<and> run_leg seventh (overlay_state seventh fmempty) (r_steps rt) 100 = Some (Some (14, 21000, fmempty))"
  using compete_seventh seventh_whole [of "overlay_state seventh fmempty"] by auto


section \<open>V4 pools\<close>

text \<open>
  C34 A V4 quote always returns.  The loop of the quote has no iteration bound and no test for leaving the
  pre-loaded bitmap words, yet for every pool \<open>newV4Pool\<close> builds from any storage, under any registered
  positive tick spacing that fits its 24-bit type, and for every amount and direction, it ends with a
  number: it neither runs forever nor panics.
\<close>

theorem v4_quote_returns:
  assumes "newV4Pool keccak ids order cache addr reader = (Inr (Some p), cache')"
    and "ids (poolHex addr) = Some info" and "0 < pi_tickSpacing info" and "pi_tickSpacing info \<le> 2 ^ 22"
  shows "\<exists>out. v4_Quote md p amountIn tokenIn tokenOut = Some (Inr out)"
  using v4_Quote_returns [OF newV4Pool_ok [OF assms]] .

definition w_v4_keccak :: keccak where
  "w_v4_keccak bs = (if hd bs = 1 then 7 else 5)"

definition w_v4_reader :: storage_reader where
  "w_v4_reader a s = (if s = 7 then push_bit 208 3000 + push_bit 184 0x1001 + push_bit 96 1
     else if s = 10 then 1000000000000 else 0)"

definition w_v4_id :: hash where
  "w_v4_id = push_bit 248 1"

definition w_v4_registry :: v4_registry where
  "w_v4_registry = RegisterV4Pool (poolHex 9) (w_v4_id) 60 3000 0 0 Map.empty"

definition w_v4_pool :: v4_pool where
  "w_v4_pool = \<lparr>v4_addr = 9, v4_poolId = w_v4_id, v4_tickSpacing = 60, v4_hookFeePpm = 0,
     v4_lpFee = 3000, v4_protocolFee = 0x1001, v4_sqrtPriceX96 = push_bit 96 1, v4_tick = 0,
     v4_liquidity = 1000000000000, v4_bitmapWords = Map.empty, v4_tickLiquidityNet = []\<rparr>"

lemma w_v4_words:
  assumes "\<forall>k v. cache k = Some v \<longrightarrow> v = 5"
  shows "\<exists>cache'. load_words (v3ReadBitmapWordBytes w_v4_keccak w_v4_reader a base) ws (m, cache) = (m, cache')"
  using assms
proof (induction ws arbitrary: cache)
  case (Cons w ws)
  define r where "r = cachedKeccakSlotBytes w_v4_keccak cache w base"
  have "w_v4_keccak (slot_preimage w base) = 5"
    by (simp add: w_v4_keccak_def slot_preimage_def)
  then have "fst r = 5" "\<forall>k v. snd r k = Some v \<longrightarrow> v = 5"
    using Cons.prems by (auto simp: r_def cachedKeccakSlotBytes_def Let_def split: option.splits)
  with Cons.IH [of "snd r"] show ?case
    by (auto simp: v3ReadBitmapWordBytes_def r_def [symmetric] w_v4_reader_def case_prod_beta)
qed simp

lemma w_v4_slot: "v4GetPoolStateSlot w_v4_keccak w_v4_id = 7"
proof -
  have "hd (be_bytes 32 (uint w_v4_id)) = 1" by code_simp
  moreover have "be_bytes 32 (uint w_v4_id) \<noteq> []" using length_be_bytes [of 32 "uint w_v4_id"] by force
  ultimately show ?thesis by (simp add: v4GetPoolStateSlot_def w_v4_keccak_def)
qed

lemma w_v4_slots:
  "slot32 7 = Inr 7" "slot32 10 = Inr 10" "v4AddOffset32 7 5 = Inr 12" "v4AddOffset32 7 4 = Inr 11"
  by code_simp+

lemma w_v4_keys: "uint (7 :: hash) = 7" "(7 :: int) + 3 = 10"
  by simp_all

lemma w_v4_slot0:
  "uint (w_v4_reader v4PoolManagerAddr 7) AND (push_bit 160 1 - 1) = 2 ^ 96"
  "v4SignExtend24 (drop_bit 160 (uint (w_v4_reader v4PoolManagerAddr 7)) AND 0xFFFFFF) = 0"
  "word_of_int (drop_bit 184 (uint (w_v4_reader v4PoolManagerAddr 7)) AND 0xFFFFFF) = (0x1001 :: 32 word)"
  "word_of_int (drop_bit 208 (uint (w_v4_reader v4PoolManagerAddr 7)) AND 0xFFFFFF) = (3000 :: 32 word)"
  "uint (w_v4_reader v4PoolManagerAddr 10) AND (push_bit 128 1 - 1) = 1000000000000"
  by (simp_all add: w_v4_reader_def push_bit_eq_mult drop_bit_eq_div v4SignExtend24_def)

lemma w_v4_state:
  "FetchV4StateFromBytes w_v4_keccak (\<lambda>a slot. Some (w_v4_reader a slot)) w_v4_id 60 0
    = Inr \<lparr>st_sqrtPriceX96 = 2 ^ 96, st_tick = 0, st_protocolFee = 0x1001, st_lpFee = 3000,
           st_liquidity = 1000000000000, st_tickSpacing = 60, st_poolId = w_v4_id, st_hookFeePpm = 0\<rparr>"
  unfolding FetchV4StateFromBytes_def w_v4_slot Let_def
  by (simp only: w_v4_slots w_v4_slot0 sum.case option.case w_v4_keys)

lemma w_v4_build:
  "\<exists>cache'. newV4Pool w_v4_keccak w_v4_registry (\<lambda>m. filter (\<lambda>w. m w \<noteq> None) v4_words) Map.empty 9 w_v4_reader
     = (Inr (Some w_v4_pool), cache')"
proof -
  obtain cache' where "load_words (v3ReadBitmapWordBytes w_v4_keccak w_v4_reader v4PoolManagerAddr 12)
      v4_words (Map.empty, Map.empty) = (Map.empty, cache')"
    using w_v4_words [of Map.empty] by fastforce
  then show ?thesis
    by (simp add: newV4Pool_def w_v4_registry_def RegisterV4Pool_def w_v4_state w_v4_slot w_v4_slots
        arenaHookAddress_def w_v4_pool_def Let_def)
qed

theorem v4_quote_returns_witness:
  "\<exists>out. v4_Quote muldiv_full w_v4_pool 1000000 1 2 = Some (Inr out)"
proof -
  obtain cache' where b: "newV4Pool w_v4_keccak w_v4_registry (\<lambda>m. filter (\<lambda>w. m w \<noteq> None) v4_words)
      Map.empty 9 w_v4_reader = (Inr (Some w_v4_pool), cache')"
    using w_v4_build by blast
  have i: "w_v4_registry (poolHex 9) = Some \<lparr>pi_poolId = w_v4_id, pi_tickSpacing = 60,
      pi_hookFeePpm = 0, pi_lpFee = 3000, pi_hooks = 0\<rparr>"
    by (simp add: w_v4_registry_def RegisterV4Pool_def)
  show ?thesis by (rule v4_quote_returns [OF b i]) simp_all
qed

text \<open>
  The swap fee of a V4 pool in each direction is the LP fee compounded with that direction's twelve
  bits of the packed protocol fee, computed on 32-bit numbers without wrap-around: it is
  \<open>protocol + lp - protocol * lp / 10\<^sup>6\<close>, never below the LP fee and never above the whole.
\<close>

theorem v4_swap_fee_compounds:
  assumes "uint (v4_lpFee p) \<le> 1000000"
  shows "uint (v4_swapFee p z) =
      (let pf = (if z then uint (v4_protocolFee p) mod 4096 else uint (v4_protocolFee p) div 4096 mod 4096);
           lp = uint (v4_lpFee p)
       in pf + lp - pf * lp div 1000000)
    \<and> uint (v4_lpFee p) \<le> uint (v4_swapFee p z) \<and> uint (v4_swapFee p z) \<le> 1000000"
  using v4_swapFee_uint [OF assms, of z] by (simp add: direction_fee_uint Let_def)

theorem v4_swap_fee_compounds_witness:
  "uint (v4_swapFee (w_v4_pool\<lparr>v4_protocolFee := 0x3E81F4\<rparr>) True) = 3499
   \<and> uint (v4_swapFee (w_v4_pool\<lparr>v4_protocolFee := 0x3E81F4\<rparr>) False) = 3997"
  using v4_swap_fee_compounds [of "w_v4_pool\<lparr>v4_protocolFee := 0x3E81F4\<rparr>" True]
    v4_swap_fee_compounds [of "w_v4_pool\<lparr>v4_protocolFee := 0x3E81F4\<rparr>" False]
  by (simp add: w_v4_pool_def)

section \<open>The live state and the state server\<close>


definition w_hex :: hex_lib where
  "w_hex = \<lparr>HexToAddress = hexToAddr, HexToHash = hexToHash\<rparr>"



definition w_message :: server_message where
  "w_message = \<lparr>sm_Type = ''block_diff'', sm_BlockNumber = 11, sm_Timestamp = 2, sm_BaseFee = 0, sm_GasLimit = 0,
     sm_Entries = [(''s:0x0000000000000000000000000000000000000005:0x01'', ''0x08'')]\<rparr>"






text \<open>
  C36 The wire form of a block diff: whatever the order of the server's loops, a client that parses the
  entries gets back exactly the storage, the balances and the nonces of the diff.  The code is sent too,
  and the client ignores it.
\<close>

theorem block_diff_wire_round_trip:
  assumes "hex_ok H" and "diff_orders o' d" and "sm_Entries m = diffToEntries o'"
  shows "nget (bd_Storage (message_diff H m)) a k = nget (df_storage d) a k
    \<and> bd_Balance (message_diff H m) = df_balance d \<and> bd_Nonce (message_diff H m) = df_nonce d
    \<and> fold (diff_entry H) (map (\<lambda>(a, code). (''c:'' @ addrHex a, ''0x'' @ EncodeHex code)) (or_code o')) x = x"
  using wire_diff [OF assms] code_entries_dropped by blast

definition w_order :: diff_order where
  "w_order = \<lparr>or_storage = [(5, [(1, 8), (2, 9)])], or_balance = [(5, 1000)], or_nonce = [(5, 7)], or_code = [(6, [96])]\<rparr>"

definition w_diff :: server_diff where
  "w_diff = \<lparr>df_storage = nset 5 2 9 (nset 5 1 8 fmempty), df_balance = fmupd 5 1000 fmempty,
     df_nonce = fmupd 5 7 fmempty, df_code = fmupd 6 [96] fmempty\<rparr>"

definition w_lib :: hex_lib where
  "w_lib = \<lparr>HexToAddress = (\<lambda>s. word_of_int (be_int (DecodeHex (TrimPrefix s ''0x'')))),
     HexToHash = (\<lambda>s. word_of_int (be_int (DecodeHex (TrimPrefix s ''0x''))))\<rparr>"

lemma w_lib_ok: "hex_ok w_lib"
proof -
  have a: "word_of_int (be_int (be_bytes 20 (uint a))) = a" for a :: address
  proof -
    have "uint a < 256 ^ 20" using uint_bounded [of a] by simp
    then show ?thesis by (simp add: be_int_bytes)
  qed
  show ?thesis
    using a hash_word TrimPrefix_append [of "''0x''"] by (simp add: hex_ok_def w_lib_def addrHex_def hashHex_def)
qed

lemma w_orders: "diff_orders w_order w_diff"
  by (simp add: diff_orders_def slot_order_of_def storage_writes_def w_order_def w_diff_def enumerates_def)

theorem block_diff_wire_round_trip_witness:
  "nget (bd_Storage (message_diff w_lib (w_message\<lparr>sm_Entries := diffToEntries w_order\<rparr>))) 5 2 = Some 9
    \<and> bd_Balance (message_diff w_lib (w_message\<lparr>sm_Entries := diffToEntries w_order\<rparr>)) = fmupd 5 1000 fmempty"
  using block_diff_wire_round_trip [OF w_lib_ok w_orders, of "w_message\<lparr>sm_Entries := diffToEntries w_order\<rparr>" 5 2]
  by (simp add: w_diff_def)









text \<open>
  C39 What a new subscriber starts from: the storage of the dump arrives exactly, but every listed account
  arrives with a balance and a nonce, and where the server only knew another of its fields they are
  zero.  The client holds them as known values and never asks the node.
\<close>

theorem dump_zeroes_unknown_balances:
  assumes "slot_order_of order (sc_storage c)" and "a \<in> set addrs"
  shows "cached_Storage (ls_state (connect kc (dumpGob order addrs c))) b k = sc_getStorage c b k
    \<and> fst (sd_GetBalance F a (ls_state (connect kc (dumpGob order addrs c)))) = or_default 0 (sc_getBalance c a)
    \<and> fst (sd_GetNonce F a (ls_state (connect kc (dumpGob order addrs c)))) = or_default 0 (sc_getNonce c a)"
proof -
  note d = connect_dump [OF assms(1)]
  have "fst (sd_GetBalance F a s) = or_zero (layered (cached_Balance s a) (v_Balance (below F s) a))" for s
    using fst_reads(2) [of F a s] by (auto simp: sd_GetBalance_def or_zero_def split: prod.split sum.split)
  then show ?thesis using d(1) [of kc addrs b k] d(2,3) [OF assms(2), of kc] by (simp add: fst_reads(3))
qed

theorem dump_zeroes_unknown_balances_witness:
  "fst (sd_GetBalance (live_fetcher w_hex (\<lambda>m p. Inr (Some ''0x3e8''))) 5
     (ls_state (connect (\<lambda>_. 0) (dumpGob [] [5] (sc_setCode 5 [96] newStateCache))))) = 0
   \<and> FetchBalance (\<lambda>m p. Inr (Some ''0x3e8'')) 5 0 = Inr 1000"
proof -
  have "slot_order_of [] (sc_storage (sc_setCode 5 [96] newStateCache))"
    by (simp add: slot_order_of_def storage_writes_def sc_setCode_def newStateCache_def)
  moreover have "SetString16 (TrimPrefix ''0x3e8'' ''0x'') = Some 1000" by code_simp
  ultimately show ?thesis
    using dump_zeroes_unknown_balances [of "[]" "sc_setCode 5 [96] newStateCache" 5 "[5]" "\<lambda>_. 0" 5 0
        "live_fetcher w_hex (\<lambda>m p. Inr (Some ''0x3e8''))"]
    by (simp add: sc_getBalance_def sc_setCode_def newStateCache_def or_default_def FetchBalance_def fetch_value_def)
qed


end
